(* ===== verification/LpPrelude.thy ===== *)
theory LpPrelude imports Main "HOL-Library.Word" "HOL-Library.Product_Lexorder"
  "HOL-Library.Code_Target_Nat" "HOL-Library.Code_Target_Int" begin

text \<open>
  What the components of the development share: the machine integer types, the way a
  run of a function ends abnormally (a failed \<open>CHECK\<close>, an access outside a vector or a
  buffer), vector access with that outcome, and arithmetic facts on words read through
  \<open>unat\<close>.
\<close>

type_synonym u8 = "8 word"
type_synonym u16 = "16 word"
type_synonym u32 = "32 word"
type_synonym u64 = "64 word"

text \<open>
  A C++ function that returns normally yields \<open>Inr\<close> of its result (its \<open>false\<close> and
  \<open>nullptr\<close> included, as \<open>False\<close> and \<open>None\<close>). The ways it can fail to return are
  the faults: \<open>CheckFailed\<close> is a \<open>CHECK\<close> or an \<open>assert\<close> that aborts the process, \<open>OutOfRange\<close> an
  access past the end of a vector or a buffer, \<open>DivisionByZero\<close> a \<open>/\<close> or \<open>%\<close> by zero,
  \<open>UninitialisedRead\<close> the use of a variable that was never assigned, \<open>NullPointer\<close> the use of a null
  pointer and \<open>SignedOverflow\<close> a signed sum or product outside its type, which C++ leaves undefined.
\<close>

datatype fault = CheckFailed | OutOfRange | DivisionByZero | UninitialisedRead | NullPointer | SignedOverflow

type_synonym 'a run = "fault + 'a"

definition bind_run :: "'a run \<Rightarrow> ('a \<Rightarrow> 'b run) \<Rightarrow> 'b run" where
  "bind_run m f = (case m of Inl e \<Rightarrow> Inl e | Inr x \<Rightarrow> f x)"

definition check :: "bool \<Rightarrow> 'a run \<Rightarrow> 'a run" where
  "check c k = (if c then k else Inl CheckFailed)"

definition vec_at :: "'a list \<Rightarrow> nat \<Rightarrow> 'a run" where
  "vec_at xs i = (if i < length xs then Inr (xs ! i) else Inl OutOfRange)"

named_theorems run_simps \<open>equations of runs that return or fault\<close>

lemma bind_run_Inr [simp, run_simps]: "bind_run (Inr x) f = f x"
  by (simp add: bind_run_def)

lemma bind_run_Inl [simp, run_simps]: "bind_run (Inl e) f = Inl e"
  by (simp add: bind_run_def)

lemma bind_run_eq_Inr_iff [run_simps]:
  "bind_run m f = Inr y \<longleftrightarrow> (\<exists>x. m = Inr x \<and> f x = Inr y)"
  by (cases m) simp_all

lemma check_eq_Inr_iff [run_simps]: "check c k = Inr y \<longleftrightarrow> c \<and> k = Inr y"
  by (simp add: check_def)

lemma check_True [simp]: "check True k = k"
  by (simp add: check_def)

lemma vec_at_eq_Inr_iff [run_simps]: "vec_at xs i = Inr x \<longleftrightarrow> i < length xs \<and> x = xs ! i"
  by (auto simp: vec_at_def)

lemma vec_at_in [simp]: "i < length xs \<Longrightarrow> vec_at xs i = Inr (xs ! i)"
  by (simp add: vec_at_def)

section \<open>Words read as naturals\<close>

named_theorems word_nat \<open>word comparisons and arithmetic as facts of naturals\<close>

lemmas [word_nat] = word_le_nat_alt word_less_nat_alt word_unat_eq_iff

lemma unat_less_exp: "unat (x :: 'a::len word) < 2 ^ LENGTH('a)"
  by (rule unsigned_less)

lemma unat_add_small:
  fixes a b :: "'a::len word"
  assumes "unat a + unat b < 2 ^ LENGTH('a)"
  shows "unat (a + b) = unat a + unat b"
  using assms by (simp add: unat_word_ariths)

lemma unat_mult_small:
  fixes a b :: "'a::len word"
  assumes "unat a * unat b < 2 ^ LENGTH('a)"
  shows "unat (a * b) = unat a * unat b"
  using assms by (simp add: unat_word_ariths)

lemma unat_sub_small:
  fixes a b :: "'a::len word"
  assumes "unat b \<le> unat a"
  shows "unat (a - b) = unat a - unat b"
  using assms by (simp add: unat_sub word_le_nat_alt)

lemma unat_u64_lt [simp]: "unat (x :: u64) < 18446744073709551616"
  using unsigned_less[of x] by simp

lemma unat_u32_lt [simp]: "unat (x :: u32) < 4294967296"
  using unsigned_less[of x] by simp

lemma unat_ucast_u32_u64 [simp]: "unat (ucast (x :: u32) :: u64) = unat x"
  using unat_u32_lt[of x] by (simp add: unsigned_ucast_eq take_bit_nat_eq_self_iff del: unat_u32_lt)

lemma unat_of_nat_small:
  assumes "n < 2 ^ LENGTH('a::len)"
  shows "unat (of_nat n :: 'a word) = n"
  using assms by (simp add: unat_of_nat)

section \<open>Lists\<close>

text \<open>\<open>std::find_if\<close> as the code's loops write it: the index of the first match.\<close>

fun find_index :: "('a \<Rightarrow> bool) \<Rightarrow> 'a list \<Rightarrow> nat option" where
  "find_index P [] = None"
| "find_index P (x # xs) = (if P x then Some 0 else map_option Suc (find_index P xs))"

lemma find_index_SomeD:
  "find_index P xs = Some i \<Longrightarrow> i < length xs \<and> P (xs ! i) \<and> (\<forall>j<i. \<not> P (xs ! j))"
proof (induction xs arbitrary: i)
  case Nil
  then show ?case by simp
next
  case (Cons x xs)
  show ?case
  proof (cases "P x")
    case True
    with Cons.prems show ?thesis by simp
  next
    case False
    with Cons.prems obtain k where k: "find_index P xs = Some k" "i = Suc k"
      by auto
    with Cons.IH[OF k(1)] False show ?thesis
      by (auto simp: less_Suc_eq_0_disj)
  qed
qed

lemma find_index_None_iff: "find_index P xs = None \<longleftrightarrow> (\<forall>x\<in>set xs. \<not> P x)"
  by (induction xs) auto

lemma find_index_unique:
  assumes "i < length xs" "P (xs ! i)" "\<And>j. j < length xs \<Longrightarrow> P (xs ! j) \<Longrightarrow> j = i"
  shows "find_index P xs = Some i"
proof (cases "find_index P xs")
  case None
  with assms(1,2) show ?thesis by (auto simp: find_index_None_iff)
next
  case (Some k)
  with find_index_SomeD[OF Some] assms(3)[of k] show ?thesis by auto
qed

lemma sum_list_update_nat:
  fixes xs :: "nat list"
  assumes "i < length xs"
  shows "sum_list (xs[i := v]) + xs ! i = sum_list xs + v"
  using assms by (induction xs arbitrary: i) (auto split: nat.splits)

end
