(* ===== verification/LpFormat.thy ===== *)
theory LpFormat imports LpPrelude begin

text \<open>
  The on-disk metadata format of dynamic partitions
  (\<open>fs_mgr/liblp/include/liblp/metadata_format.h\<close>), \<open>struct LpMetadata\<close> of
  \<open>liblp.h\<close> and the conversion between C++ strings and the fixed character arrays of the
  format (\<open>NameFromFixedArray\<close> of \<open>reader.cpp\<close>, \<open>strncpy\<close> as the code calls it).
  Every integer has the width of its field; a \<open>char name[36]\<close> is a list of characters
  whose length 36 is the invariant \<open>fixed_name\<close>.
\<close>

section \<open>Constants\<close>

definition LP_METADATA_GEOMETRY_MAGIC :: u32 where "LP_METADATA_GEOMETRY_MAGIC = 0x616c4467"
definition LP_METADATA_GEOMETRY_SIZE :: nat where "LP_METADATA_GEOMETRY_SIZE = 4096"
definition LP_METADATA_HEADER_MAGIC :: u32 where "LP_METADATA_HEADER_MAGIC = 0x414C5030"
definition LP_METADATA_MAJOR_VERSION :: u16 where "LP_METADATA_MAJOR_VERSION = 10"
definition LP_METADATA_MINOR_VERSION_MIN :: u16 where "LP_METADATA_MINOR_VERSION_MIN = 0"
definition LP_METADATA_MINOR_VERSION_MAX :: u16 where "LP_METADATA_MINOR_VERSION_MAX = 2"
definition LP_METADATA_VERSION_FOR_UPDATED_ATTR :: u16 where
  "LP_METADATA_VERSION_FOR_UPDATED_ATTR = 1"
definition LP_METADATA_VERSION_FOR_EXPANDED_HEADER :: u16 where
  "LP_METADATA_VERSION_FOR_EXPANDED_HEADER = 2"

definition LP_PARTITION_ATTR_READONLY :: u32 where "LP_PARTITION_ATTR_READONLY = 1"
definition LP_PARTITION_ATTR_SLOT_SUFFIXED :: u32 where "LP_PARTITION_ATTR_SLOT_SUFFIXED = 2"
definition LP_PARTITION_ATTR_UPDATED :: u32 where "LP_PARTITION_ATTR_UPDATED = 4"
definition LP_PARTITION_ATTR_DISABLED :: u32 where "LP_PARTITION_ATTR_DISABLED = 8"
definition LP_PARTITION_ATTRIBUTE_MASK_V0 :: u32 where
  "LP_PARTITION_ATTRIBUTE_MASK_V0 = or LP_PARTITION_ATTR_READONLY LP_PARTITION_ATTR_SLOT_SUFFIXED"
definition LP_PARTITION_ATTRIBUTE_MASK_V1 :: u32 where
  "LP_PARTITION_ATTRIBUTE_MASK_V1 = or LP_PARTITION_ATTR_UPDATED LP_PARTITION_ATTR_DISABLED"
definition LP_PARTITION_ATTRIBUTE_MASK :: u32 where
  "LP_PARTITION_ATTRIBUTE_MASK = or LP_PARTITION_ATTRIBUTE_MASK_V0 LP_PARTITION_ATTRIBUTE_MASK_V1"

definition LP_METADATA_DEFAULT_PARTITION_NAME :: string where
  "LP_METADATA_DEFAULT_PARTITION_NAME = ''super''"
definition LP_SECTOR_SIZE :: u64 where "LP_SECTOR_SIZE = 512"
definition LP_PARTITION_RESERVED_BYTES :: nat where "LP_PARTITION_RESERVED_BYTES = 4096"

definition LP_HEADER_FLAG_VIRTUAL_AB_DEVICE :: u32 where "LP_HEADER_FLAG_VIRTUAL_AB_DEVICE = 1"
definition LP_HEADER_FLAG_OVERLAYS_ACTIVE :: u32 where "LP_HEADER_FLAG_OVERLAYS_ACTIVE = 2"
definition LP_TARGET_TYPE_LINEAR :: u32 where "LP_TARGET_TYPE_LINEAR = 0"
definition LP_TARGET_TYPE_ZERO :: u32 where "LP_TARGET_TYPE_ZERO = 1"
definition LP_GROUP_SLOT_SUFFIXED :: u32 where "LP_GROUP_SLOT_SUFFIXED = 1"
definition LP_BLOCK_DEVICE_SLOT_SUFFIXED :: u32 where "LP_BLOCK_DEVICE_SLOT_SUFFIXED = 1"

lemmas lp_attr_defs = LP_PARTITION_ATTR_READONLY_def LP_PARTITION_ATTR_SLOT_SUFFIXED_def
  LP_PARTITION_ATTR_UPDATED_def LP_PARTITION_ATTR_DISABLED_def
  LP_PARTITION_ATTRIBUTE_MASK_V0_def LP_PARTITION_ATTRIBUTE_MASK_V1_def
  LP_PARTITION_ATTRIBUTE_MASK_def

lemmas lp_version_defs = LP_METADATA_MAJOR_VERSION_def LP_METADATA_MINOR_VERSION_MIN_def
  LP_METADATA_MINOR_VERSION_MAX_def LP_METADATA_VERSION_FOR_UPDATED_ATTR_def
  LP_METADATA_VERSION_FOR_EXPANDED_HEADER_def

section \<open>Structures\<close>

record LpMetadataGeometry =
  g_magic :: u32
  g_struct_size :: u32
  g_checksum :: "u8 list"
  g_metadata_max_size :: u32
  g_metadata_slot_count :: u32
  g_logical_block_size :: u32

record LpMetadataTableDescriptor =
  td_offset :: u32
  td_num_entries :: u32
  td_entry_size :: u32

record LpMetadataHeader =
  h_magic :: u32
  h_major_version :: u16
  h_minor_version :: u16
  h_header_size :: u32
  h_header_checksum :: "u8 list"
  h_tables_size :: u32
  h_tables_checksum :: "u8 list"
  h_partitions :: LpMetadataTableDescriptor
  h_extents :: LpMetadataTableDescriptor
  h_groups :: LpMetadataTableDescriptor
  h_block_devices :: LpMetadataTableDescriptor
  h_flags :: u32
  h_reserved :: "u8 list"

record LpMetadataPartition =
  p_name :: string
  p_attributes :: u32
  p_first_extent_index :: u32
  p_num_extents :: u32
  p_group_index :: u32

record LpMetadataExtent =
  e_num_sectors :: u64
  e_target_type :: u32
  e_target_data :: u64
  e_target_source :: u32

record LpMetadataPartitionGroup =
  gr_name :: string
  gr_flags :: u32
  gr_maximum_size :: u64

record LpMetadataBlockDevice =
  bd_first_logical_sector :: u64
  bd_alignment :: u32
  bd_alignment_offset :: u32
  bd_size :: u64
  bd_partition_name :: string
  bd_flags :: u32

record LpMetadata =
  m_geometry :: LpMetadataGeometry
  m_header :: LpMetadataHeader
  m_partitions :: "LpMetadataPartition list"
  m_extents :: "LpMetadataExtent list"
  m_groups :: "LpMetadataPartitionGroup list"
  m_block_devices :: "LpMetadataBlockDevice list"

text \<open>\<open>sizeof\<close> of the packed structures.\<close>

definition sizeof_geometry :: nat where "sizeof_geometry = 52"
definition sizeof_header_v1_0 :: nat where "sizeof_header_v1_0 = 128"
definition sizeof_header :: nat where "sizeof_header = 256"
definition sizeof_partition :: nat where "sizeof_partition = 52"
definition sizeof_extent :: nat where "sizeof_extent = 24"
definition sizeof_group :: nat where "sizeof_group = 48"
definition sizeof_block_device :: nat where "sizeof_block_device = 64"
definition sizeof_name :: nat where "sizeof_name = 36"

lemmas sizeof_defs = sizeof_geometry_def sizeof_header_v1_0_def sizeof_header_def
  sizeof_partition_def sizeof_extent_def sizeof_group_def sizeof_block_device_def sizeof_name_def

section \<open>Names\<close>

abbreviation NUL :: char where "NUL \<equiv> CHR 0x00"

text \<open>A C string: the characters before the first NUL.\<close>

definition c_str :: "string \<Rightarrow> string" where
  "c_str s = takeWhile (\<lambda>c. c \<noteq> NUL) s"

text \<open>
  \<open>strncpy(dest, s.c_str(), n)\<close>: at most \<open>n\<close> characters of the C string, the rest of the
  destination filled with NULs.
\<close>

definition strncpy :: "nat \<Rightarrow> string \<Rightarrow> string" where
  "strncpy n s = (let c = take n (c_str s) in c @ replicate (n - length c) NUL)"

text \<open>
  \<open>NameFromFixedArray\<close>: a buffer whose last byte is NUL is read as a C string; otherwise
  the whole buffer is the name.
\<close>

definition NameFromFixedArray :: "string \<Rightarrow> string" where
  "NameFromFixedArray name =
     (if last name = NUL then c_str name else name)"

definition GetPartitionName :: "LpMetadataPartition \<Rightarrow> string" where
  "GetPartitionName p = NameFromFixedArray (p_name p)"

definition GetPartitionGroupName :: "LpMetadataPartitionGroup \<Rightarrow> string" where
  "GetPartitionGroupName g = NameFromFixedArray (gr_name g)"

definition GetBlockDevicePartitionName :: "LpMetadataBlockDevice \<Rightarrow> string" where
  "GetBlockDevicePartitionName d = NameFromFixedArray (bd_partition_name d)"

text \<open>
  \<open>UpdateBlockDevicePartitionName\<close> and its two siblings of \<open>utility.cpp\<close>: \<open>None\<close> where the
  code returns \<open>false\<close> and leaves the structure alone.
\<close>

definition UpdateBlockDevicePartitionName ::
  "LpMetadataBlockDevice \<Rightarrow> string \<Rightarrow> LpMetadataBlockDevice option" where
  "UpdateBlockDevicePartitionName d name =
     (if length name > sizeof_name then None
      else Some (d\<lparr>bd_partition_name := strncpy sizeof_name name\<rparr>))"

definition UpdatePartitionGroupName ::
  "LpMetadataPartitionGroup \<Rightarrow> string \<Rightarrow> LpMetadataPartitionGroup option" where
  "UpdatePartitionGroupName g name =
     (if length name > sizeof_name then None
      else Some (g\<lparr>gr_name := strncpy sizeof_name name\<rparr>))"

definition UpdatePartitionName ::
  "LpMetadataPartition \<Rightarrow> string \<Rightarrow> LpMetadataPartition option" where
  "UpdatePartitionName p name =
     (if length name > sizeof_name then None
      else Some (p\<lparr>p_name := strncpy sizeof_name name\<rparr>))"

text \<open>A name the format can store: no NUL inside, at most 36 characters.\<close>

definition storable_name :: "string \<Rightarrow> bool" where
  "storable_name s \<longleftrightarrow> NUL \<notin> set s \<and> length s \<le> sizeof_name"

definition fixed_name :: "string \<Rightarrow> bool" where
  "fixed_name s \<longleftrightarrow> length s = sizeof_name"

lemma c_str_no_NUL [simp]: "NUL \<notin> set s \<Longrightarrow> c_str s = s"
  by (auto simp: c_str_def takeWhile_eq_all_conv)

lemma NUL_notin_c_str [simp]: "NUL \<notin> set (c_str s)"
  by (auto simp: c_str_def dest: set_takeWhileD)

lemma length_strncpy [simp]: "length (strncpy n s) = n"
  by (simp add: strncpy_def Let_def)

lemma fixed_name_strncpy [simp]: "fixed_name (strncpy sizeof_name s)"
  by (simp add: fixed_name_def)

lemma c_str_append_NUL:
  "NUL \<notin> set s \<Longrightarrow> c_str (s @ replicate k NUL) = s"
  by (cases k) (auto simp: c_str_def takeWhile_append)

text \<open>
  Storing a name and reading it back gives the name, also for a name of exactly 36
  characters, which fills the array and has no terminator.
\<close>

lemma NameFromFixedArray_strncpy [simp]:
  assumes "storable_name s"
  shows "NameFromFixedArray (strncpy sizeof_name s) = s"
proof -
  have s: "NUL \<notin> set s" "length s \<le> 36"
    using assms by (auto simp: storable_name_def sizeof_name_def)
  then have eq: "strncpy sizeof_name s = s @ replicate (36 - length s) NUL"
    by (simp add: strncpy_def Let_def sizeof_name_def)
  show ?thesis
  proof (cases "length s = 36")
    case True
    then have "s \<noteq> []" by auto
    then have "last s \<in> set s" by (rule last_in_set)
    with s(1) have "last s \<noteq> NUL" by auto
    with True eq show ?thesis by (simp add: NameFromFixedArray_def)
  next
    case False
    with s(2) have "36 - length s > 0" by simp
    then have "last (s @ replicate (36 - length s) NUL) = NUL"
      by simp
    then show ?thesis
      by (simp add: NameFromFixedArray_def eq c_str_append_NUL s(1))
  qed
qed

end
