(* ===== verification/LpUtility.thy ===== *)
theory LpUtility imports LpFormat begin

text \<open>
  \<open>fs_mgr/liblp/utility.cpp\<close> and the \<open>AlignTo\<close> template of \<open>utility.h\<close>: rounding to
  an alignment, the offsets and sizes of the metadata area, slot suffixes, look-ups in a
  \<open>LpMetadata\<close>, and the two rewrites of a metadata for another slot or an older format.
\<close>

section \<open>Alignment\<close>

text \<open>
  The specification: the least multiple of the alignment that is not below the value,
  the value itself for alignment 0.
\<close>

definition round_up :: "nat \<Rightarrow> nat \<Rightarrow> nat" where
  "round_up n a = (if a = 0 then n else (n + a - 1) div a * a)"

lemma round_up_0 [simp]: "round_up n 0 = n"
  by (simp add: round_up_def)

lemma round_up_split:
  assumes "a \<noteq> 0"
  shows "round_up n a = (if n mod a = 0 then n else n + (a - n mod a))"
proof -
  have split: "n = n div a * a + n mod a" by simp
  show ?thesis
  proof (cases "n mod a = 0")
    case True
    then obtain q where q: "n = q * a" by (metis dvd_eq_mod_eq_0 dvdE mult.commute)
    then have "(n + a - 1) div a = q"
      using assms by (intro div_nat_eqI) (auto simp: algebra_simps)
    with True q assms show ?thesis by (simp add: round_up_def)
  next
    case False
    let ?q = "n div a"
    have "n mod a < a" using assms by simp
    have bounds: "x + a \<le> n + a - 1 \<and> n + a - 1 < x + a + a"
      if "n = x + r" "r \<noteq> 0" "r < a" for x r :: nat
      using that by arith
    have "?q * a + a \<le> n + a - 1 \<and> n + a - 1 < ?q * a + a + a"
      using split False \<open>n mod a < a\<close> by (rule bounds)
    then have "(n + a - 1) div a = Suc ?q"
      by (intro div_nat_eqI) (simp_all add: algebra_simps)
    then have "round_up n a = ?q * a + a"
      using assms by (simp add: round_up_def)
    moreover have "x + a = n + (a - r)" if "n = x + r" "r < a" for x r :: nat
      using that by arith
    ultimately show ?thesis
      using False split \<open>n mod a < a\<close> by metis
  qed
qed

lemma round_up_ge: "n \<le> round_up n a"
proof (cases "a = 0")
  case False
  then have "n mod a < a" by simp
  then have "n \<le> n + (a - n mod a)" by arith
  with False show ?thesis by (cases "n mod a = 0") (simp_all add: round_up_split)
qed simp

lemma round_up_less: "a \<noteq> 0 \<Longrightarrow> round_up n a < n + a"
  by (auto simp: round_up_split)

lemma round_up_dvd: "a \<noteq> 0 \<Longrightarrow> a dvd round_up n a"
  by (simp add: round_up_def)

lemma round_up_eq_self: "a dvd n \<Longrightarrow> round_up n a = n"
  by (cases "a = 0") (auto simp: round_up_split dvd_eq_mod_eq_0)

lemma round_up_mono: "m \<le> n \<Longrightarrow> round_up m a \<le> round_up n a"
  by (auto simp: round_up_def intro!: mult_le_mono1 div_le_mono)

lemma round_up_least: "a dvd m \<Longrightarrow> n \<le> m \<Longrightarrow> round_up n a \<le> m"
  using round_up_mono[of n m a] by (simp add: round_up_eq_self)

text \<open>
  \<open>AlignTo<T>\<close>: \<open>None\<close> where the code returns \<open>false\<close> (the sum would overflow \<open>T\<close>).
\<close>

definition align_to :: "'a::len word \<Rightarrow> u32 \<Rightarrow> 'a word option" where
  "align_to base alignment =
     (if alignment = 0 then Some base
      else let remainder = base mod ucast alignment in
        if remainder = 0 then Some base
        else let to_add = ucast alignment - remainder in
          if to_add > -1 - base then None else Some (base + to_add))"

lemma align_to_eq:
  fixes base :: "'a::len word"
  assumes len: "32 \<le> LENGTH('a)"
  shows "align_to base a =
    (let n = round_up (unat base) (unat a)
     in if n < 2 ^ LENGTH('a) then Some (of_nat n) else None)"
proof (cases "a = 0")
  case True
  then show ?thesis using unsigned_less[of base] by (simp add: align_to_def)
next
  case False
  let ?A = "ucast a :: 'a word"
  let ?r = "unat base mod unat a"
  have pow: "(2::nat) ^ 32 \<le> 2 ^ LENGTH('a)" using len by (intro power_increasing) auto
  have ua: "unat ?A = unat a"
    using unat_u32_lt[of a] pow
    by (simp add: unsigned_ucast_eq take_bit_nat_eq_self_iff del: unat_u32_lt)
  have a0: "unat a \<noteq> 0" using False by (simp add: unat_eq_zero)
  have rem: "unat (base mod ?A) = ?r" by (simp add: unat_mod ua)
  have rlt: "?r < unat a" using a0 by simp
  have add: "unat (?A - base mod ?A) = unat a - ?r"
    using rlt by (subst unat_sub_small) (auto simp: ua rem)
  have mx: "unat (-1 - base) = 2 ^ LENGTH('a) - 1 - unat base"
  proof -
    have m1: "unat (-1 :: 'a word) = 2 ^ LENGTH('a) - 1"
      by (simp add: unsigned_minus_1_eq_mask mask_eq_exp_minus_1)
    have "unat base \<le> unat (-1 :: 'a word)"
      using unat_less_exp[of base] unfolding m1 by arith
    then show ?thesis by (simp add: unat_sub_small m1)
  qed
  show ?thesis
  proof (cases "?r = 0")
    case True
    then have "base mod ?A = 0" using rem by (simp add: unat_eq_zero)
    then show ?thesis
      using False True a0 unsigned_less[of base]
      by (simp add: align_to_def round_up_split Let_def)
  next
    case nz: False
    then have "base mod ?A \<noteq> 0" using rem by (metis unat_0)
    moreover have "(?A - base mod ?A > -1 - base) \<longleftrightarrow>
        \<not> unat base + (unat a - ?r) < 2 ^ LENGTH('a)"
    proof -
      have "N - 1 - b < t \<longleftrightarrow> \<not> b + t < N" if "b < N" for b t N :: nat
        using that by arith
      from this[OF unat_less_exp[of base]] show ?thesis
        by (simp only: word_less_nat_alt add mx)
    qed
    moreover have "base + (?A - base mod ?A) = of_nat (unat base + (unat a - ?r))"
      by (simp flip: add)
    ultimately show ?thesis
      using False nz a0 by (simp add: align_to_def round_up_split Let_def)
  qed
qed

lemmas align_to_u64 = align_to_eq[where 'a = 64, simplified]
lemmas align_to_u32 = align_to_eq[where 'a = 32, simplified]

lemma align_to_u64_SomeD:
  "align_to (base :: u64) a = Some v \<Longrightarrow> unat v = round_up (unat base) (unat a)"
  by (auto simp: align_to_u64 Let_def unat_of_nat split: if_splits)

lemma align_to_u32_SomeD:
  "align_to (base :: u32) a = Some v \<Longrightarrow> unat v = round_up (unat base) (unat a)"
  by (auto simp: align_to_u32 Let_def unat_of_nat split: if_splits)

section \<open>Offsets and sizes of the metadata area\<close>

text \<open>
  Offsets are \<open>int64_t\<close> in the code and never negative here, so they are naturals. The
  integer widths are the ones C++ computes with: \<open>LP_PARTITION_RESERVED_BYTES + ... +
  metadata_max_size * slot_number\<close> mixes \<open>int\<close> literals with \<open>uint32_t\<close>, so the whole sum
  of \<open>GetPrimaryMetadataOffset\<close> and of \<open>GetTotalMetadataSize\<close> is reduced modulo \<open>2 ^ 32\<close>;
  \<open>GetBackupMetadataOffset\<close> widens the first product but not the second.
\<close>

definition GetPrimaryGeometryOffset :: nat where
  "GetPrimaryGeometryOffset = LP_PARTITION_RESERVED_BYTES"

definition GetBackupGeometryOffset :: nat where
  "GetBackupGeometryOffset = GetPrimaryGeometryOffset + LP_METADATA_GEOMETRY_SIZE"

definition GetPrimaryMetadataOffset :: "LpMetadataGeometry \<Rightarrow> u32 \<Rightarrow> nat run" where
  "GetPrimaryMetadataOffset geometry slot_number =
     check (slot_number < g_metadata_slot_count geometry)
       (Inr (unat (of_nat (LP_PARTITION_RESERVED_BYTES + LP_METADATA_GEOMETRY_SIZE * 2)
                   + g_metadata_max_size geometry * slot_number)))"

definition GetBackupMetadataOffset :: "LpMetadataGeometry \<Rightarrow> u32 \<Rightarrow> nat run" where
  "GetBackupMetadataOffset geometry slot_number =
     check (slot_number < g_metadata_slot_count geometry)
       (let start = LP_PARTITION_RESERVED_BYTES + LP_METADATA_GEOMETRY_SIZE * 2 +
                    unat (g_metadata_max_size geometry) * unat (g_metadata_slot_count geometry)
        in Inr (start + unat (g_metadata_max_size geometry * slot_number)))"

definition GetTotalMetadataSize :: "u32 \<Rightarrow> u32 \<Rightarrow> u64" where
  "GetTotalMetadataSize metadata_max_size max_slots =
     ucast (of_nat LP_PARTITION_RESERVED_BYTES
            + (of_nat LP_METADATA_GEOMETRY_SIZE + metadata_max_size * max_slots) * 2 :: u32)"

text \<open>The sizes and offsets without wrap-around, and when the code computes them.\<close>

definition total_metadata_size :: "nat \<Rightarrow> nat \<Rightarrow> nat" where
  "total_metadata_size max_size slots = 4096 + (4096 + max_size * slots) * 2"

lemma slot_offset_bound:
  assumes "total_metadata_size m n < N" "s \<le> n"
  shows "12288 + m * s < N"
proof -
  have "12288 + x < N" if "4096 + (4096 + y) * 2 < N" "x \<le> y" for x y :: nat
    using that by simp
  from this[OF assms(1)[unfolded total_metadata_size_def] mult_le_mono2[OF assms(2)]]
  show ?thesis .
qed

lemma GetTotalMetadataSize_exact:
  assumes "total_metadata_size (unat ms) (unat n) < 4294967296"
  shows "unat (GetTotalMetadataSize ms n) = total_metadata_size (unat ms) (unat n)"
proof -
  have m: "unat (ms * n) = unat ms * unat n"
    using assms by (intro unat_mult_small) (simp add: total_metadata_size_def)
  have a: "unat (4096 + ms * n) = 4096 + unat ms * unat n"
    using assms m by (subst unat_add_small) (auto simp: total_metadata_size_def)
  have b: "unat ((4096 + ms * n) * 2) = (4096 + unat ms * unat n) * 2"
    using assms a by (subst unat_mult_small) (auto simp: total_metadata_size_def)
  have c: "unat (4096 + (4096 + ms * n) * 2) = total_metadata_size (unat ms) (unat n)"
    using assms b by (subst unat_add_small) (auto simp: total_metadata_size_def)
  then show ?thesis
    by (simp add: GetTotalMetadataSize_def LP_PARTITION_RESERVED_BYTES_def
        LP_METADATA_GEOMETRY_SIZE_def)
qed

lemma GetPrimaryMetadataOffset_exact:
  assumes "unat slot < unat (g_metadata_slot_count g)"
    and "total_metadata_size (unat (g_metadata_max_size g)) (unat (g_metadata_slot_count g))
          < 4294967296"
  shows "GetPrimaryMetadataOffset g slot = Inr (12288 + unat (g_metadata_max_size g) * unat slot)"
proof -
  let ?m = "g_metadata_max_size g"
  have lt: "12288 + unat ?m * unat slot < 4294967296"
    using assms by (intro slot_offset_bound) auto
  then have m: "unat (?m * slot) = unat ?m * unat slot"
    by (intro unat_mult_small) simp
  have "unat (12288 + ?m * slot) = 12288 + unat ?m * unat slot"
    using lt m by (subst unat_add_small) auto
  then show ?thesis
    using assms(1) by (simp add: GetPrimaryMetadataOffset_def LP_PARTITION_RESERVED_BYTES_def
        LP_METADATA_GEOMETRY_SIZE_def word_less_nat_alt)
qed

lemma GetBackupMetadataOffset_exact:
  assumes "unat slot < unat (g_metadata_slot_count g)"
    and "total_metadata_size (unat (g_metadata_max_size g)) (unat (g_metadata_slot_count g))
          < 4294967296"
  shows "GetBackupMetadataOffset g slot =
    Inr (12288 + unat (g_metadata_max_size g) * (unat (g_metadata_slot_count g) + unat slot))"
proof -
  let ?m = "g_metadata_max_size g"
  have lt: "12288 + unat ?m * unat slot < 4294967296"
    using assms by (intro slot_offset_bound) auto
  then have "unat (?m * slot) = unat ?m * unat slot"
    by (intro unat_mult_small) simp
  then show ?thesis
    using assms(1) by (simp add: GetBackupMetadataOffset_def LP_PARTITION_RESERVED_BYTES_def
        LP_METADATA_GEOMETRY_SIZE_def word_less_nat_alt algebra_simps)
qed

section \<open>Slots and look-ups\<close>

definition GetMetadataSuperBlockDevice :: "LpMetadata \<Rightarrow> LpMetadataBlockDevice option" where
  "GetMetadataSuperBlockDevice metadata =
     (case m_block_devices metadata of [] \<Rightarrow> None | d # _ \<Rightarrow> Some d)"

definition SlotNumberForSlotSuffix :: "string \<Rightarrow> u32" where
  "SlotNumberForSlotSuffix suffix =
     (if suffix = [] \<or> suffix = ''a'' \<or> suffix = ''_a'' then 0
      else if suffix = ''b'' \<or> suffix = ''_b'' then 1 else 0)"

definition GetTotalSuperPartitionSize :: "LpMetadata \<Rightarrow> u64" where
  "GetTotalSuperPartitionSize metadata =
     foldl (\<lambda>size d. size + bd_size d) 0 (m_block_devices metadata)"

definition GetBlockDevicePartitionNames :: "LpMetadata \<Rightarrow> string list" where
  "GetBlockDevicePartitionNames metadata =
     map GetBlockDevicePartitionName (m_block_devices metadata)"

definition FindPartition :: "LpMetadata \<Rightarrow> string \<Rightarrow> nat option" where
  "FindPartition metadata name =
     find_index (\<lambda>p. GetPartitionName p = name) (m_partitions metadata)"

text \<open>
  The loop of \<open>GetPartitionSize\<close>: \<open>n\<close> extents from index \<open>first + i\<close>, the index computed
  in \<open>uint32_t\<close>.
\<close>

fun sum_extent_sizes :: "LpMetadataExtent list \<Rightarrow> u32 \<Rightarrow> nat \<Rightarrow> u64 \<Rightarrow> u64 run" where
  "sum_extent_sizes extents idx 0 acc = Inr acc"
| "sum_extent_sizes extents idx (Suc n) acc =
     bind_run (vec_at extents (unat idx)) (\<lambda>e.
       sum_extent_sizes extents (idx + 1) n (acc + e_num_sectors e * LP_SECTOR_SIZE))"

definition GetPartitionSize :: "LpMetadata \<Rightarrow> LpMetadataPartition \<Rightarrow> u64 run" where
  "GetPartitionSize metadata part =
     sum_extent_sizes (m_extents metadata) (p_first_extent_index part)
       (unat (p_num_extents part)) 0"

definition GetPartitionSlotSuffix :: "string \<Rightarrow> string" where
  "GetPartitionSlotSuffix name =
     (if length name \<le> 2 then []
      else let suffix = drop (length name - 2) name
        in if suffix = ''_a'' \<or> suffix = ''_b'' then suffix else [])"

definition SlotSuffixForSlotNumber :: "u32 \<Rightarrow> string run" where
  "SlotSuffixForSlotNumber slot_number =
     check (slot_number = 0 \<or> slot_number = 1)
       (Inr (if slot_number = 0 then ''_a'' else ''_b''))"

lemma SlotNumber_of_SlotSuffix:
  "SlotSuffixForSlotNumber n = Inr s \<Longrightarrow> SlotNumberForSlotSuffix s = n"
  by (auto simp: SlotSuffixForSlotNumber_def SlotNumberForSlotSuffix_def check_eq_Inr_iff
      split: if_splits)

lemma SlotSuffixForSlotNumber_cases:
  assumes "SlotSuffixForSlotNumber n = Inr s"
  shows "n = 0 \<and> s = ''_a'' \<or> n = 1 \<and> s = ''_b''"
  using assms by (auto simp: SlotSuffixForSlotNumber_def check_eq_Inr_iff)

text \<open>Replacing the slot suffix, as \<open>substr(0, size - suffix.size()) + target\<close> does.\<close>

definition retarget_name :: "string \<Rightarrow> string \<Rightarrow> string \<Rightarrow> string" where
  "retarget_name name suffix target = take (length name - length suffix) name @ target"

lemma GetPartitionSlotSuffix_cases:
  "GetPartitionSlotSuffix name = [] \<or>
   (\<exists>base. base \<noteq> [] \<and> name = base @ GetPartitionSlotSuffix name \<and>
           GetPartitionSlotSuffix name \<in> {''_a'', ''_b''})"
proof (cases "length name \<le> 2")
  case True
  then show ?thesis by (simp add: GetPartitionSlotSuffix_def)
next
  case False
  let ?base = "take (length name - 2) name"
  let ?suffix = "drop (length name - 2) name"
  have b: "?base \<noteq> []" using False by auto
  show ?thesis
  proof (cases "?suffix = ''_a'' \<or> ?suffix = ''_b''")
    case True
    then have eq: "GetPartitionSlotSuffix name = ?suffix"
      using False by (auto simp: GetPartitionSlotSuffix_def Let_def)
    have "name = ?base @ GetPartitionSlotSuffix name" by (simp add: eq)
    moreover have "GetPartitionSlotSuffix name \<in> {''_a'', ''_b''}" using True eq by auto
    ultimately show ?thesis using b by blast
  next
    case other: False
    then have "GetPartitionSlotSuffix name = []"
      by (auto simp: GetPartitionSlotSuffix_def Let_def)
    then show ?thesis by blast
  qed
qed

lemma GetPartitionSlotSuffix_append:
  "base \<noteq> [] \<Longrightarrow> s = ''_a'' \<or> s = ''_b'' \<Longrightarrow> GetPartitionSlotSuffix (base @ s) = s"
  by (cases base) (auto simp: GetPartitionSlotSuffix_def)

lemma retarget_name_props:
  assumes "GetPartitionSlotSuffix name = src" "src \<noteq> []" "tgt = ''_a'' \<or> tgt = ''_b''"
  shows "length (retarget_name name src tgt) = length name"
    and "GetPartitionSlotSuffix (retarget_name name src tgt) = tgt"
    and "NUL \<notin> set name \<Longrightarrow> NUL \<notin> set (retarget_name name src tgt)"
proof -
  from GetPartitionSlotSuffix_cases[of name] assms(1,2) obtain base
    where b: "base \<noteq> []" "name = base @ src" "src \<in> {''_a'', ''_b''}" by auto
  then have r: "retarget_name name src tgt = base @ tgt"
    by (simp add: retarget_name_def)
  show "length (retarget_name name src tgt) = length name"
    using b assms(3) r by auto
  show "GetPartitionSlotSuffix (retarget_name name src tgt) = tgt"
    unfolding r by (rule GetPartitionSlotSuffix_append) (use b assms(3) in auto)
  show "NUL \<notin> set name \<Longrightarrow> NUL \<notin> set (retarget_name name src tgt)"
    unfolding r using b assms(3) by auto
qed

end
