(* ===== verification/LpCodec.thy ===== *)
theory LpCodec imports LpUtility begin

text \<open>
  The byte images of the packed structures of \<open>metadata_format.h\<close>: what \<open>memcpy\<close> between a buffer
  and a structure does on a little-endian machine. The interface \<open>fixed_codec\<close> states what the
  reader and the writer rely on, a one-to-one image of fixed size, and holds the lemma on tables
  of such entries; every structure interprets it.
\<close>

section \<open>Little-endian integers and names\<close>

fun le_enc :: "nat \<Rightarrow> nat \<Rightarrow> u8 list" where
  "le_enc 0 x = []"
| "le_enc (Suc n) x = of_nat (x mod 256) # le_enc n (x div 256)"

fun le_dec :: "u8 list \<Rightarrow> nat" where
  "le_dec [] = 0"
| "le_dec (b # bs) = unat b + 256 * le_dec bs"

lemma length_le_enc [simp]: "length (le_enc n x) = n"
  by (induction n arbitrary: x) auto

lemma le_dec_enc: "x < 256 ^ n \<Longrightarrow> le_dec (le_enc n x) = x"
proof (induction n arbitrary: x)
  case (Suc n)
  have "x div 256 < 256 ^ n" using Suc.prems by (simp add: div_less_iff_less_mult mult.commute)
  with Suc.IH[of "x div 256"] show ?case
    by (simp add: unat_of_nat)
qed simp

lemma unat_u8_lt [simp]: "unat (b :: u8) < 256"
  using unsigned_less[of b] by simp

lemma le_enc_dec: "le_enc (length bs) (le_dec bs) = bs"
proof (induction bs)
  case (Cons b bs)
  have "(unat b + 256 * le_dec bs) mod 256 = unat b" "(unat b + 256 * le_dec bs) div 256 = le_dec bs"
    using unat_u8_lt[of b] by simp_all
  with Cons show ?case by simp
qed simp

lemma le_dec_less: "le_dec bs < 256 ^ length bs"
proof (induction bs)
  case (Cons b bs)
  have "unat b + 256 * le_dec bs < 256 * n" if "le_dec bs < n" for n
    using unat_u8_lt[of b] that by (simp del: unat_u8_lt)
  with Cons show ?case by simp
qed simp

definition enc16 :: "u16 \<Rightarrow> u8 list" where "enc16 w = le_enc 2 (unat w)"
definition enc32 :: "u32 \<Rightarrow> u8 list" where "enc32 w = le_enc 4 (unat w)"
definition enc64 :: "u64 \<Rightarrow> u8 list" where "enc64 w = le_enc 8 (unat w)"

text \<open>The field of \<open>n\<close> bytes at an offset of a structure's image.\<close>

definition bytes_at :: "nat \<Rightarrow> nat \<Rightarrow> 'a list \<Rightarrow> 'a list" where
  "bytes_at off n bs = take n (drop off bs)"

definition dec16 :: "nat \<Rightarrow> u8 list \<Rightarrow> u16" where "dec16 off bs = of_nat (le_dec (bytes_at off 2 bs))"
definition dec32 :: "nat \<Rightarrow> u8 list \<Rightarrow> u32" where "dec32 off bs = of_nat (le_dec (bytes_at off 4 bs))"
definition dec64 :: "nat \<Rightarrow> u8 list \<Rightarrow> u64" where "dec64 off bs = of_nat (le_dec (bytes_at off 8 bs))"

definition enc_name :: "string \<Rightarrow> u8 list" where "enc_name s = map (\<lambda>c. of_nat (of_char c)) s"
definition dec_name :: "u8 list \<Rightarrow> string" where "dec_name bs = map (\<lambda>b. char_of (unat b)) bs"

lemma length_enc [simp]:
  "length (enc16 x) = 2" "length (enc32 y) = 4" "length (enc64 z) = 8" "length (enc_name s) = length s"
  by (simp_all add: enc16_def enc32_def enc64_def enc_name_def)

lemma of_nat_le_dec_enc:
  assumes "LENGTH('a::len) = 8 * n"
  shows "(of_nat (le_dec (le_enc n (unat w))) :: 'a word) = w"
proof -
  have "unat w < 256 ^ n" using unat_less_exp[of w] assms by (simp add: power_mult)
  then show ?thesis by (simp add: le_dec_enc)
qed

lemma bytes_at_skip [simp]: "length xs \<le> off \<Longrightarrow> bytes_at off n (xs @ ys) = bytes_at (off - length xs) n ys"
  by (simp add: bytes_at_def)

lemma bytes_at_here: "n = length xs \<Longrightarrow> bytes_at 0 n (xs @ ys) = xs"
  by (simp add: bytes_at_def)

lemma bytes_at_all: "n = length xs \<Longrightarrow> bytes_at 0 n xs = xs"
  by (simp add: bytes_at_def)

named_theorems codec \<open>reading a field from an image\<close>

lemma dec16_skip [codec]: "length xs \<le> off \<Longrightarrow> dec16 off (xs @ ys) = dec16 (off - length xs) ys"
  by (simp add: dec16_def)

lemma dec32_skip [codec]: "length xs \<le> off \<Longrightarrow> dec32 off (xs @ ys) = dec32 (off - length xs) ys"
  by (simp add: dec32_def)

lemma dec64_skip [codec]: "length xs \<le> off \<Longrightarrow> dec64 off (xs @ ys) = dec64 (off - length xs) ys"
  by (simp add: dec64_def)

lemma dec_here [codec]:
  "dec16 0 (enc16 x @ ys) = x" "dec32 0 (enc32 y @ ys) = y" "dec64 0 (enc64 z @ ys) = z"
  "dec16 0 (enc16 x) = x" "dec32 0 (enc32 y) = y" "dec64 0 (enc64 z) = z"
  by (simp_all add: dec16_def dec32_def dec64_def bytes_at_here bytes_at_all
      enc16_def enc32_def enc64_def of_nat_le_dec_enc)

lemma length_dec_name [simp]: "length (dec_name bs) = length bs"
  by (simp add: dec_name_def)

lemma char_byte: "char_of (unat (of_nat (of_char c) :: u8)) = c"
  by (simp add: unat_of_nat)

lemma byte_char: "of_nat (of_char (char_of (unat (b :: u8)))) = b"
  by (simp add: unat_of_nat)

lemma dec_name_enc [codec, simp]: "dec_name (enc_name s) = s"
  by (simp add: dec_name_def enc_name_def comp_def char_byte)

lemma enc_name_dec [simp]: "enc_name (dec_name bs) = bs"
  by (simp add: dec_name_def enc_name_def comp_def byte_char map_idI)

lemma unat_of_nat_le_dec:
  assumes "LENGTH('a::len) = 8 * length bs"
  shows "unat (of_nat (le_dec bs) :: 'a word) = le_dec bs"
  using le_dec_less[of bs] assms by (simp add: unat_of_nat power_mult)

lemma enc_dec:
  "off + 2 \<le> length bs \<Longrightarrow> enc16 (dec16 off bs) = bytes_at off 2 bs"
  "off + 4 \<le> length bs \<Longrightarrow> enc32 (dec32 off bs) = bytes_at off 4 bs"
  "off + 8 \<le> length bs \<Longrightarrow> enc64 (dec64 off bs) = bytes_at off 8 bs"
proof -
  have l: "length (bytes_at off n bs) = n" if "off + n \<le> length bs" for n
    using that by (simp add: bytes_at_def)
  show "off + 2 \<le> length bs \<Longrightarrow> enc16 (dec16 off bs) = bytes_at off 2 bs"
    using le_enc_dec[of "bytes_at off 2 bs"] unat_of_nat_le_dec[of "bytes_at off 2 bs", where 'a = 16] l[of 2]
    by (simp add: enc16_def dec16_def)
  show "off + 4 \<le> length bs \<Longrightarrow> enc32 (dec32 off bs) = bytes_at off 4 bs"
    using le_enc_dec[of "bytes_at off 4 bs"] unat_of_nat_le_dec[of "bytes_at off 4 bs", where 'a = 32] l[of 4]
    by (simp add: enc32_def dec32_def)
  show "off + 8 \<le> length bs \<Longrightarrow> enc64 (dec64 off bs) = bytes_at off 8 bs"
    using le_enc_dec[of "bytes_at off 8 bs"] unat_of_nat_le_dec[of "bytes_at off 8 bs", where 'a = 64] l[of 8]
    by (simp add: enc64_def dec64_def)
qed

lemma bytes_at_append: "bytes_at off m bs @ bytes_at (off + m) n bs = bytes_at off (m + n) bs"
  by (simp add: bytes_at_def take_add add.commute)

lemma bytes_at_join:
  "b = a + m \<Longrightarrow> bytes_at a m bs @ bytes_at b n bs = bytes_at a (m + n) bs"
  "b = a + m \<Longrightarrow> bytes_at a m bs @ bytes_at b n bs @ ys = bytes_at a (m + n) bs @ ys"
  using bytes_at_append[of a m bs n] by (simp_all flip: append_assoc)

lemma bytes_at_whole: "length bs = n \<Longrightarrow> bytes_at 0 n bs = bs"
  by (simp add: bytes_at_def)

lemma length_bytes_at [simp]: "off + n \<le> length bs \<Longrightarrow> length (bytes_at off n bs) = n"
  by (simp add: bytes_at_def)

section \<open>The interface of a structure's image\<close>

locale fixed_codec =
  fixes enc :: "'a \<Rightarrow> u8 list" and dec :: "u8 list \<Rightarrow> 'a" and sz :: nat and wf :: "'a \<Rightarrow> bool"
  assumes length_image: "wf x \<Longrightarrow> length (enc x) = sz"
    and dec_image: "wf x \<Longrightarrow> dec (enc x) = x"
    and image_dec: "length bs = sz \<Longrightarrow> enc (dec bs) = bs"
    and wf_dec: "length bs = sz \<Longrightarrow> wf (dec bs)"
begin

lemma enc_inject: "wf x \<Longrightarrow> wf y \<Longrightarrow> enc x = enc y \<Longrightarrow> x = y"
  by (metis dec_image)

lemma table_length: "\<forall>x\<in>set xs. wf x \<Longrightarrow> length (concat (map enc xs)) = length xs * sz"
  by (induction xs) (simp_all add: length_image)

lemma table_entry:
  assumes "\<forall>x\<in>set xs. wf x" "i < length xs"
  shows "dec (bytes_at (i * sz) sz (concat (map enc xs) @ rest)) = xs ! i"
  using assms
proof (induction xs arbitrary: i)
  case (Cons x xs)
  show ?case
  proof (cases i)
    case 0
    with Cons.prems show ?thesis by (simp add: bytes_at_here length_image dec_image)
  next
    case (Suc j)
    with Cons.IH[of j] Cons.prems show ?thesis by (simp add: length_image)
  qed
qed simp

end

section \<open>The structures\<close>

definition enc_geometry :: "LpMetadataGeometry \<Rightarrow> u8 list" where
  "enc_geometry g = enc32 (g_magic g) @ enc32 (g_struct_size g) @ g_checksum g @
     enc32 (g_metadata_max_size g) @ enc32 (g_metadata_slot_count g) @ enc32 (g_logical_block_size g)"

definition dec_geometry :: "u8 list \<Rightarrow> LpMetadataGeometry" where
  "dec_geometry bs = \<lparr>g_magic = dec32 0 bs, g_struct_size = dec32 4 bs, g_checksum = bytes_at 8 32 bs,
     g_metadata_max_size = dec32 40 bs, g_metadata_slot_count = dec32 44 bs,
     g_logical_block_size = dec32 48 bs\<rparr>"

definition enc_partition :: "LpMetadataPartition \<Rightarrow> u8 list" where
  "enc_partition p = enc_name (p_name p) @ enc32 (p_attributes p) @ enc32 (p_first_extent_index p) @
     enc32 (p_num_extents p) @ enc32 (p_group_index p)"

definition dec_partition :: "u8 list \<Rightarrow> LpMetadataPartition" where
  "dec_partition bs = \<lparr>p_name = dec_name (bytes_at 0 36 bs), p_attributes = dec32 36 bs,
     p_first_extent_index = dec32 40 bs, p_num_extents = dec32 44 bs, p_group_index = dec32 48 bs\<rparr>"

definition enc_extent :: "LpMetadataExtent \<Rightarrow> u8 list" where
  "enc_extent e = enc64 (e_num_sectors e) @ enc32 (e_target_type e) @ enc64 (e_target_data e) @
     enc32 (e_target_source e)"

definition dec_extent :: "u8 list \<Rightarrow> LpMetadataExtent" where
  "dec_extent bs = \<lparr>e_num_sectors = dec64 0 bs, e_target_type = dec32 8 bs,
     e_target_data = dec64 12 bs, e_target_source = dec32 20 bs\<rparr>"

definition enc_group :: "LpMetadataPartitionGroup \<Rightarrow> u8 list" where
  "enc_group g = enc_name (gr_name g) @ enc32 (gr_flags g) @ enc64 (gr_maximum_size g)"

definition dec_group :: "u8 list \<Rightarrow> LpMetadataPartitionGroup" where
  "dec_group bs = \<lparr>gr_name = dec_name (bytes_at 0 36 bs), gr_flags = dec32 36 bs,
     gr_maximum_size = dec64 40 bs\<rparr>"

definition enc_block_device :: "LpMetadataBlockDevice \<Rightarrow> u8 list" where
  "enc_block_device d = enc64 (bd_first_logical_sector d) @ enc32 (bd_alignment d) @
     enc32 (bd_alignment_offset d) @ enc64 (bd_size d) @ enc_name (bd_partition_name d) @
     enc32 (bd_flags d)"

definition dec_block_device :: "u8 list \<Rightarrow> LpMetadataBlockDevice" where
  "dec_block_device bs = \<lparr>bd_first_logical_sector = dec64 0 bs, bd_alignment = dec32 8 bs,
     bd_alignment_offset = dec32 12 bs, bd_size = dec64 16 bs,
     bd_partition_name = dec_name (bytes_at 24 36 bs), bd_flags = dec32 60 bs\<rparr>"

definition enc_td :: "LpMetadataTableDescriptor \<Rightarrow> u8 list" where
  "enc_td t = enc32 (td_offset t) @ enc32 (td_num_entries t) @ enc32 (td_entry_size t)"

definition dec_td :: "nat \<Rightarrow> u8 list \<Rightarrow> LpMetadataTableDescriptor" where
  "dec_td off bs = \<lparr>td_offset = dec32 off bs, td_num_entries = dec32 (off + 4) bs,
     td_entry_size = dec32 (off + 8) bs\<rparr>"

definition enc_header :: "LpMetadataHeader \<Rightarrow> u8 list" where
  "enc_header h = enc32 (h_magic h) @ enc16 (h_major_version h) @ enc16 (h_minor_version h) @
     enc32 (h_header_size h) @ h_header_checksum h @ enc32 (h_tables_size h) @ h_tables_checksum h @
     enc_td (h_partitions h) @ enc_td (h_extents h) @ enc_td (h_groups h) @ enc_td (h_block_devices h) @
     enc32 (h_flags h) @ h_reserved h"

definition dec_header :: "u8 list \<Rightarrow> LpMetadataHeader" where
  "dec_header bs = \<lparr>h_magic = dec32 0 bs, h_major_version = dec16 4 bs, h_minor_version = dec16 6 bs,
     h_header_size = dec32 8 bs, h_header_checksum = bytes_at 12 32 bs, h_tables_size = dec32 44 bs,
     h_tables_checksum = bytes_at 48 32 bs, h_partitions = dec_td 80 bs, h_extents = dec_td 92 bs,
     h_groups = dec_td 104 bs, h_block_devices = dec_td 116 bs, h_flags = dec32 128 bs,
     h_reserved = bytes_at 132 124 bs\<rparr>"

section \<open>Every structure is a fixed codec\<close>

definition wf_geometry :: "LpMetadataGeometry \<Rightarrow> bool" where
  "wf_geometry g \<longleftrightarrow> length (g_checksum g) = 32"

definition wf_header :: "LpMetadataHeader \<Rightarrow> bool" where
  "wf_header h \<longleftrightarrow> length (h_header_checksum h) = 32 \<and> length (h_tables_checksum h) = 32 \<and>
     length (h_reserved h) = 124"

lemmas image_defs = enc_geometry_def dec_geometry_def enc_partition_def dec_partition_def
  enc_extent_def dec_extent_def enc_group_def dec_group_def enc_block_device_def
  dec_block_device_def enc_td_def dec_td_def enc_header_def dec_header_def
  wf_geometry_def wf_header_def fixed_name_def sizeof_defs

interpretation geometry: fixed_codec enc_geometry dec_geometry sizeof_geometry wf_geometry
  by unfold_locales (simp_all add: image_defs codec bytes_at_here enc_dec bytes_at_join bytes_at_whole)

interpretation lp_partition: fixed_codec enc_partition dec_partition sizeof_partition
    "\<lambda>p. fixed_name (p_name p)"
  by unfold_locales (simp_all add: image_defs codec bytes_at_here enc_dec bytes_at_join bytes_at_whole)

interpretation lp_extent: fixed_codec enc_extent dec_extent sizeof_extent "\<lambda>_. True"
  by unfold_locales (simp_all add: image_defs codec bytes_at_here enc_dec bytes_at_join bytes_at_whole)

interpretation lp_group: fixed_codec enc_group dec_group sizeof_group "\<lambda>g. fixed_name (gr_name g)"
  by unfold_locales (simp_all add: image_defs codec bytes_at_here enc_dec bytes_at_join bytes_at_whole)

interpretation lp_device: fixed_codec enc_block_device dec_block_device sizeof_block_device
    "\<lambda>d. fixed_name (bd_partition_name d)"
  by unfold_locales (simp_all add: image_defs codec bytes_at_here enc_dec bytes_at_join bytes_at_whole)

interpretation header: fixed_codec enc_header dec_header sizeof_header wf_header
  by unfold_locales (simp_all add: image_defs codec bytes_at_here enc_dec bytes_at_join bytes_at_whole)

end
