(* ===== verification/LpReader.thy ===== *)
theory LpReader imports LpCodec begin

text \<open>
  \<open>fs_mgr/liblp/reader.cpp\<close>: reading and validating the geometry and the metadata. A source of
  bytes (\<open>FileReader\<close> at its position, \<open>MemoryReader\<close>) is the list of the bytes that are left;
  a device is the list of its bytes. SHA-256 is the argument \<open>sha\<close>.
\<close>

section \<open>Sources of bytes\<close>

text \<open>\<open>ReadFully\<close>: all the bytes asked for, or failure; with them, what is left.\<close>

definition ReadFully :: "nat \<Rightarrow> u8 list \<Rightarrow> (u8 list \<times> u8 list) option" where
  "ReadFully n bytes = (if length bytes < n then None else Some (take n bytes, drop n bytes))"

text \<open>\<open>SeekFile64\<close> to an absolute offset of a block device: past its end the call fails.\<close>

definition SeekFile64 :: "u8 list \<Rightarrow> nat \<Rightarrow> u8 list option" where
  "SeekFile64 dev offset = (if offset \<le> length dev then Some (drop offset dev) else None)"

text \<open>\<open>memcpy\<close> of a structure of \<open>n\<close> bytes out of a buffer.\<close>

definition memcpy_from :: "u8 list \<Rightarrow> nat \<Rightarrow> nat \<Rightarrow> u8 list run" where
  "memcpy_from buffer cursor n =
     (if cursor + n \<le> length buffer then Inr (bytes_at cursor n buffer) else Inl OutOfRange)"

section \<open>Geometry\<close>

abbreviation zero_checksum :: "u8 list" where "zero_checksum \<equiv> replicate 32 0"

definition ParseGeometry :: "(u8 list \<Rightarrow> u8 list) \<Rightarrow> u8 list \<Rightarrow> LpMetadataGeometry option run" where
  "ParseGeometry sha buffer =
     bind_run (memcpy_from buffer 0 sizeof_geometry) (\<lambda>bytes.
       let geometry = dec_geometry bytes;
           temp = geometry\<lparr>g_checksum := zero_checksum\<rparr>
       in Inr (
         if g_magic geometry \<noteq> LP_METADATA_GEOMETRY_MAGIC then None
         else if g_struct_size geometry > of_nat sizeof_geometry then None
         else if sha (take (unat (g_struct_size temp)) (enc_geometry temp)) \<noteq> g_checksum geometry then None
         else if g_struct_size geometry \<noteq> of_nat sizeof_geometry then None
         else if g_metadata_slot_count geometry = 0 then None
         else if g_metadata_max_size geometry mod 512 \<noteq> 0 then None
         else Some geometry))"

definition ReadGeometryAt :: "(u8 list \<Rightarrow> u8 list) \<Rightarrow> u8 list \<Rightarrow> nat \<Rightarrow> LpMetadataGeometry option run" where
  "ReadGeometryAt sha dev offset =
     (case SeekFile64 dev offset of
        None \<Rightarrow> Inr None
      | Some rest \<Rightarrow>
          case ReadFully LP_METADATA_GEOMETRY_SIZE rest of
            None \<Rightarrow> Inr None
          | Some (buffer, _) \<Rightarrow> ParseGeometry sha buffer)"

definition ReadPrimaryGeometry :: "(u8 list \<Rightarrow> u8 list) \<Rightarrow> u8 list \<Rightarrow> LpMetadataGeometry option run" where
  "ReadPrimaryGeometry sha dev = ReadGeometryAt sha dev GetPrimaryGeometryOffset"

definition ReadBackupGeometry :: "(u8 list \<Rightarrow> u8 list) \<Rightarrow> u8 list \<Rightarrow> LpMetadataGeometry option run" where
  "ReadBackupGeometry sha dev = ReadGeometryAt sha dev GetBackupGeometryOffset"

definition ReadLogicalPartitionGeometry ::
  "(u8 list \<Rightarrow> u8 list) \<Rightarrow> u8 list \<Rightarrow> LpMetadataGeometry option run" where
  "ReadLogicalPartitionGeometry sha dev =
     bind_run (ReadPrimaryGeometry sha dev) (\<lambda>g.
       case g of Some geometry \<Rightarrow> Inr (Some geometry) | None \<Rightarrow> ReadBackupGeometry sha dev)"

section \<open>The header\<close>

definition ValidateTableBounds :: "LpMetadataHeader \<Rightarrow> LpMetadataTableDescriptor \<Rightarrow> bool" where
  "ValidateTableBounds header table \<longleftrightarrow>
     \<not> td_offset table > h_tables_size header \<and>
     (let table_size = (ucast (td_num_entries table) * ucast (td_entry_size table) :: u64)
      in \<not> ucast (h_tables_size header - td_offset table) < table_size)"

definition ReadMetadataHeader ::
  "(u8 list \<Rightarrow> u8 list) \<Rightarrow> u8 list \<Rightarrow> (LpMetadataHeader \<times> u8 list) option" where
  "ReadMetadataHeader sha reader =
     (case ReadFully sizeof_header_v1_0 reader of None \<Rightarrow> None | Some (v1_0, reader1) \<Rightarrow>
      let h0 = dec_header (v1_0 @ replicate (sizeof_header - sizeof_header_v1_0) 0) in
      if h_magic h0 \<noteq> LP_METADATA_HEADER_MAGIC then None
      else if h_major_version h0 \<noteq> LP_METADATA_MAJOR_VERSION \<or>
              h_minor_version h0 > LP_METADATA_MINOR_VERSION_MAX then None
      else if h_header_size h0 \<noteq> of_nat
                (if h_minor_version h0 < LP_METADATA_VERSION_FOR_EXPANDED_HEADER
                 then sizeof_header_v1_0 else sizeof_header) then None
      else
        let remaining_bytes = unat (h_header_size h0) - sizeof_header_v1_0 in
        case (if remaining_bytes \<noteq> 0 then ReadFully remaining_bytes reader1 else Some ([], reader1)) of
          None \<Rightarrow> None
        | Some (rest_bytes, reader2) \<Rightarrow>
            let header = dec_header (v1_0 @ rest_bytes @
                  replicate (sizeof_header - sizeof_header_v1_0 - length rest_bytes) 0);
                temp = header\<lparr>h_header_checksum := zero_checksum\<rparr>
            in if sha (take (unat (h_header_size temp)) (enc_header temp)) \<noteq> h_header_checksum header
               then None
               else if \<not> ValidateTableBounds header (h_partitions header) \<or>
                       \<not> ValidateTableBounds header (h_extents header) \<or>
                       \<not> ValidateTableBounds header (h_groups header) \<or>
                       \<not> ValidateTableBounds header (h_block_devices header) then None
               else if td_entry_size (h_partitions header) \<noteq> of_nat sizeof_partition then None
               else if td_entry_size (h_extents header) \<noteq> of_nat sizeof_extent then None
               else if td_entry_size (h_groups header) \<noteq> of_nat sizeof_group then None
               else Some (header, reader2))"

section \<open>The tables\<close>

text \<open>
  The loop that reads a table: \<open>n\<close> entries from a cursor that advances by the table's entry
  size, each copied with \<open>memcpy\<close> and validated.
\<close>

fun read_entries :: "(u8 list \<Rightarrow> 'a) \<Rightarrow> nat \<Rightarrow> ('a \<Rightarrow> bool) \<Rightarrow> u8 list \<Rightarrow> nat \<Rightarrow> nat \<Rightarrow> nat
    \<Rightarrow> 'a list option run" where
  "read_entries dec sz valid buffer entry_size cursor 0 = Inr (Some [])"
| "read_entries dec sz valid buffer entry_size cursor (Suc n) =
     bind_run (memcpy_from buffer cursor sz) (\<lambda>bytes.
       if \<not> valid (dec bytes) then Inr None
       else bind_run (read_entries dec sz valid buffer entry_size (cursor + entry_size) n)
              (\<lambda>r. Inr (map_option ((#) (dec bytes)) r)))"

definition read_table :: "(u8 list \<Rightarrow> 'a) \<Rightarrow> nat \<Rightarrow> ('a \<Rightarrow> bool) \<Rightarrow> u8 list \<Rightarrow> LpMetadataTableDescriptor
    \<Rightarrow> 'a list option run" where
  "read_table dec sz valid buffer t =
     read_entries dec sz valid buffer (unat (td_entry_size t)) (unat (td_offset t)) (unat (td_num_entries t))"

definition valid_partition :: "LpMetadataHeader \<Rightarrow> LpMetadataPartition \<Rightarrow> bool" where
  "valid_partition header p \<longleftrightarrow>
     (let valid_attributes =
        (if h_minor_version header \<ge> LP_METADATA_VERSION_FOR_UPDATED_ATTR
         then or LP_PARTITION_ATTRIBUTE_MASK_V0 LP_PARTITION_ATTRIBUTE_MASK_V1
         else LP_PARTITION_ATTRIBUTE_MASK_V0)
      in \<not> and (p_attributes p) (not valid_attributes) \<noteq> 0 \<and>
         \<not> p_first_extent_index p + p_num_extents p < p_first_extent_index p \<and>
         \<not> p_first_extent_index p + p_num_extents p > td_num_entries (h_extents header) \<and>
         \<not> p_group_index p \<ge> td_num_entries (h_groups header))"

definition valid_extent :: "LpMetadataHeader \<Rightarrow> LpMetadataExtent \<Rightarrow> bool" where
  "valid_extent header e \<longleftrightarrow>
     \<not> (e_target_type e = LP_TARGET_TYPE_LINEAR \<and>
        e_target_source e \<ge> td_num_entries (h_block_devices header))"

text \<open>\<open>bind\<close> for a function that may return null.\<close>

definition bind_null :: "'a option run \<Rightarrow> ('a \<Rightarrow> 'b option run) \<Rightarrow> 'b option run" where
  "bind_null m f = bind_run m (\<lambda>x. case x of None \<Rightarrow> Inr None | Some y \<Rightarrow> f y)"

lemma bind_null_simps [simp]:
  "bind_null (Inr None) f = Inr None" "bind_null (Inr (Some x)) f = f x" "bind_null (Inl e) f = Inl e"
  by (simp_all add: bind_null_def)

lemma bind_null_eq_Some_iff:
  "bind_null m f = Inr (Some y) \<longleftrightarrow> (\<exists>x. m = Inr (Some x) \<and> f x = Inr (Some y))"
  by (auto simp: bind_null_def bind_run_eq_Inr_iff split: option.splits)

definition ParseMetadata ::
  "(u8 list \<Rightarrow> u8 list) \<Rightarrow> LpMetadataGeometry \<Rightarrow> u8 list \<Rightarrow> LpMetadata option run" where
  "ParseMetadata sha geometry reader =
     (case ReadMetadataHeader sha reader of None \<Rightarrow> Inr None | Some (header, reader1) \<Rightarrow>
      if h_tables_size header > g_metadata_max_size geometry then Inr None
      else case ReadFully (unat (h_tables_size header)) reader1 of None \<Rightarrow> Inr None | Some (buffer, _) \<Rightarrow>
      if sha buffer \<noteq> h_tables_checksum header then Inr None
      else
        bind_null (read_table dec_partition sizeof_partition (valid_partition header) buffer
                     (h_partitions header)) (\<lambda>partitions.
        bind_null (read_table dec_extent sizeof_extent (valid_extent header) buffer
                     (h_extents header)) (\<lambda>extents.
        bind_null (read_table dec_group sizeof_group (\<lambda>_. True) buffer (h_groups header)) (\<lambda>groups.
        bind_null (read_table dec_block_device sizeof_block_device (\<lambda>_. True) buffer
                     (h_block_devices header)) (\<lambda>block_devices.
          let metadata = \<lparr>m_geometry = geometry, m_header = header, m_partitions = partitions,
                m_extents = extents, m_groups = groups, m_block_devices = block_devices\<rparr>
          in case GetMetadataSuperBlockDevice metadata of
               None \<Rightarrow> Inr None
             | Some super_device \<Rightarrow>
                 let metadata_region =
                   GetTotalMetadataSize (g_metadata_max_size geometry) (g_metadata_slot_count geometry)
                 in if metadata_region > bd_first_logical_sector super_device * LP_SECTOR_SIZE
                    then Inr None
                    else Inr (Some metadata))))))"

section \<open>Reading a device\<close>

definition ParseMetadataAt ::
  "(u8 list \<Rightarrow> u8 list) \<Rightarrow> LpMetadataGeometry \<Rightarrow> u8 list \<Rightarrow> nat \<Rightarrow> LpMetadata option run" where
  "ParseMetadataAt sha geometry dev offset =
     (case SeekFile64 dev offset of None \<Rightarrow> Inr None | Some reader \<Rightarrow> ParseMetadata sha geometry reader)"

definition ReadPrimaryMetadata ::
  "(u8 list \<Rightarrow> u8 list) \<Rightarrow> u8 list \<Rightarrow> LpMetadataGeometry \<Rightarrow> u32 \<Rightarrow> LpMetadata option run" where
  "ReadPrimaryMetadata sha dev geometry slot_number =
     bind_run (GetPrimaryMetadataOffset geometry slot_number) (ParseMetadataAt sha geometry dev)"

definition ReadBackupMetadata ::
  "(u8 list \<Rightarrow> u8 list) \<Rightarrow> u8 list \<Rightarrow> LpMetadataGeometry \<Rightarrow> u32 \<Rightarrow> LpMetadata option run" where
  "ReadBackupMetadata sha dev geometry slot_number =
     bind_run (GetBackupMetadataOffset geometry slot_number) (ParseMetadataAt sha geometry dev)"

text \<open>
  \<open>AdjustMetadataForSlot\<close>: the three loops that append the slot suffix. \<open>None\<close> is the return value
  \<open>false\<close>, after which the caller drops the metadata.
\<close>

fun map_or_fail :: "('a \<Rightarrow> 'a option) \<Rightarrow> 'a list \<Rightarrow> 'a list option" where
  "map_or_fail f [] = Some []"
| "map_or_fail f (x # xs) =
     (case f x of None \<Rightarrow> None | Some y \<Rightarrow> map_option ((#) y) (map_or_fail f xs))"

definition adjust_partition :: "string \<Rightarrow> LpMetadataPartition \<Rightarrow> LpMetadataPartition option" where
  "adjust_partition slot_suffix p =
     (if and (p_attributes p) LP_PARTITION_ATTR_SLOT_SUFFIXED = 0 then Some p
      else let partition_name = GetPartitionName p @ slot_suffix in
        if length partition_name > sizeof_name then None
        else Some (p\<lparr>p_name := strncpy sizeof_name partition_name,
                     p_attributes := and (p_attributes p) (not LP_PARTITION_ATTR_SLOT_SUFFIXED)\<rparr>))"

definition adjust_block_device :: "string \<Rightarrow> LpMetadataBlockDevice \<Rightarrow> LpMetadataBlockDevice option" where
  "adjust_block_device slot_suffix d =
     (if and (bd_flags d) LP_BLOCK_DEVICE_SLOT_SUFFIXED = 0 then Some d
      else map_option (\<lambda>d'. d'\<lparr>bd_flags := and (bd_flags d') (not LP_BLOCK_DEVICE_SLOT_SUFFIXED)\<rparr>)
             (UpdateBlockDevicePartitionName d (GetBlockDevicePartitionName d @ slot_suffix)))"

definition adjust_group :: "string \<Rightarrow> LpMetadataPartitionGroup \<Rightarrow> LpMetadataPartitionGroup option" where
  "adjust_group slot_suffix g =
     (if and (gr_flags g) LP_GROUP_SLOT_SUFFIXED = 0 then Some g
      else map_option (\<lambda>g'. g'\<lparr>gr_flags := and (gr_flags g') (not LP_GROUP_SLOT_SUFFIXED)\<rparr>)
             (UpdatePartitionGroupName g (GetPartitionGroupName g @ slot_suffix)))"

definition AdjustMetadataForSlot :: "LpMetadata \<Rightarrow> u32 \<Rightarrow> LpMetadata option run" where
  "AdjustMetadataForSlot metadata slot_number =
     bind_run (SlotSuffixForSlotNumber slot_number) (\<lambda>slot_suffix.
       Inr (case map_or_fail (adjust_partition slot_suffix) (m_partitions metadata) of
              None \<Rightarrow> None
            | Some partitions \<Rightarrow>
                case map_or_fail (adjust_block_device slot_suffix) (m_block_devices metadata) of
                  None \<Rightarrow> None
                | Some block_devices \<Rightarrow>
                    case map_or_fail (adjust_group slot_suffix) (m_groups metadata) of
                      None \<Rightarrow> None
                    | Some groups \<Rightarrow>
                        Some (metadata\<lparr>m_partitions := partitions, m_block_devices := block_devices,
                                       m_groups := groups\<rparr>)))"

text \<open>
  \<open>ReadMetadata\<close> on the device that \<open>opener.Open\<close> gave (\<open>None\<close> when it failed). The loop tries the
  primary and then the backup offset.
\<close>

definition ReadMetadata ::
  "(u8 list \<Rightarrow> u8 list) \<Rightarrow> u8 list option \<Rightarrow> u32 \<Rightarrow> LpMetadata option run" where
  "ReadMetadata sha opened slot_number =
     (case opened of None \<Rightarrow> Inr None | Some dev \<Rightarrow>
      bind_null (ReadLogicalPartitionGeometry sha dev) (\<lambda>geometry.
        if slot_number \<ge> g_metadata_slot_count geometry then Inr None
        else
          bind_run (GetPrimaryMetadataOffset geometry slot_number) (\<lambda>primary.
          bind_run (GetBackupMetadataOffset geometry slot_number) (\<lambda>backup.
          bind_run (ParseMetadataAt sha geometry dev primary) (\<lambda>first.
          bind_run (case first of Some m \<Rightarrow> Inr (Some m)
                    | None \<Rightarrow> ParseMetadataAt sha geometry dev backup) (\<lambda>metadata.
            case metadata of
              None \<Rightarrow> Inr None
            | Some m \<Rightarrow> AdjustMetadataForSlot m slot_number))))))"

end
