(* ===== verification/LpWriter.thy ===== *)
theory LpWriter imports LpReader begin

text \<open>
  \<open>fs_mgr/liblp/writer.cpp\<close>, as it is built for the host tools (the size checks under
  \<open>__ANDROID__\<close> are not compiled): serializing geometry and metadata, validating them, and the two
  operations that change a device, \<open>FlashPartitionTable\<close> and \<open>UpdatePartitionTable\<close>.
\<close>

section \<open>Serializing\<close>

definition sealed_geometry :: "(u8 list \<Rightarrow> u8 list) \<Rightarrow> LpMetadataGeometry \<Rightarrow> LpMetadataGeometry" where
  "sealed_geometry sha input =
     input\<lparr>g_checksum := sha (enc_geometry (input\<lparr>g_checksum := zero_checksum\<rparr>))\<rparr>"

definition SerializeGeometry :: "(u8 list \<Rightarrow> u8 list) \<Rightarrow> LpMetadataGeometry \<Rightarrow> u8 list" where
  "SerializeGeometry sha input =
     (let blob = enc_geometry (sealed_geometry sha input)
      in blob @ replicate (LP_METADATA_GEOMETRY_SIZE - length blob) 0)"

definition CompareGeometry :: "LpMetadataGeometry \<Rightarrow> LpMetadataGeometry \<Rightarrow> bool" where
  "CompareGeometry g1 g2 \<longleftrightarrow> g_metadata_max_size g1 = g_metadata_max_size g2 \<and>
     g_metadata_slot_count g1 = g_metadata_slot_count g2 \<and>
     g_logical_block_size g1 = g_logical_block_size g2"

definition partition_bytes :: "LpMetadata \<Rightarrow> u8 list" where
  "partition_bytes m = concat (map enc_partition (m_partitions m))"
definition extent_bytes :: "LpMetadata \<Rightarrow> u8 list" where
  "extent_bytes m = concat (map enc_extent (m_extents m))"
definition group_bytes :: "LpMetadata \<Rightarrow> u8 list" where
  "group_bytes m = concat (map enc_group (m_groups m))"
definition block_device_bytes :: "LpMetadata \<Rightarrow> u8 list" where
  "block_device_bytes m = concat (map enc_block_device (m_block_devices m))"

definition table_bytes :: "LpMetadata \<Rightarrow> u8 list" where
  "table_bytes m = partition_bytes m @ extent_bytes m @ group_bytes m @ block_device_bytes m"

text \<open>The header with the positions of the tables, then with the checksums.\<close>

definition placed_header :: "LpMetadata \<Rightarrow> LpMetadataHeader" where
  "placed_header m =
     (let h = m_header m;
          extents_offset = of_nat (length (partition_bytes m));
          groups_offset = extents_offset + of_nat (length (extent_bytes m));
          block_devices_offset = groups_offset + of_nat (length (group_bytes m))
      in h\<lparr>h_partitions := (h_partitions h)\<lparr>td_offset := 0\<rparr>,
           h_extents := (h_extents h)\<lparr>td_offset := extents_offset\<rparr>,
           h_groups := (h_groups h)\<lparr>td_offset := groups_offset\<rparr>,
           h_block_devices := (h_block_devices h)\<lparr>td_offset := block_devices_offset\<rparr>,
           h_tables_size := block_devices_offset + of_nat (length (block_device_bytes m))\<rparr>)"

definition sealed_header :: "(u8 list \<Rightarrow> u8 list) \<Rightarrow> LpMetadata \<Rightarrow> LpMetadataHeader" where
  "sealed_header sha m =
     (let h = (placed_header m)\<lparr>h_tables_checksum := sha (table_bytes m),
                                h_header_checksum := zero_checksum\<rparr>
      in h\<lparr>h_header_checksum := sha (take (unat (h_header_size h)) (enc_header h))\<rparr>)"

text \<open>
  \<open>header_size\<close> bytes are hashed and copied out of a structure of 256 bytes.
\<close>

definition SerializeMetadata :: "(u8 list \<Rightarrow> u8 list) \<Rightarrow> LpMetadata \<Rightarrow> u8 list run" where
  "SerializeMetadata sha input =
     (if unat (h_header_size (m_header input)) > sizeof_header then Inl OutOfRange
      else Inr (take (unat (h_header_size (m_header input))) (enc_header (sealed_header sha input))
                @ table_bytes input))"

section \<open>Validating\<close>

definition valid_first_sector :: "LpMetadataBlockDevice \<Rightarrow> bool" where
  "valid_first_sector d \<longleftrightarrow> \<not> (bd_first_logical_sector d + 1) * LP_SECTOR_SIZE > bd_size d"

definition ValidateAndSerializeMetadata ::
  "(u8 list \<Rightarrow> u8 list) \<Rightarrow> LpMetadata \<Rightarrow> string \<Rightarrow> u8 list option run" where
  "ValidateAndSerializeMetadata sha metadata slot_suffix =
     bind_run (SerializeMetadata sha metadata) (\<lambda>blob.
       let geometry = m_geometry metadata;
           reserved_size = of_nat LP_METADATA_GEOMETRY_SIZE +
             ucast (g_metadata_max_size geometry) * ucast (g_metadata_slot_count geometry) :: u64;
           total_reserved = of_nat LP_PARTITION_RESERVED_BYTES + reserved_size * 2
       in Inr (
         if length blob > unat (g_metadata_max_size geometry) then None
         else case GetMetadataSuperBlockDevice metadata of None \<Rightarrow> None | Some super_device \<Rightarrow>
         if total_reserved > bd_first_logical_sector super_device * LP_SECTOR_SIZE then None
         else if \<not> list_all (\<lambda>d. (and (bd_flags d) LP_BLOCK_DEVICE_SLOT_SUFFIXED \<noteq> 0 \<longrightarrow> slot_suffix \<noteq> [])
                   \<and> valid_first_sector d) (m_block_devices metadata) then None
         else if \<not> list_all (\<lambda>p. \<not> unat (p_first_extent_index p + p_num_extents p) > length (m_extents metadata))
                   (m_partitions metadata) then None
         else
           let last_sector = bd_size super_device div LP_SECTOR_SIZE in
           if \<not> list_all (\<lambda>e. e_target_type e = LP_TARGET_TYPE_LINEAR \<longrightarrow>
                 \<not> (e_target_data e < bd_first_logical_sector super_device \<or>
                    e_target_data e + e_num_sectors e > last_sector)) (m_extents metadata) then None
           else Some blob))"

definition ValidateMetadataRegion :: "LpMetadata \<Rightarrow> nat \<Rightarrow> nat \<Rightarrow> bool" where
  "ValidateMetadataRegion metadata start sz =
     (case GetMetadataSuperBlockDevice metadata of
        None \<Rightarrow> False
      | Some super_device \<Rightarrow>
          \<not> of_nat start + of_nat sz \<ge> bd_first_logical_sector super_device * LP_SECTOR_SIZE)"

section \<open>Writing\<close>

text \<open>
  A writer gets the position of the descriptor, the blob and the device and yields its verdict
  and the new device. \<open>DefaultWriter\<close> writes as many bytes as the device has room for.
\<close>

type_synonym writer = "nat \<Rightarrow> u8 list \<Rightarrow> u8 list \<Rightarrow> bool \<times> u8 list"

definition DefaultWriter :: writer where
  "DefaultWriter offset blob dev =
     (let n = min (length blob) (length dev - offset)
      in (n = length blob, take offset dev @ take n blob @ drop (offset + n) dev))"

definition seek_and_write :: "writer \<Rightarrow> nat \<Rightarrow> u8 list \<Rightarrow> u8 list \<Rightarrow> bool \<times> u8 list" where
  "seek_and_write writer offset blob dev =
     (case SeekFile64 dev offset of None \<Rightarrow> (False, dev) | Some _ \<Rightarrow> writer offset blob dev)"

definition WriteMetadataAt :: "writer \<Rightarrow> LpMetadata \<Rightarrow> nat \<Rightarrow> u8 list \<Rightarrow> u8 list \<Rightarrow> bool \<times> u8 list" where
  "WriteMetadataAt writer metadata offset blob dev =
     (if \<not> ValidateMetadataRegion metadata offset (length blob) then (False, dev)
      else seek_and_write writer offset blob dev)"

definition WritePrimaryMetadata ::
  "writer \<Rightarrow> u8 list \<Rightarrow> LpMetadata \<Rightarrow> u32 \<Rightarrow> u8 list \<Rightarrow> (bool \<times> u8 list) run" where
  "WritePrimaryMetadata writer dev metadata slot_number blob =
     bind_run (GetPrimaryMetadataOffset (m_geometry metadata) slot_number) (\<lambda>primary_offset.
       Inr (WriteMetadataAt writer metadata primary_offset blob dev))"

definition WriteBackupMetadata ::
  "writer \<Rightarrow> u8 list \<Rightarrow> LpMetadata \<Rightarrow> u32 \<Rightarrow> u8 list \<Rightarrow> (bool \<times> u8 list) run" where
  "WriteBackupMetadata writer dev metadata slot_number blob =
     bind_run (GetBackupMetadataOffset (m_geometry metadata) slot_number) (\<lambda>backup_offset.
       Inr (WriteMetadataAt writer metadata backup_offset blob dev))"

text \<open>Sequencing of steps that may fail and leave the device as it is then.\<close>

definition and_then :: "(bool \<times> 'd) run \<Rightarrow> ('d \<Rightarrow> (bool \<times> 'd) run) \<Rightarrow> (bool \<times> 'd) run" where
  "and_then m f = bind_run m (\<lambda>(ok, d). if ok then f d else Inr (False, d))"

definition WriteMetadata ::
  "writer \<Rightarrow> u8 list \<Rightarrow> LpMetadata \<Rightarrow> u32 \<Rightarrow> u8 list \<Rightarrow> (bool \<times> u8 list) run" where
  "WriteMetadata writer dev metadata slot_number blob =
     (if slot_number \<ge> g_metadata_slot_count (m_geometry metadata) then Inr (False, dev)
      else and_then (WritePrimaryMetadata writer dev metadata slot_number blob) (\<lambda>dev1.
             WriteBackupMetadata writer dev1 metadata slot_number blob))"

text \<open>The loop over the slots of \<open>FlashPartitionTable\<close>, which goes on after a failure.\<close>

fun flash_slots :: "LpMetadata \<Rightarrow> u8 list \<Rightarrow> nat list \<Rightarrow> bool \<Rightarrow> u8 list \<Rightarrow> (bool \<times> u8 list) run" where
  "flash_slots metadata blob [] ok dev = Inr (ok, dev)"
| "flash_slots metadata blob (i # is) ok dev =
     bind_run (WriteMetadata DefaultWriter dev metadata (of_nat i) blob) (\<lambda>(ok', dev').
       flash_slots metadata blob is (ok \<and> ok') dev')"

definition FlashPartitionTable ::
  "(u8 list \<Rightarrow> u8 list) \<Rightarrow> u8 list option \<Rightarrow> string \<Rightarrow> LpMetadata \<Rightarrow> (bool \<times> u8 list option) run" where
  "FlashPartitionTable sha opened super_partition metadata =
     (case opened of None \<Rightarrow> Inr (False, None) | Some dev \<Rightarrow>
      bind_run (ValidateAndSerializeMetadata sha metadata (GetPartitionSlotSuffix super_partition)) (\<lambda>valid.
      case valid of None \<Rightarrow> Inr (False, Some dev) | Some metadata_blob \<Rightarrow>
        let zeroes = replicate LP_PARTITION_RESERVED_BYTES 0;
            blob = SerializeGeometry sha (m_geometry metadata)
        in bind_run
             (and_then (Inr (seek_and_write DefaultWriter 0 zeroes dev)) (\<lambda>dev1.
              and_then (Inr (seek_and_write DefaultWriter GetPrimaryGeometryOffset blob dev1)) (\<lambda>dev2.
              and_then (Inr (seek_and_write DefaultWriter GetBackupGeometryOffset blob dev2)) (\<lambda>dev3.
                flash_slots metadata metadata_blob
                  [0..<unat (g_metadata_slot_count (m_geometry metadata))] True dev3))))
             (\<lambda>(ok, dev'). Inr (ok, Some dev'))))"

definition CompareMetadata :: "LpMetadata \<Rightarrow> LpMetadata \<Rightarrow> bool" where
  "CompareMetadata a b \<longleftrightarrow> h_header_checksum (m_header a) = h_header_checksum (m_header b)"

text \<open>The step that brings the two copies on the device in sync before they are replaced.\<close>

definition sync_copies :: "(u8 list \<Rightarrow> u8 list) \<Rightarrow> writer \<Rightarrow> u8 list \<Rightarrow> LpMetadata \<Rightarrow> u32 \<Rightarrow> string
    \<Rightarrow> LpMetadata option \<Rightarrow> LpMetadata option \<Rightarrow> (bool \<times> u8 list) run" where
  "sync_copies sha writer dev metadata slot_number slot_suffix primary backup =
     (case (primary, backup) of
        (Some p, None) \<Rightarrow>
          bind_run (ValidateAndSerializeMetadata sha p slot_suffix) (\<lambda>old.
            case old of None \<Rightarrow> Inr (False, dev)
            | Some old_blob \<Rightarrow> WriteBackupMetadata writer dev metadata slot_number old_blob)
      | (Some p, Some b) \<Rightarrow>
          if CompareMetadata p b then Inr (True, dev)
          else bind_run (ValidateAndSerializeMetadata sha p slot_suffix) (\<lambda>old.
            case old of None \<Rightarrow> Inr (False, dev)
            | Some old_blob \<Rightarrow> WriteBackupMetadata writer dev metadata slot_number old_blob)
      | (None, Some b) \<Rightarrow>
          bind_run (ValidateAndSerializeMetadata sha b slot_suffix) (\<lambda>old.
            case old of None \<Rightarrow> Inr (False, dev)
            | Some old_blob \<Rightarrow> WritePrimaryMetadata writer dev metadata slot_number old_blob)
      | (None, None) \<Rightarrow> Inr (True, dev))"

definition UpdatePartitionTable ::
  "(u8 list \<Rightarrow> u8 list) \<Rightarrow> writer \<Rightarrow> u8 list option \<Rightarrow> LpMetadata \<Rightarrow> u32 \<Rightarrow> (bool \<times> u8 list option) run" where
  "UpdatePartitionTable sha writer opened metadata slot_number =
     (case opened of None \<Rightarrow> Inr (False, None) | Some dev \<Rightarrow>
      bind_run (SlotSuffixForSlotNumber slot_number) (\<lambda>slot_suffix.
      bind_run (ValidateAndSerializeMetadata sha metadata slot_suffix) (\<lambda>valid.
      case valid of None \<Rightarrow> Inr (False, Some dev) | Some blob \<Rightarrow>
      bind_run (ReadLogicalPartitionGeometry sha dev) (\<lambda>old.
      case old of None \<Rightarrow> Inr (False, Some dev) | Some old_geometry \<Rightarrow>
        let geometry = m_geometry metadata in
        if \<not> CompareGeometry geometry old_geometry then Inr (False, Some dev)
        else if slot_number \<ge> g_metadata_slot_count geometry then Inr (False, Some dev)
        else
          bind_run (ReadPrimaryMetadata sha dev geometry slot_number) (\<lambda>primary.
          bind_run (ReadBackupMetadata sha dev geometry slot_number) (\<lambda>backup.
          bind_run
            (and_then (sync_copies sha writer dev metadata slot_number slot_suffix primary backup)
               (\<lambda>dev'. WriteMetadata writer dev' metadata slot_number blob))
            (\<lambda>(ok, dev'). Inr (ok, Some dev'))))))))"

end
