(* ===== verification/LpReaderSafe.thy ===== *)
theory LpReaderSafe imports LpReader begin

text \<open>
  What the reader guarantees about arbitrary bytes: it stays inside the buffer it has read, and a
  metadata it accepts is internally consistent.
\<close>

section \<open>Table bounds\<close>

lemma unat_mult_u32_u64: "unat (ucast (a :: u32) * ucast (b :: u32) :: u64) = unat a * unat b"
proof -
  have "unat a * unat b \<le> 4294967295 * 4294967295"
    using unat_u32_lt[of a] unat_u32_lt[of b] by (intro mult_le_mono) (simp_all del: unat_u32_lt)
  then show ?thesis by (subst unat_mult_small) simp_all
qed

lemma ValidateTableBounds_iff:
  "ValidateTableBounds header t \<longleftrightarrow>
     unat (td_offset t) + unat (td_num_entries t) * unat (td_entry_size t) \<le> unat (h_tables_size header)"
proof (cases "td_offset t \<le> h_tables_size header")
  case True
  have s: "a + x \<le> b \<longleftrightarrow> \<not> b - a < x" if "a \<le> b" for a b x :: nat
    using that by arith
  have le: "unat (td_offset t) \<le> unat (h_tables_size header)" using True by (simp add: word_le_nat_alt)
  have "unat (h_tables_size header - td_offset t) = unat (h_tables_size header) - unat (td_offset t)"
    by (rule unat_sub_small[OF le])
  then show ?thesis
    using True s[OF le]
    by (simp add: ValidateTableBounds_def Let_def word_less_nat_alt[where 'a = 64] unat_mult_u32_u64 not_less)
next
  case False
  then show ?thesis by (simp add: ValidateTableBounds_def word_le_nat_alt word_less_nat_alt[where 'a = 32])
qed

lemma read_entries_in_bounds:
  assumes "sz \<le> es" "cursor + n * es \<le> length buffer"
  shows "\<exists>r. read_entries dec sz valid buffer es cursor n = Inr r"
  using assms
proof (induction n arbitrary: cursor)
  case (Suc n)
  then have "\<exists>r. read_entries dec sz valid buffer es (cursor + es) n = Inr r"
    by (intro Suc.IH) simp_all
  with Suc.prems show ?case by (auto simp: memcpy_from_def)
qed simp

lemma read_entries_Some:
  assumes "read_entries dec sz valid buffer es cursor n = Inr (Some xs)"
  shows "length xs = n \<and> list_all valid xs \<and>
    (\<forall>i<n. cursor + i * es + sz \<le> length buffer \<and> xs ! i = dec (bytes_at (cursor + i * es) sz buffer))"
  using assms
proof (induction n arbitrary: cursor xs)
  case (Suc n)
  from Suc.prems obtain ys where ys: "read_entries dec sz valid buffer es (cursor + es) n = Inr (Some ys)"
    and m: "cursor + sz \<le> length buffer" "valid (dec (bytes_at cursor sz buffer))"
    and xs: "xs = dec (bytes_at cursor sz buffer) # ys"
    by (auto simp: run_simps memcpy_from_def split: if_splits)
  note IH = Suc.IH[OF ys]
  have "cursor + i * es + sz \<le> length buffer \<and> xs ! i = dec (bytes_at (cursor + i * es) sz buffer)"
    if "i < Suc n" for i
    using that m IH by (cases i) (auto simp: xs add.assoc)
  with IH m show ?case by (simp add: xs)
qed simp

lemma read_table_in_bounds:
  assumes "ValidateTableBounds header t" "length buffer = unat (h_tables_size header)"
    and "sz \<le> unat (td_entry_size t)"
  shows "\<exists>r. read_table dec sz valid buffer t = Inr r"
  using assms unfolding read_table_def ValidateTableBounds_iff
  by (intro read_entries_in_bounds) simp_all

section \<open>The header\<close>

text \<open>The stages of \<open>ReadMetadataHeader\<close> that a caller can rely on.\<close>

lemma ReadMetadataHeader_Some:
  assumes "ReadMetadataHeader sha reader = Some (header, reader1)"
  shows "ValidateTableBounds header (h_partitions header)"
    "ValidateTableBounds header (h_extents header)" "ValidateTableBounds header (h_groups header)"
    "ValidateTableBounds header (h_block_devices header)"
    "td_entry_size (h_partitions header) = of_nat sizeof_partition"
    "td_entry_size (h_extents header) = of_nat sizeof_extent"
    "td_entry_size (h_groups header) = of_nat sizeof_group"
    "sha (take (unat (h_header_size header))
       (enc_header (header\<lparr>h_header_checksum := zero_checksum\<rparr>))) = h_header_checksum header"
  using assms
  by (auto simp: ReadMetadataHeader_def Let_def split: option.splits prod.splits if_splits)

lemma ParseMetadata_stages:
  assumes "ReadMetadataHeader sha reader = Some (header, reader1)"
    and "ReadFully (unat (h_tables_size header)) reader1 = Some (buffer, reader2)"
  shows "\<exists>ps es gs. read_table dec_partition sizeof_partition (valid_partition header) buffer
        (h_partitions header) = Inr ps \<and>
      read_table dec_extent sizeof_extent (valid_extent header) buffer (h_extents header) = Inr es \<and>
      read_table dec_group sizeof_group (\<lambda>_. True) buffer (h_groups header) = Inr gs"
proof -
  note h = ReadMetadataHeader_Some[OF assms(1)]
  have len: "length buffer = unat (h_tables_size header)"
    using assms(2) by (auto simp: ReadFully_def split: if_splits)
  have es: "sizeof_partition \<le> unat (td_entry_size (h_partitions header))"
    "sizeof_extent \<le> unat (td_entry_size (h_extents header))"
    "sizeof_group \<le> unat (td_entry_size (h_groups header))"
    by (simp_all add: h(5-7) sizeof_defs)
  show ?thesis
    using read_table_in_bounds[OF h(1) len es(1)] read_table_in_bounds[OF h(2) len es(2)]
      read_table_in_bounds[OF h(3) len es(3)] by blast
qed

section \<open>Memory safety\<close>

text \<open>The only fault of the parser, and the only header that can cause it.\<close>

lemma ParseMetadata_fault:
  assumes "ParseMetadata sha geometry reader = Inl f"
  shows "f = OutOfRange \<and> (\<exists>header reader1. ReadMetadataHeader sha reader = Some (header, reader1) \<and>
    td_entry_size (h_block_devices header) < of_nat sizeof_block_device)"
proof -
  have entries: "read_entries dec sz valid buffer es c n = Inl f \<Longrightarrow> f = OutOfRange"
    for dec :: "u8 list \<Rightarrow> LpMetadataBlockDevice" and sz valid buffer es c n
    by (induction n arbitrary: c) (auto simp: bind_run_def memcpy_from_def split: if_splits sum.splits)
  from assms obtain header reader1 where h: "ReadMetadataHeader sha reader = Some (header, reader1)"
    by (auto simp: ParseMetadata_def split: option.splits)
  from assms h obtain buffer reader2 where b:
    "ReadFully (unat (h_tables_size header)) reader1 = Some (buffer, reader2)"
    "sha buffer = h_tables_checksum header" "\<not> h_tables_size header > g_metadata_max_size geometry"
    by (auto simp: ParseMetadata_def split: option.splits if_splits)
  from ParseMetadata_stages[OF h b(1)] obtain ps es gs where t:
    "read_table dec_partition sizeof_partition (valid_partition header) buffer (h_partitions header) = Inr ps"
    "read_table dec_extent sizeof_extent (valid_extent header) buffer (h_extents header) = Inr es"
    "read_table dec_group sizeof_group (\<lambda>_. True) buffer (h_groups header) = Inr gs" by blast
  let ?dev = "read_table dec_block_device sizeof_block_device (\<lambda>_. True) buffer (h_block_devices header)"
  have dev: "?dev = Inl f"
  proof (cases ?dev)
    case (Inl e)
    with assms h b t show ?thesis
      by (cases ps; cases es; cases gs) (auto simp: ParseMetadata_def)
  next
    case (Inr r)
    with assms h b t show ?thesis
      by (cases ps; cases es; cases gs; cases r)
        (auto simp: ParseMetadata_def Let_def split: option.splits if_splits)
  qed
  have len: "length buffer = unat (h_tables_size header)"
    using b(1) by (auto simp: ReadFully_def split: if_splits)
  have "\<not> sizeof_block_device \<le> unat (td_entry_size (h_block_devices header))"
    using read_table_in_bounds[OF ReadMetadataHeader_Some(4)[OF h] len,
        where sz = sizeof_block_device and dec = dec_block_device and valid = "\<lambda>_. True"] dev by auto
  then have "td_entry_size (h_block_devices header) < of_nat sizeof_block_device"
    by (simp add: word_less_nat_alt sizeof_defs)
  with h dev entries show ?thesis unfolding read_table_def by blast
qed

section \<open>Accepted metadata are consistent\<close>

definition metadata_consistent :: "LpMetadata \<Rightarrow> bool" where
  "metadata_consistent m \<longleftrightarrow>
     m_block_devices m \<noteq> [] \<and>
     list_all (\<lambda>p. fixed_name (p_name p) \<and>
        unat (p_first_extent_index p) + unat (p_num_extents p) \<le> length (m_extents m) \<and>
        unat (p_group_index p) < length (m_groups m) \<and>
        and (p_attributes p) (not LP_PARTITION_ATTRIBUTE_MASK) = 0) (m_partitions m) \<and>
     list_all (\<lambda>e. e_target_type e = LP_TARGET_TYPE_LINEAR \<longrightarrow>
        unat (e_target_source e) < length (m_block_devices m)) (m_extents m) \<and>
     unat (h_tables_size (m_header m)) \<le> unat (g_metadata_max_size (m_geometry m))"

lemma ParseMetadata_Some:
  assumes "ParseMetadata sha geometry reader = Inr (Some m)"
  shows "\<exists>reader1 buffer reader2. ReadMetadataHeader sha reader = Some (m_header m, reader1) \<and>
    ReadFully (unat (h_tables_size (m_header m))) reader1 = Some (buffer, reader2) \<and>
    sha buffer = h_tables_checksum (m_header m) \<and>
    \<not> h_tables_size (m_header m) > g_metadata_max_size geometry \<and> m_geometry m = geometry \<and>
    read_table dec_partition sizeof_partition (valid_partition (m_header m)) buffer
      (h_partitions (m_header m)) = Inr (Some (m_partitions m)) \<and>
    read_table dec_extent sizeof_extent (valid_extent (m_header m)) buffer
      (h_extents (m_header m)) = Inr (Some (m_extents m)) \<and>
    read_table dec_group sizeof_group (\<lambda>_. True) buffer (h_groups (m_header m)) = Inr (Some (m_groups m)) \<and>
    read_table dec_block_device sizeof_block_device (\<lambda>_. True) buffer (h_block_devices (m_header m))
      = Inr (Some (m_block_devices m)) \<and> m_block_devices m \<noteq> [] \<and>
    \<not> GetTotalMetadataSize (g_metadata_max_size geometry) (g_metadata_slot_count geometry)
        > bd_first_logical_sector (hd (m_block_devices m)) * LP_SECTOR_SIZE"
  using assms
  by (auto simp: ParseMetadata_def Let_def bind_null_eq_Some_iff GetMetadataSuperBlockDevice_def
      split: option.splits prod.splits if_splits list.splits)

lemma add_no_wrap_u32:
  assumes "\<not> (a :: u32) + b < a"
  shows "unat (a + b) = unat a + unat b"
  using assms no_olen_add_nat[of a b] by (simp add: unat_plus_simple not_less)

lemma ParseMetadata_accepts:
  assumes "ParseMetadata sha geometry reader = Inr (Some m)"
  shows "metadata_consistent m \<and> m_geometry m = geometry \<and>
    unat (GetTotalMetadataSize (g_metadata_max_size geometry) (g_metadata_slot_count geometry))
      \<le> unat (bd_first_logical_sector (hd (m_block_devices m)) * LP_SECTOR_SIZE)"
proof -
  let ?h = "m_header m"
  from ParseMetadata_Some[OF assms] obtain buffer where
    sz: "\<not> h_tables_size ?h > g_metadata_max_size geometry" and geo: "m_geometry m = geometry"
    and ps: "read_table dec_partition sizeof_partition (valid_partition ?h) buffer (h_partitions ?h)
      = Inr (Some (m_partitions m))"
    and es: "read_table dec_extent sizeof_extent (valid_extent ?h) buffer (h_extents ?h) = Inr (Some (m_extents m))"
    and gs: "read_table dec_group sizeof_group (\<lambda>_. True) buffer (h_groups ?h) = Inr (Some (m_groups m))"
    and ds: "read_table dec_block_device sizeof_block_device (\<lambda>_. True) buffer (h_block_devices ?h)
      = Inr (Some (m_block_devices m))"
    and ne: "m_block_devices m \<noteq> []"
    and region: "\<not> GetTotalMetadataSize (g_metadata_max_size geometry) (g_metadata_slot_count geometry)
        > bd_first_logical_sector (hd (m_block_devices m)) * LP_SECTOR_SIZE" by blast
  have num: "length (m_extents m) = unat (td_num_entries (h_extents ?h))"
    "length (m_groups m) = unat (td_num_entries (h_groups ?h))"
    "length (m_block_devices m) = unat (td_num_entries (h_block_devices ?h))"
    using read_entries_Some[OF es[unfolded read_table_def]] read_entries_Some[OF gs[unfolded read_table_def]]
      read_entries_Some[OF ds[unfolded read_table_def]] by simp_all
  have mask: "and (p_attributes p) (not LP_PARTITION_ATTRIBUTE_MASK) = 0" if "valid_partition ?h p" for p
  proof -
    have sub: "and a (not 15) = 0" if "and a (not 3) = 0" for a :: u32
    proof -
      have "and (not 3) (not 15) = (not 15 :: u32)" by simp
      then have "and a (not 15) = and (and a (not 3)) (not 15)" by (simp only: and.assoc)
      with that show ?thesis by simp
    qed
    show ?thesis using that sub[of "p_attributes p"]
      by (auto simp: valid_partition_def lp_attr_defs Let_def split: if_splits)
  qed
  have "\<forall>p\<in>set (m_partitions m). fixed_name (p_name p) \<and> valid_partition ?h p"
  proof
    fix p assume p: "p \<in> set (m_partitions m)"
    then obtain i where i: "i < length (m_partitions m)" "p = m_partitions m ! i" by (auto simp: in_set_conv_nth)
    note r = read_entries_Some[OF ps[unfolded read_table_def]]
    have n: "i < unat (td_num_entries (h_partitions ?h))" using r i(1) by simp
    from r n i(2) obtain c where "c + sizeof_partition \<le> length buffer"
      "p = dec_partition (bytes_at c sizeof_partition buffer)" by blast
    then have "fixed_name (p_name p)" using lp_partition.wf_dec by simp
    moreover have "valid_partition ?h p"
      using r p by (simp only: list_all_iff)
    ultimately show "fixed_name (p_name p) \<and> valid_partition ?h p" ..
  qed
  moreover have "\<forall>e\<in>set (m_extents m). valid_extent ?h e"
    using read_entries_Some[OF es[unfolded read_table_def]] by (simp add: list_all_iff)
  moreover have "unat (h_tables_size ?h) \<le> unat (g_metadata_max_size (m_geometry m))"
    using sz geo by (simp add: word_less_nat_alt not_less)
  moreover have "unat (p_first_extent_index p) + unat (p_num_extents p) \<le> length (m_extents m) \<and>
      unat (p_group_index p) < length (m_groups m)" if v: "valid_partition ?h p" for p
    using v add_no_wrap_u32[of "p_first_extent_index p" "p_num_extents p"]
    by (auto simp: valid_partition_def Let_def num word_less_nat_alt[where 'a = 32]
        word_le_nat_alt[where 'a = 32] not_less not_le)
  moreover have "unat (e_target_source e) < length (m_block_devices m)"
    if "valid_extent ?h e" "e_target_type e = LP_TARGET_TYPE_LINEAR" for e
    using that by (simp add: valid_extent_def num word_le_nat_alt not_le)
  ultimately have "metadata_consistent m"
    using ne mask by (auto simp: metadata_consistent_def list_all_iff)
  then show ?thesis using geo region by (simp add: word_le_nat_alt not_less)
qed

end
