(* ===== verification/LpTables.thy ===== *)
theory LpTables imports LpWriter LpReaderSafe begin

text \<open>
  Round trips between the writer and the reader: what \<open>SerializeGeometry\<close> and \<open>SerializeMetadata\<close>
  write, \<open>ParseGeometry\<close> and \<open>ParseMetadata\<close> read back.
\<close>

section \<open>Geometry\<close>

definition geometry_fields_ok :: "LpMetadataGeometry \<Rightarrow> bool" where
  "geometry_fields_ok g \<longleftrightarrow> g_magic g = LP_METADATA_GEOMETRY_MAGIC \<and>
     g_struct_size g = of_nat sizeof_geometry \<and> g_metadata_slot_count g \<noteq> 0 \<and>
     g_metadata_max_size g mod 512 = 0"

lemma sealed_geometry_fields [simp]:
  "g_magic (sealed_geometry sha g) = g_magic g"
  "g_struct_size (sealed_geometry sha g) = g_struct_size g"
  "g_metadata_max_size (sealed_geometry sha g) = g_metadata_max_size g"
  "g_metadata_slot_count (sealed_geometry sha g) = g_metadata_slot_count g"
  "g_logical_block_size (sealed_geometry sha g) = g_logical_block_size g"
  by (simp_all add: sealed_geometry_def)

lemma unat_sizeof_geometry: "unat (of_nat sizeof_geometry :: u32) = sizeof_geometry"
  by (simp add: sizeof_geometry_def)

lemma geometry_roundtrip_lemma:
  assumes sha: "\<And>x. length (sha x) = 32" and g: "geometry_fields_ok g"
  shows "ParseGeometry sha (SerializeGeometry sha g) = Inr (Some (sealed_geometry sha g))"
proof -
  let ?s = "sealed_geometry sha g"
  have wf: "wf_geometry ?s" "wf_geometry (g\<lparr>g_checksum := zero_checksum\<rparr>)"
    by (simp_all add: wf_geometry_def sealed_geometry_def sha)
  note len = geometry.length_image[OF wf(1)] geometry.length_image[OF wf(2)]
  have zero: "?s\<lparr>g_checksum := zero_checksum\<rparr> = g\<lparr>g_checksum := zero_checksum\<rparr>"
    by (simp add: sealed_geometry_def)
  have "memcpy_from (SerializeGeometry sha g) 0 sizeof_geometry = Inr (enc_geometry ?s)"
    by (simp add: memcpy_from_def SerializeGeometry_def Let_def len bytes_at_def)
  moreover have "sha (take (unat (g_struct_size g)) (enc_geometry (g\<lparr>g_checksum := zero_checksum\<rparr>)))
      = g_checksum ?s"
    using g by (simp add: geometry_fields_ok_def unat_sizeof_geometry len sealed_geometry_def)
  ultimately show ?thesis
    using g geometry.dec_image[OF wf(1)]
    by (simp add: ParseGeometry_def Let_def zero geometry_fields_ok_def)
qed

section \<open>Tables\<close>

context fixed_codec begin

lemma read_entries_table:
  assumes "\<forall>x\<in>set xs. wf x \<and> valid x"
  shows "read_entries dec sz valid (pre @ concat (map enc xs) @ post) sz (length pre) (length xs)
    = Inr (Some xs)"
  using assms
proof (induction xs arbitrary: pre)
  case (Cons x xs)
  let ?buf = "pre @ concat (map enc (x # xs)) @ post"
  have l: "length (enc x) = sz" using Cons.prems by (simp add: length_image)
  have b: "memcpy_from ?buf (length pre) sz = Inr (enc x)"
    by (simp add: memcpy_from_def bytes_at_def l)
  have "read_entries dec sz valid ((pre @ enc x) @ concat (map enc xs) @ post) sz (length (pre @ enc x)) (length xs)
      = Inr (Some xs)"
    using Cons.prems by (intro Cons.IH) simp
  then have "read_entries dec sz valid ?buf sz (length pre + sz) (length xs) = Inr (Some xs)"
    by (simp add: l)
  with b Cons.prems show ?case by (simp add: dec_image)
qed simp

lemma read_table_image:
  assumes "\<forall>x\<in>set xs. wf x \<and> valid x" "unat (td_offset t) = length pre"
    and "unat (td_entry_size t) = sz" "unat (td_num_entries t) = length xs"
  shows "read_table dec sz valid (pre @ concat (map enc xs) @ post) t = Inr (Some xs)"
  using read_entries_table[OF assms(1), of pre post] assms(2-4) by (simp add: read_table_def)

end

section \<open>The header image\<close>

lemma enc32_zero: "enc32 0 = replicate 4 0"
  by code_simp

lemma header_prefix:
  assumes "wf_header h"
  shows "take 128 (enc_header h) @ replicate 128 0 =
    enc_header (h\<lparr>h_flags := 0, h_reserved := replicate 124 0\<rparr>)"
proof -
  let ?pre = "enc32 (h_magic h) @ enc16 (h_major_version h) @ enc16 (h_minor_version h) @
     enc32 (h_header_size h) @ h_header_checksum h @ enc32 (h_tables_size h) @ h_tables_checksum h @
     enc_td (h_partitions h) @ enc_td (h_extents h) @ enc_td (h_groups h) @ enc_td (h_block_devices h)"
  have l: "length ?pre = 128" using assms by (simp add: wf_header_def enc_td_def)
  have e: "enc_header h = ?pre @ enc32 (h_flags h) @ h_reserved h" by (simp add: enc_header_def)
  have "take 128 (enc_header h) = ?pre" unfolding e using l by (metis append_eq_conv_conj)
  moreover have "enc_header (h\<lparr>h_flags := 0, h_reserved := replicate 124 0\<rparr>) =
      ?pre @ enc32 0 @ replicate 124 0" by (simp add: enc_header_def)
  moreover have "enc32 0 @ replicate 124 0 = replicate 128 0"
    unfolding enc32_zero by (simp only: replicate_add[symmetric]) simp
  ultimately show ?thesis by simp
qed

text \<open>
  The conditions under which the reader accepts what the writer writes. \<open>Export\<close> produces such
  headers and tables.
\<close>

definition header_fields_ok :: "LpMetadataHeader \<Rightarrow> bool" where
  "header_fields_ok h \<longleftrightarrow> h_magic h = LP_METADATA_HEADER_MAGIC \<and>
     h_major_version h = LP_METADATA_MAJOR_VERSION \<and>
     h_minor_version h \<le> LP_METADATA_MINOR_VERSION_MAX \<and>
     h_header_size h = of_nat (if h_minor_version h < LP_METADATA_VERSION_FOR_EXPANDED_HEADER
        then sizeof_header_v1_0 else sizeof_header) \<and>
     length (h_reserved h) = 124 \<and>
     (h_minor_version h < LP_METADATA_VERSION_FOR_EXPANDED_HEADER \<longrightarrow>
        h_flags h = 0 \<and> h_reserved h = replicate 124 0) \<and>
     td_entry_size (h_partitions h) = of_nat sizeof_partition \<and>
     td_entry_size (h_extents h) = of_nat sizeof_extent \<and>
     td_entry_size (h_groups h) = of_nat sizeof_group \<and>
     td_entry_size (h_block_devices h) = of_nat sizeof_block_device"

definition metadata_ok :: "LpMetadata \<Rightarrow> bool" where
  "metadata_ok m \<longleftrightarrow> header_fields_ok (m_header m) \<and>
     unat (td_num_entries (h_partitions (m_header m))) = length (m_partitions m) \<and>
     unat (td_num_entries (h_extents (m_header m))) = length (m_extents m) \<and>
     unat (td_num_entries (h_groups (m_header m))) = length (m_groups m) \<and>
     unat (td_num_entries (h_block_devices (m_header m))) = length (m_block_devices m) \<and>
     list_all (\<lambda>p. fixed_name (p_name p) \<and> valid_partition (m_header m) p) (m_partitions m) \<and>
     list_all (valid_extent (m_header m)) (m_extents m) \<and>
     list_all (\<lambda>g. fixed_name (gr_name g)) (m_groups m) \<and>
     list_all (\<lambda>d. fixed_name (bd_partition_name d)) (m_block_devices m) \<and>
     length (table_bytes m) \<le> unat (g_metadata_max_size (m_geometry m)) \<and>
     (case m_block_devices m of [] \<Rightarrow> False
      | d # _ \<Rightarrow> \<not> GetTotalMetadataSize (g_metadata_max_size (m_geometry m))
            (g_metadata_slot_count (m_geometry m)) > bd_first_logical_sector d * LP_SECTOR_SIZE)"

lemma placed_header_fields [simp]:
  "h_magic (placed_header m) = h_magic (m_header m)"
  "h_major_version (placed_header m) = h_major_version (m_header m)"
  "h_minor_version (placed_header m) = h_minor_version (m_header m)"
  "h_header_size (placed_header m) = h_header_size (m_header m)"
  "h_flags (placed_header m) = h_flags (m_header m)"
  "h_reserved (placed_header m) = h_reserved (m_header m)"
  "td_num_entries (h_partitions (placed_header m)) = td_num_entries (h_partitions (m_header m))"
  "td_num_entries (h_extents (placed_header m)) = td_num_entries (h_extents (m_header m))"
  "td_num_entries (h_groups (placed_header m)) = td_num_entries (h_groups (m_header m))"
  "td_num_entries (h_block_devices (placed_header m)) = td_num_entries (h_block_devices (m_header m))"
  "td_entry_size (h_partitions (placed_header m)) = td_entry_size (h_partitions (m_header m))"
  "td_entry_size (h_extents (placed_header m)) = td_entry_size (h_extents (m_header m))"
  "td_entry_size (h_groups (placed_header m)) = td_entry_size (h_groups (m_header m))"
  "td_entry_size (h_block_devices (placed_header m)) = td_entry_size (h_block_devices (m_header m))"
  by (simp_all add: placed_header_def Let_def)

lemma sealed_header_fields [simp]:
  "h_magic (sealed_header sha m) = h_magic (m_header m)"
  "h_major_version (sealed_header sha m) = h_major_version (m_header m)"
  "h_minor_version (sealed_header sha m) = h_minor_version (m_header m)"
  "h_header_size (sealed_header sha m) = h_header_size (m_header m)"
  "h_flags (sealed_header sha m) = h_flags (m_header m)"
  "h_reserved (sealed_header sha m) = h_reserved (m_header m)"
  "h_partitions (sealed_header sha m) = h_partitions (placed_header m)"
  "h_extents (sealed_header sha m) = h_extents (placed_header m)"
  "h_groups (sealed_header sha m) = h_groups (placed_header m)"
  "h_block_devices (sealed_header sha m) = h_block_devices (placed_header m)"
  "h_tables_size (sealed_header sha m) = h_tables_size (placed_header m)"
  "h_tables_checksum (sealed_header sha m) = sha (table_bytes m)"
  by (simp_all add: sealed_header_def Let_def)

lemma placed_header_offsets:
  assumes "length (table_bytes m) < 4294967296"
  shows "unat (td_offset (h_partitions (placed_header m))) = 0"
    "unat (td_offset (h_extents (placed_header m))) = length (partition_bytes m)"
    "unat (td_offset (h_groups (placed_header m))) = length (partition_bytes m) + length (extent_bytes m)"
    "unat (td_offset (h_block_devices (placed_header m))) =
       length (partition_bytes m) + length (extent_bytes m) + length (group_bytes m)"
    "unat (h_tables_size (placed_header m)) = length (table_bytes m)"
  using assms
  by (simp_all add: placed_header_def Let_def table_bytes_def unat_of_nat_small
      flip: of_nat_add add.assoc)

lemma ReadMetadataHeader_image:
  assumes wf: "wf_header h" and ok: "header_fields_ok h"
    and seal: "sha (take (unat (h_header_size h)) (enc_header (h\<lparr>h_header_checksum := zero_checksum\<rparr>)))
      = h_header_checksum h"
    and bounds: "ValidateTableBounds h (h_partitions h)" "ValidateTableBounds h (h_extents h)"
      "ValidateTableBounds h (h_groups h)" "ValidateTableBounds h (h_block_devices h)"
  shows "ReadMetadataHeader sha (take (unat (h_header_size h)) (enc_header h) @ rest) = Some (h, rest)"
proof -
  let ?h0 = "h\<lparr>h_flags := 0, h_reserved := replicate 124 0\<rparr>"
  have len: "length (enc_header h) = 256"
    using header.length_image[OF wf] by (simp add: sizeof_header_def)
  have wf0: "wf_header ?h0" using wf by (simp add: wf_header_def)
  have h0: "dec_header (take 128 (enc_header h) @ replicate 128 0) = ?h0"
    unfolding header_prefix[OF wf] by (rule header.dec_image[OF wf0])
  have dec: "dec_header (enc_header h) = h" by (rule header.dec_image[OF wf])
  have size: "h_header_size h = 128 \<and> h_minor_version h < LP_METADATA_VERSION_FOR_EXPANDED_HEADER \<and> ?h0 = h \<or>
      h_header_size h = 256 \<and> \<not> h_minor_version h < LP_METADATA_VERSION_FOR_EXPANDED_HEADER"
    using ok by (auto simp: header_fields_ok_def sizeof_defs)
  note entry = ok[unfolded header_fields_ok_def]
  from size show ?thesis
  proof
    assume s: "h_header_size h = 128 \<and> h_minor_version h < LP_METADATA_VERSION_FOR_EXPANDED_HEADER \<and> ?h0 = h"
    then have s': "h_header_size h = 128" "h_minor_version h < LP_METADATA_VERSION_FOR_EXPANDED_HEADER"
      "?h0 = h" by simp_all
    have read: "ReadFully sizeof_header_v1_0 (take (unat (h_header_size h)) (enc_header h) @ rest)
        = Some (take 128 (enc_header h), rest)"
      using len s'(1) by (simp add: ReadFully_def sizeof_defs)
    have h0': "dec_header (take 128 (enc_header h) @ replicate 128 0) = h" using h0 s'(3) by simp
    show ?thesis
      using entry seal bounds s'(1,2) h0' unfolding ReadMetadataHeader_def read
      by (simp add: Let_def sizeof_defs not_less)
  next
    assume s: "h_header_size h = 256 \<and> \<not> h_minor_version h < LP_METADATA_VERSION_FOR_EXPANDED_HEADER"
    then have s': "h_header_size h = 256" "\<not> h_minor_version h < LP_METADATA_VERSION_FOR_EXPANDED_HEADER"
      by simp_all
    have read: "ReadFully sizeof_header_v1_0 (take (unat (h_header_size h)) (enc_header h) @ rest)
        = Some (take 128 (enc_header h), drop 128 (enc_header h) @ rest)"
      using len s'(1) by (simp add: ReadFully_def sizeof_defs)
    have more: "ReadFully 128 (drop 128 (enc_header h) @ rest) = Some (drop 128 (enc_header h), rest)"
      using len by (simp add: ReadFully_def)
    show ?thesis
      using entry seal bounds s' h0 more len dec unfolding ReadMetadataHeader_def read
      by (simp add: Let_def sizeof_defs not_less)
  qed
qed

section \<open>The round trip of a metadata\<close>

lemma table_bytes_length:
  assumes "metadata_ok m"
  shows "length (partition_bytes m) = length (m_partitions m) * sizeof_partition"
    "length (extent_bytes m) = length (m_extents m) * sizeof_extent"
    "length (group_bytes m) = length (m_groups m) * sizeof_group"
    "length (block_device_bytes m) = length (m_block_devices m) * sizeof_block_device"
  using assms
  by (auto simp: metadata_ok_def partition_bytes_def extent_bytes_def group_bytes_def
      block_device_bytes_def list_all_iff intro!: lp_partition.table_length lp_extent.table_length
      lp_group.table_length lp_device.table_length)

lemma sealed_header_checksum:
  "h_header_checksum (sealed_header sha m) =
     sha (take (unat (h_header_size (m_header m)))
       (enc_header ((sealed_header sha m)\<lparr>h_header_checksum := zero_checksum\<rparr>)))"
  by (simp add: sealed_header_def Let_def)

lemma unat_sizeofs:
  "unat (of_nat sizeof_partition :: u32) = sizeof_partition"
  "unat (of_nat sizeof_extent :: u32) = sizeof_extent"
  "unat (of_nat sizeof_group :: u32) = sizeof_group"
  "unat (of_nat sizeof_block_device :: u32) = sizeof_block_device"
  by (simp_all add: sizeof_defs)

lemma metadata_roundtrip_lemma:
  assumes sha: "\<And>x. length (sha x) = 32" and ok: "metadata_ok m"
  shows "\<exists>blob. SerializeMetadata sha m = Inr blob \<and>
    length blob = unat (h_header_size (m_header m)) + length (table_bytes m) \<and>
    (\<forall>rest. ParseMetadata sha (m_geometry m) (blob @ rest) =
       Inr (Some (m\<lparr>m_header := sealed_header sha m\<rparr>)))"
proof -
  let ?h = "sealed_header sha m"
  let ?t = "table_bytes m"
  have hok: "header_fields_ok (m_header m)" using ok by (simp add: metadata_ok_def)
  then have hs: "unat (h_header_size (m_header m)) \<le> 256"
    by (simp add: header_fields_ok_def sizeof_defs)
  have hok': "header_fields_ok ?h" using hok by (simp add: header_fields_ok_def)
  have wf: "wf_header ?h"
    using hok by (simp add: wf_header_def header_fields_ok_def sealed_header_def Let_def sha)
  have tl: "length ?t \<le> unat (g_metadata_max_size (m_geometry m))"
    using ok by (simp add: metadata_ok_def)
  then have lt: "length ?t < 4294967296" by (rule le_less_trans) (rule unat_u32_lt)
  note off = placed_header_offsets[OF lt] and lens = table_bytes_length[OF ok]
  have num: "unat (td_num_entries (h_partitions (m_header m))) = length (m_partitions m)"
    "unat (td_num_entries (h_extents (m_header m))) = length (m_extents m)"
    "unat (td_num_entries (h_groups (m_header m))) = length (m_groups m)"
    "unat (td_num_entries (h_block_devices (m_header m))) = length (m_block_devices m)"
    using ok by (simp_all add: metadata_ok_def)
  have esz: "unat (td_entry_size (h_partitions (m_header m))) = sizeof_partition"
    "unat (td_entry_size (h_extents (m_header m))) = sizeof_extent"
    "unat (td_entry_size (h_groups (m_header m))) = sizeof_group"
    "unat (td_entry_size (h_block_devices (m_header m))) = sizeof_block_device"
    using hok by (simp_all add: header_fields_ok_def unat_sizeofs)
  have tlen: "length ?t = length (partition_bytes m) + length (extent_bytes m) + length (group_bytes m)
      + length (block_device_bytes m)" by (simp add: table_bytes_def)
  have bounds: "ValidateTableBounds ?h (h_partitions ?h)" "ValidateTableBounds ?h (h_extents ?h)"
    "ValidateTableBounds ?h (h_groups ?h)" "ValidateTableBounds ?h (h_block_devices ?h)"
    by (simp_all add: ValidateTableBounds_iff off num esz tlen lens)
  from ok obtain d ds where dev: "m_block_devices m = d # ds" and
    region: "\<not> GetTotalMetadataSize (g_metadata_max_size (m_geometry m))
      (g_metadata_slot_count (m_geometry m)) > bd_first_logical_sector d * LP_SECTOR_SIZE"
    by (auto simp: metadata_ok_def split: list.splits)
  have valid: "\<forall>p\<in>set (m_partitions m). fixed_name (p_name p) \<and> valid_partition ?h p"
    "\<forall>e\<in>set (m_extents m). True \<and> valid_extent ?h e"
    "\<forall>g\<in>set (m_groups m). fixed_name (gr_name g) \<and> True"
    "\<forall>d\<in>set (m_block_devices m). fixed_name (bd_partition_name d) \<and> True"
    using ok by (auto simp: metadata_ok_def list_all_iff valid_partition_def valid_extent_def)
  have "read_table dec_partition sizeof_partition (valid_partition ?h) ?t (h_partitions ?h)
      = Inr (Some (m_partitions m))"
    using lp_partition.read_table_image[OF valid(1), of "h_partitions ?h" "[]"
        "extent_bytes m @ group_bytes m @ block_device_bytes m"] off esz num
    by (simp add: table_bytes_def partition_bytes_def)
  moreover have "read_table dec_extent sizeof_extent (valid_extent ?h) ?t (h_extents ?h)
      = Inr (Some (m_extents m))"
    using lp_extent.read_table_image[OF valid(2), of "h_extents ?h" "partition_bytes m"
        "group_bytes m @ block_device_bytes m"] off esz num
    by (simp add: table_bytes_def extent_bytes_def)
  moreover have "read_table dec_group sizeof_group (\<lambda>_. True) ?t (h_groups ?h) = Inr (Some (m_groups m))"
    using lp_group.read_table_image[OF valid(3), of "h_groups ?h" "partition_bytes m @ extent_bytes m"
        "block_device_bytes m"] off esz num
    by (simp add: table_bytes_def group_bytes_def)
  moreover have "read_table dec_block_device sizeof_block_device (\<lambda>_. True) ?t (h_block_devices ?h)
      = Inr (Some (m_block_devices m))"
    using lp_device.read_table_image[OF valid(4), of "h_block_devices ?h"
        "partition_bytes m @ extent_bytes m @ group_bytes m" "[]"] off esz num
    by (simp add: table_bytes_def block_device_bytes_def)
  moreover have "ReadMetadataHeader sha (take (unat (h_header_size ?h)) (enc_header ?h) @ rest') = Some (?h, rest')"
    for rest'
    by (rule ReadMetadataHeader_image[OF wf hok' _ bounds])
      (simp only: sealed_header_checksum sealed_header_fields)
  moreover have "ReadFully (unat (h_tables_size ?h)) (?t @ rest) = Some (?t, rest)" for rest
    using off(5) by (simp add: ReadFully_def)
  moreover have "\<not> h_tables_size ?h > g_metadata_max_size (m_geometry m)"
    using tl off(5) by (simp add: word_less_nat_alt not_less)
  ultimately have "ParseMetadata sha (m_geometry m)
      ((take (unat (h_header_size ?h)) (enc_header ?h) @ ?t) @ rest)
      = Inr (Some (m\<lparr>m_header := ?h\<rparr>))" for rest
    using dev region by (simp add: ParseMetadata_def Let_def GetMetadataSuperBlockDevice_def)
  moreover have "SerializeMetadata sha m = Inr (take (unat (h_header_size ?h)) (enc_header ?h) @ ?t)"
    using hs by (simp add: SerializeMetadata_def sizeof_header_def)
  moreover have "length (enc_header ?h) = 256"
    using header.length_image[OF wf] by (simp add: sizeof_header_def)
  ultimately show ?thesis using hs by simp
qed

end
