(* ===== verification/LpCrash.thy ===== *)
theory LpCrash imports LpTables begin

text \<open>
  Crash safety of \<open>UpdatePartitionTable\<close>: each slot has two copies, and whatever write fails or
  is cut short, one copy still holds the old or the new metadata. The argument is made once for
  any store with two copies and then applied to the model.
\<close>

section \<open>Stores with two copies\<close>

text \<open>
  A location may hold a value; an attempt to write one may fail and leave anything at that
  location, but nothing else changes.
\<close>

locale two_copy_store =
  fixes holds :: "'d \<Rightarrow> 'l \<Rightarrow> 'v \<Rightarrow> bool"
    and attempt :: "'l \<Rightarrow> 'v \<Rightarrow> 'd \<Rightarrow> bool \<Rightarrow> 'd \<Rightarrow> bool"
  assumes keep: "attempt l w d ok d' \<Longrightarrow> l' \<noteq> l \<Longrightarrow> holds d l' v \<Longrightarrow> holds d' l' v"
    and success: "attempt l w d True d' \<Longrightarrow> holds d' l w"
begin

lemma sync_safe:
  assumes "holds d l old" "l \<noteq> l'" "attempt l' old d ok d'"
  shows "holds d' l old \<and> (ok \<longrightarrow> holds d' l' old)"
  using keep[OF assms(3,2,1)] success assms(3) by auto

lemma replace_safe:
  assumes "l1 \<noteq> l2" "holds d l2 old" "attempt l1 new d ok1 d1"
    and "if ok1 then attempt l2 new d1 ok2 d2 else \<not> ok2 \<and> d2 = d1"
  shows "(holds d2 l1 new \<or> holds d2 l2 old) \<and> (ok2 \<longrightarrow> holds d2 l1 new \<and> holds d2 l2 new)"
proof (cases ok1)
  case True
  then have "holds d1 l1 new" "attempt l2 new d1 ok2 d2" using assms(3,4) success by auto
  then show ?thesis using keep[of l2 new d1 ok2 d2 l1 new] success assms(1) by auto
next
  case False
  then show ?thesis using keep[OF assms(3), of l2 old] assms by auto
qed

end

section \<open>The copies on a device\<close>

datatype copy = Primary | Backup

definition copy_offset :: "LpMetadataGeometry \<Rightarrow> u32 \<Rightarrow> copy \<Rightarrow> nat" where
  "copy_offset g slot c =
     12288 + unat (g_metadata_max_size g) *
       (case c of Primary \<Rightarrow> unat slot | Backup \<Rightarrow> unat (g_metadata_slot_count g) + unat slot)"

text \<open>The part of a metadata that survives serialization: all but offsets and checksums.\<close>

type_synonym content = "LpMetadataPartition list \<times> LpMetadataExtent list \<times>
  LpMetadataPartitionGroup list \<times> LpMetadataBlockDevice list \<times> u16 \<times> u32"

definition content :: "LpMetadata \<Rightarrow> content" where
  "content m = (m_partitions m, m_extents m, m_groups m, m_block_devices m,
     h_minor_version (m_header m), h_flags (m_header m))"

text \<open>
  A copy is intact when some bytes of its area parse to the metadata, whatever follows them.
\<close>

definition intact :: "(u8 list \<Rightarrow> u8 list) \<Rightarrow> LpMetadataGeometry \<Rightarrow> u8 list \<Rightarrow> nat \<Rightarrow> LpMetadata \<Rightarrow> bool" where
  "intact sha g dev off m \<longleftrightarrow>
     (\<exists>n \<le> unat (g_metadata_max_size g). off + n \<le> length dev \<and>
        (\<forall>rest. ParseMetadata sha g (take n (drop off dev) @ rest) = Inr (Some m)))"

lemma intact_parse:
  assumes "intact sha g dev off m"
  shows "ParseMetadataAt sha g dev off = Inr (Some m)"
proof -
  from assms obtain n where n: "off + n \<le> length dev"
    "\<forall>rest. ParseMetadata sha g (take n (drop off dev) @ rest) = Inr (Some m)"
    by (auto simp: intact_def)
  from n(2)[rule_format, of "drop n (drop off dev)"]
  have "ParseMetadata sha g (drop off dev) = Inr (Some m)" by (simp only: append_take_drop_id)
  with n(1) show ?thesis by (simp add: ParseMetadataAt_def SeekFile64_def)
qed

definition store_holds :: "(u8 list \<Rightarrow> u8 list) \<Rightarrow> LpMetadataGeometry \<Rightarrow> u32 \<Rightarrow> u8 list \<Rightarrow> copy \<Rightarrow> content \<Rightarrow> bool" where
  "store_holds sha g slot dev c v \<longleftrightarrow> (\<exists>m. intact sha g dev (copy_offset g slot c) m \<and> content m = v)"

text \<open>
  A writer that may fail, or write garbage in the area of the blob, but touches nothing
  outside it, and that has written the blob when it reports success.
\<close>

definition good_writer :: "writer \<Rightarrow> bool" where
  "good_writer w \<longleftrightarrow> (\<forall>off blob dev. off \<le> length dev \<longrightarrow>
     (let (ok, dev') = w off blob dev in
        length dev' = length dev \<and> take off dev' = take off dev \<and>
        drop (off + length blob) dev' = drop (off + length blob) dev \<and>
        (ok \<longrightarrow> off + length blob \<le> length dev \<and> take (length blob) (drop off dev') = blob)))"

lemma good_DefaultWriter: "good_writer DefaultWriter"
  by (auto simp: good_writer_def DefaultWriter_def Let_def min_def)

definition store_attempt :: "(u8 list \<Rightarrow> u8 list) \<Rightarrow> LpMetadataGeometry \<Rightarrow> u32
    \<Rightarrow> copy \<Rightarrow> content \<Rightarrow> u8 list \<Rightarrow> bool \<Rightarrow> u8 list \<Rightarrow> bool" where
  "store_attempt sha g slot c v dev ok dev' \<longleftrightarrow>
     (\<forall>x. length (sha x) = 32) \<and> unat slot < unat (g_metadata_slot_count g) \<and>
     (\<exists>writer mv x blob. good_writer writer \<and> metadata_ok x \<and> m_geometry x = g \<and> content x = v \<and>
        SerializeMetadata sha x = Inr blob \<and> length blob \<le> unat (g_metadata_max_size g) \<and>
        WriteMetadataAt writer mv (copy_offset g slot c) blob dev = (ok, dev'))"

lemma copies_apart:
  assumes "unat slot < unat (g_metadata_slot_count g)" "c \<noteq> c'"
    and "n \<le> unat (g_metadata_max_size g)" "k \<le> unat (g_metadata_max_size g)"
  shows "copy_offset g slot c + n \<le> copy_offset g slot c' \<or> copy_offset g slot c' + k \<le> copy_offset g slot c"
proof -
  let ?m = "unat (g_metadata_max_size g)" and ?n = "unat (g_metadata_slot_count g)" and ?s = "unat slot"
  have "?m * Suc ?s \<le> ?m * (?n + ?s)" using assms(1) by (intro mult_le_mono2) simp
  then have "?m * ?s + ?m \<le> ?m * (?n + ?s)" by simp
  then show ?thesis using assms(2-4) by (cases c; cases c') (auto simp: copy_offset_def)
qed

text \<open>An area that a write does not overlap keeps its bytes.\<close>

lemma writer_elsewhere:
  assumes "WriteMetadataAt w mv off blob dev = (ok, dev')" "good_writer w"
    and "off + length blob \<le> off' \<or> off' + n \<le> off"
  shows "length dev' = length dev \<and> take n (drop off' dev') = take n (drop off' dev)"
proof (cases "WriteMetadataAt w mv off blob dev = (False, dev)")
  case True
  with assms(1) show ?thesis by simp
next
  case False
  then have "off \<le> length dev" "w off blob dev = (ok, dev')"
    using assms(1) by (auto simp: WriteMetadataAt_def seek_and_write_def SeekFile64_def split: if_splits)
  then have w: "length dev' = length dev" "take off dev' = take off dev"
    "drop (off + length blob) dev' = drop (off + length blob) dev"
    using assms(2)[unfolded good_writer_def, rule_format, of off dev blob] by auto
  from assms(3) show ?thesis
  proof
    assume le: "off + length blob \<le> off'"
    have "drop off' dev' = drop (off' - (off + length blob)) (drop (off + length blob) dev')"
      using le by simp
    also have "\<dots> = drop off' dev" unfolding w(3) using le by simp
    finally show ?thesis using w(1) by simp
  next
    assume le: "off' + n \<le> off"
    have "take n (drop off' dev') = drop off' (take (off' + n) (take off dev'))"
      using le by (simp add: drop_take min_def)
    also have "\<dots> = take n (drop off' dev)" unfolding w(2) using le by (simp add: drop_take min_def)
    finally show ?thesis using w(1) by simp
  qed
qed

lemma store_keep:
  assumes "store_attempt sha g slot l v d ok d'" "l' \<noteq> l" "store_holds sha g slot d l' v'"
  shows "store_holds sha g slot d' l' v'"
proof -
  from assms(1) obtain w mv x blob where a: "good_writer w"
    "WriteMetadataAt w mv (copy_offset g slot l) blob d = (ok, d')"
    "length blob \<le> unat (g_metadata_max_size g)" "unat slot < unat (g_metadata_slot_count g)"
    by (auto simp: store_attempt_def)
  from assms(3) obtain m n where m: "n \<le> unat (g_metadata_max_size g)" "content m = v'"
    "copy_offset g slot l' + n \<le> length d"
    "\<forall>rest. ParseMetadata sha g (take n (drop (copy_offset g slot l') d) @ rest) = Inr (Some m)"
    by (auto simp: store_holds_def intact_def)
  from copies_apart[OF a(4) not_sym[OF assms(2)] a(3) m(1)]
  have "length d' = length d \<and>
      take n (drop (copy_offset g slot l') d') = take n (drop (copy_offset g slot l') d)"
    by (rule writer_elsewhere[OF a(2,1)])
  with m have "intact sha g d' (copy_offset g slot l') m" by (auto simp: intact_def)
  with m(2) show ?thesis unfolding store_holds_def by blast
qed

lemma content_sealed [simp]: "content (x\<lparr>m_header := sealed_header sha x\<rparr>) = content x"
  by (simp add: content_def)

lemma store_success:
  assumes "store_attempt sha g slot l v d True d'"
  shows "store_holds sha g slot d' l v"
proof -
  let ?off = "copy_offset g slot l"
  from assms obtain w mv x blob where a: "\<And>x. length (sha x) = 32" "good_writer w" "metadata_ok x"
    "m_geometry x = g" "content x = v" "SerializeMetadata sha x = Inr blob"
    "length blob \<le> unat (g_metadata_max_size g)" "WriteMetadataAt w mv ?off blob d = (True, d')"
    by (auto simp: store_attempt_def)
  have "?off \<le> length d" "w ?off blob d = (True, d')"
    using a(8) by (auto simp: WriteMetadataAt_def seek_and_write_def SeekFile64_def split: if_splits)
  with a(2)[unfolded good_writer_def, rule_format, of ?off d blob]
  have w: "?off + length blob \<le> length d'" "take (length blob) (drop ?off d') = blob" by auto
  from metadata_roundtrip_lemma[of sha x, OF a(1,3)] a(4,6)
  have "ParseMetadata sha g (blob @ rest) = Inr (Some (x\<lparr>m_header := sealed_header sha x\<rparr>))" for rest
    by auto
  then have "intact sha g d' ?off (x\<lparr>m_header := sealed_header sha x\<rparr>)"
    using a(7) w by (auto simp: intact_def)
  then show ?thesis using a(5) unfolding store_holds_def
    by (intro exI[of _ "x\<lparr>m_header := sealed_header sha x\<rparr>"]) simp
qed

interpretation store: two_copy_store "store_holds sha g slot" "store_attempt sha g slot"
  by unfold_locales (rule store_keep, assumption+, rule store_success)

section \<open>What the reader found is intact\<close>

lemma ReadMetadataHeader_consumes:
  assumes "ReadMetadataHeader sha r = Some (h, r1)"
  shows "unat (h_header_size h) \<le> length r \<and> r1 = drop (unat (h_header_size h)) r \<and>
    ReadMetadataHeader sha (take (unat (h_header_size h)) r @ s) = Some (h, s) \<and>
    wf_header h \<and> (td_entry_size (h_block_devices h) = of_nat sizeof_block_device \<longrightarrow> header_fields_ok h)"
proof -
  let ?v = "take 128 r"
  from assms have l128: "128 \<le> length r"
    by (auto simp: ReadMetadataHeader_def ReadFully_def sizeof_defs split: if_splits)
  then have lv: "length ?v = 128" by (simp add: min_absorb2)
  have f: "h_magic (dec_header (?v @ z)) = h_magic (dec_header (?v @ z'))"
    "h_major_version (dec_header (?v @ z)) = h_major_version (dec_header (?v @ z'))"
    "h_minor_version (dec_header (?v @ z)) = h_minor_version (dec_header (?v @ z'))"
    "h_header_size (dec_header (?v @ z)) = h_header_size (dec_header (?v @ z'))" for z z'
    using lv by (simp_all add: dec_header_def dec32_def dec16_def bytes_at_def)
  from assms l128 have stage: "h_header_size (dec_header (?v @ replicate 128 0)) = of_nat
      (if h_minor_version (dec_header (?v @ replicate 128 0)) < LP_METADATA_VERSION_FOR_EXPANDED_HEADER
       then 128 else 256)"
    by (auto simp: ReadMetadataHeader_def ReadFully_def sizeof_defs Let_def split: if_splits)
  show ?thesis
  proof (cases "h_minor_version (dec_header (?v @ replicate 128 0)) < LP_METADATA_VERSION_FOR_EXPANDED_HEADER")
    case True
    with stage have hs: "h_header_size (dec_header (?v @ replicate 128 0)) = 128" by simp
    from assms l128 hs have h: "h = dec_header (?v @ replicate 128 0)" "r1 = drop 128 r"
      by (auto simp: ReadMetadataHeader_def ReadFully_def sizeof_defs Let_def split: if_splits)
    have "ReadMetadataHeader sha (?v @ s) = Some (h, s)"
      using assms l128 hs True h by (simp add: ReadMetadataHeader_def ReadFully_def sizeof_defs Let_def
          split: if_splits)
    moreover have wf: "wf_header h" unfolding h by (rule header.wf_dec) (simp add: min_absorb2[OF l128] sizeof_defs)
    moreover have "h_flags h = 0 \<and> h_reserved h = replicate 124 0"
    proof -
      have "dec32 0 (replicate 128 0) = 0" by code_simp
      moreover have "min (length r) 128 = 128" using l128 by (rule min_absorb2)
      ultimately show ?thesis by (simp add: h dec_header_def dec32_skip bytes_at_def)
    qed
    moreover note st = assms[unfolded ReadMetadataHeader_def ReadFully_def sizeof_defs Let_def]
    ultimately show ?thesis
      using l128 hs h True assms ReadMetadataHeader_Some(5-7)[OF assms] st
      by (auto simp: header_fields_ok_def wf_header_def sizeof_defs not_less split: if_splits)
  next
    case False
    with stage have hs: "h_header_size (dec_header (?v @ replicate 128 0)) = 256" by simp
    from assms l128 hs have l: "256 \<le> length r"
      and h: "h = dec_header (?v @ take 128 (drop 128 r))" "r1 = drop 256 r"
      by (auto simp: ReadMetadataHeader_def ReadFully_def sizeof_defs Let_def split: if_splits)
    have hm: "h_header_size h = 256" "\<not> h_minor_version h < LP_METADATA_VERSION_FOR_EXPANDED_HEADER"
      using f hs False unfolding h by metis+
    have t: "take 256 r = ?v @ take 128 (drop 128 r)" using take_add[of 128 128 r] by simp
    have "ReadMetadataHeader sha (take 256 r @ s) = Some (h, s)"
      using assms l hs False h unfolding t
      by (simp add: ReadMetadataHeader_def ReadFully_def sizeof_defs Let_def split: if_splits)
    moreover have wf: "wf_header h" unfolding h by (rule header.wf_dec) (use l in \<open>simp add: sizeof_defs\<close>)
    moreover have "h_magic h = LP_METADATA_HEADER_MAGIC \<and> h_major_version h = LP_METADATA_MAJOR_VERSION \<and>
        h_minor_version h \<le> LP_METADATA_MINOR_VERSION_MAX"
    proof -
      have "h_magic (dec_header (?v @ replicate 128 0)) = LP_METADATA_HEADER_MAGIC \<and>
        h_major_version (dec_header (?v @ replicate 128 0)) = LP_METADATA_MAJOR_VERSION \<and>
        h_minor_version (dec_header (?v @ replicate 128 0)) \<le> LP_METADATA_MINOR_VERSION_MAX"
        using assms l128 by (auto simp: ReadMetadataHeader_def ReadFully_def sizeof_defs Let_def not_less
            split: if_splits)
      with f show ?thesis unfolding h by metis
    qed
    ultimately show ?thesis
      using l hm h ReadMetadataHeader_Some(5-7)[OF assms]
      by (auto simp: header_fields_ok_def wf_header_def sizeof_defs)
  qed
qed

text \<open>Header and tables stay inside the area of one copy.\<close>

definition fits :: "LpMetadata \<Rightarrow> bool" where
  "fits m \<longleftrightarrow> unat (h_header_size (m_header m)) + unat (h_tables_size (m_header m))
     \<le> unat (g_metadata_max_size (m_geometry m))"

lemma parsed_geometry: "ParseMetadata sha g r = Inr (Some m) \<Longrightarrow> m_geometry m = g"
  using ParseMetadata_Some by blast

lemma parsed_prefix:
  assumes p: "ParseMetadata sha g r = Inr (Some m)"
  defines "n \<equiv> unat (h_header_size (m_header m)) + unat (h_tables_size (m_header m))"
  shows "n \<le> length r \<and> ParseMetadata sha g (take n r @ rest) = Inr (Some m)"
proof -
  let ?h = "m_header m"
  let ?hs = "unat (h_header_size ?h)" and ?ts = "unat (h_tables_size ?h)"
  from ParseMetadata_Some[OF p] obtain r1 buffer r2 where
    h: "ReadMetadataHeader sha r = Some (?h, r1)" and b: "ReadFully ?ts r1 = Some (buffer, r2)" by blast
  note c = ReadMetadataHeader_consumes[OF h, of "[]"]
  have b': "?ts \<le> length r1" "buffer = take ?ts r1" using b by (auto simp: ReadFully_def split: if_splits)
  have "?hs \<le> length r" "length r1 = length r - ?hs" using c by auto
  with b'(1) have len: "n \<le> length r" by (simp add: n_def)
  have t: "take n r @ rest = take ?hs r @ buffer @ rest"
    using c b'(2) by (simp add: n_def take_add)
  have h': "ReadMetadataHeader sha (take n r @ rest) = Some (?h, buffer @ rest)"
    unfolding t using ReadMetadataHeader_consumes[OF h] by blast
  have lb: "length buffer = ?ts" using b' by simp
  then have bf: "ReadFully ?ts (buffer @ rest) = Some (buffer, rest)" by (simp add: ReadFully_def)
  have "ParseMetadata sha g (take n r @ rest) = ParseMetadata sha g r"
    by (simp add: ParseMetadata_def h h' b bf)
  with p len show ?thesis by simp
qed

lemma parsed_intact:
  assumes "ParseMetadataAt sha g dev off = Inr (Some m)" "fits m"
  shows "intact sha g dev off m"
proof -
  let ?n = "unat (h_header_size (m_header m)) + unat (h_tables_size (m_header m))"
  from assms(1) have o: "off \<le> length dev" and p: "ParseMetadata sha g (drop off dev) = Inr (Some m)"
    by (auto simp: ParseMetadataAt_def SeekFile64_def split: if_splits)
  have "?n \<le> unat (g_metadata_max_size g)"
    using assms(2) parsed_geometry[OF p] by (simp add: fits_def)
  moreover have "off + ?n \<le> length dev" using parsed_prefix[OF p, of "[]"] o by auto
  ultimately show ?thesis
    using parsed_prefix[OF p] unfolding intact_def by (intro exI[of _ ?n]) blast
qed

lemma parsed_metadata_ok:
  assumes p: "ParseMetadata sha g r = Inr (Some m)"
    and dev: "td_entry_size (h_block_devices (m_header m)) = of_nat sizeof_block_device"
    and len: "length (table_bytes m) \<le> unat (g_metadata_max_size g)"
  shows "metadata_ok m"
proof -
  let ?h = "m_header m"
  from ParseMetadata_Some[OF p] obtain r1 buffer where
    h: "ReadMetadataHeader sha r = Some (?h, r1)" and geo: "m_geometry m = g"
    and ps: "read_table dec_partition sizeof_partition (valid_partition ?h) buffer (h_partitions ?h)
      = Inr (Some (m_partitions m))"
    and es: "read_table dec_extent sizeof_extent (valid_extent ?h) buffer (h_extents ?h) = Inr (Some (m_extents m))"
    and gs: "read_table dec_group sizeof_group (\<lambda>_. True) buffer (h_groups ?h) = Inr (Some (m_groups m))"
    and ds: "read_table dec_block_device sizeof_block_device (\<lambda>_. True) buffer (h_block_devices ?h)
      = Inr (Some (m_block_devices m))"
    and ne: "m_block_devices m \<noteq> []"
    and region: "\<not> GetTotalMetadataSize (g_metadata_max_size g) (g_metadata_slot_count g)
        > bd_first_logical_sector (hd (m_block_devices m)) * LP_SECTOR_SIZE" by blast
  note r = read_entries_Some[OF ps[unfolded read_table_def]] read_entries_Some[OF es[unfolded read_table_def]]
    read_entries_Some[OF gs[unfolded read_table_def]] read_entries_Some[OF ds[unfolded read_table_def]]
  have "header_fields_ok ?h" using ReadMetadataHeader_consumes[OF h] dev by blast
  moreover have "\<forall>p\<in>set (m_partitions m). fixed_name (p_name p)"
    using r(1) lp_partition.wf_dec by (auto simp: in_set_conv_nth)
  moreover have "\<forall>g\<in>set (m_groups m). fixed_name (gr_name g)"
    using r(3) lp_group.wf_dec by (auto simp: in_set_conv_nth)
  moreover have "\<forall>d\<in>set (m_block_devices m). fixed_name (bd_partition_name d)"
    using r(4) lp_device.wf_dec by (auto simp: in_set_conv_nth)
  ultimately show ?thesis
    using r len geo ne region
    by (auto simp: metadata_ok_def list_all_iff split: list.splits)
qed

section \<open>The steps of UpdatePartitionTable are attempts\<close>

lemma ValidateAndSerializeMetadata_Some:
  assumes "ValidateAndSerializeMetadata sha m suffix = Inr (Some blob)"
  shows "SerializeMetadata sha m = Inr blob" "length blob \<le> unat (g_metadata_max_size (m_geometry m))"
proof -
  from assms obtain b where "SerializeMetadata sha m = Inr b"
    by (auto simp: ValidateAndSerializeMetadata_def run_simps)
  with assms show "SerializeMetadata sha m = Inr blob" "length blob \<le> unat (g_metadata_max_size (m_geometry m))"
    by (auto simp: ValidateAndSerializeMetadata_def Let_def split: if_splits option.splits)
qed

lemma serialized_tables:
  "SerializeMetadata sha m = Inr blob \<Longrightarrow> length (table_bytes m) \<le> length blob"
  by (auto simp: SerializeMetadata_def split: if_splits)

definition exact_offsets :: "LpMetadataGeometry \<Rightarrow> u32 \<Rightarrow> bool" where
  "exact_offsets g slot \<longleftrightarrow> unat slot < unat (g_metadata_slot_count g) \<and>
     total_metadata_size (unat (g_metadata_max_size g)) (unat (g_metadata_slot_count g)) < 4294967296"

lemma offsets_eq:
  assumes "exact_offsets g slot"
  shows "GetPrimaryMetadataOffset g slot = Inr (copy_offset g slot Primary)"
    "GetBackupMetadataOffset g slot = Inr (copy_offset g slot Backup)"
  using GetPrimaryMetadataOffset_exact[of slot g] GetBackupMetadataOffset_exact[of slot g] assms
  by (simp_all add: exact_offsets_def copy_offset_def)

lemma read_copies:
  assumes "exact_offsets g slot"
  shows "ReadPrimaryMetadata sha dev g slot = ParseMetadataAt sha g dev (copy_offset g slot Primary)"
    "ReadBackupMetadata sha dev g slot = ParseMetadataAt sha g dev (copy_offset g slot Backup)"
  using offsets_eq[OF assms] by (simp_all add: ReadPrimaryMetadata_def ReadBackupMetadata_def)

lemma attemptI:
  assumes "\<And>x. length (sha x) = 32" "exact_offsets g slot" "good_writer w" "metadata_ok x"
    "m_geometry x = g" "ValidateAndSerializeMetadata sha x suffix = Inr (Some blob)"
    "WriteMetadataAt w mv (copy_offset g slot c) blob dev = (ok, dev')"
  shows "store_attempt sha g slot c (content x) dev ok dev'"
  unfolding store_attempt_def
  using assms ValidateAndSerializeMetadata_Some[OF assms(6)] unfolding exact_offsets_def by blast

lemma WriteMetadata_attempts:
  assumes sha: "\<And>x. length (sha x) = 32" and ex: "exact_offsets g slot" and w: "good_writer w"
    and x: "metadata_ok x" "m_geometry x = g" "ValidateAndSerializeMetadata sha x suffix = Inr (Some blob)"
    and run: "WriteMetadata w dev x slot blob = Inr (ok, dev')"
  shows "\<exists>ok1 dev1. store_attempt sha g slot Primary (content x) dev ok1 dev1 \<and>
    (if ok1 then store_attempt sha g slot Backup (content x) dev1 ok dev' else \<not> ok \<and> dev' = dev1)"
proof -
  have lt: "\<not> slot \<ge> g_metadata_slot_count g"
    using ex by (simp add: exact_offsets_def word_le_nat_alt not_le)
  obtain ok1 dev1 where w1: "WriteMetadataAt w x (copy_offset g slot Primary) blob dev = (ok1, dev1)"
    by force
  obtain ok2 dev2 where w2: "WriteMetadataAt w x (copy_offset g slot Backup) blob dev1 = (ok2, dev2)"
    by force
  have "(ok, dev') = (if ok1 then (ok2, dev2) else (False, dev1))"
    using run lt w1 w2 x(2) offsets_eq[OF ex]
    by (auto simp: WriteMetadata_def and_then_def WritePrimaryMetadata_def WriteBackupMetadata_def split: if_splits)
  moreover have "store_attempt sha g slot Primary (content x) dev ok1 dev1"
    by (rule attemptI[OF sha ex w x w1])
  moreover have "store_attempt sha g slot Backup (content x) dev1 ok2 dev2"
    by (rule attemptI[OF sha ex w x w2])
  ultimately show ?thesis by (auto split: if_splits)
qed

text \<open>A copy found on the device that the update can rely on and rewrite.\<close>

definition usable_copy :: "LpMetadata \<Rightarrow> bool" where
  "usable_copy m \<longleftrightarrow> fits m \<and> td_entry_size (h_block_devices (m_header m)) = of_nat sizeof_block_device"

lemma usable_rewrite:
  assumes "ParseMetadataAt sha g dev off = Inr (Some x)" "usable_copy x"
    and "ValidateAndSerializeMetadata sha x suffix = Inr (Some blob)"
  shows "metadata_ok x \<and> m_geometry x = g"
proof -
  from assms(1) have p: "ParseMetadata sha g (drop off dev) = Inr (Some x)"
    by (auto simp: ParseMetadataAt_def SeekFile64_def split: if_splits)
  note g = parsed_geometry[OF p]
  have "length (table_bytes x) \<le> unat (g_metadata_max_size g)"
    using serialized_tables[OF ValidateAndSerializeMetadata_Some(1)[OF assms(3)]]
      ValidateAndSerializeMetadata_Some(2)[OF assms(3)] g by simp
  with parsed_metadata_ok[OF p] assms(2) g show ?thesis by (simp add: usable_copy_def)
qed

lemma holds_parsed:
  assumes "ParseMetadataAt sha g dev (copy_offset g slot c) = Inr (Some x)" "usable_copy x"
  shows "store_holds sha g slot dev c (content x)"
  using parsed_intact[OF assms(1)] assms(2) by (auto simp: store_holds_def usable_copy_def)

section \<open>Crash safety\<close>

definition last_good :: "LpMetadata option \<Rightarrow> LpMetadata option \<Rightarrow> LpMetadata option" where
  "last_good primary backup = (case primary of Some p \<Rightarrow> Some p | None \<Rightarrow> backup)"

lemma backup_attempt:
  assumes sha: "\<And>x. length (sha x) = 32" and ex: "exact_offsets (m_geometry m) slot" and w: "good_writer w"
    and off: "ParseMetadataAt sha (m_geometry m) dev off = Inr (Some p)" "usable_copy p"
    and blob: "ValidateAndSerializeMetadata sha p suffix = Inr (Some blob)"
  shows "WriteBackupMetadata w dev m slot blob = Inr (ok, dev') \<Longrightarrow>
      store_attempt sha (m_geometry m) slot Backup (content p) dev ok dev'"
    and "WritePrimaryMetadata w dev m slot blob = Inr (ok, dev') \<Longrightarrow>
      store_attempt sha (m_geometry m) slot Primary (content p) dev ok dev'"
  using usable_rewrite[OF off blob] offsets_eq[OF ex] attemptI[OF sha ex w _ _ blob]
  by (auto simp: WriteBackupMetadata_def WritePrimaryMetadata_def)

lemma sync_copies_safe:
  assumes sha: "\<And>x. length (sha x) = 32" and ex: "exact_offsets (m_geometry m) slot" and w: "good_writer w"
    and prim: "ReadPrimaryMetadata sha dev (m_geometry m) slot = Inr primary"
    and bkp: "ReadBackupMetadata sha dev (m_geometry m) slot = Inr backup"
    and usable: "\<And>x. primary = Some x \<or> backup = Some x \<Longrightarrow> usable_copy x"
    and same: "\<And>p b. primary = Some p \<Longrightarrow> backup = Some b \<Longrightarrow> CompareMetadata p b \<Longrightarrow> content p = content b"
    and old: "last_good primary backup = Some old"
    and run: "sync_copies sha w dev m slot suffix primary backup = Inr (ok, dev')"
  shows "(\<exists>c. store_holds sha (m_geometry m) slot dev' c (content old)) \<and>
    (ok \<longrightarrow> store_holds sha (m_geometry m) slot dev' Backup (content old))"
proof -
  let ?g = "m_geometry m"
  note reads = prim[unfolded read_copies[OF ex]] bkp[unfolded read_copies[OF ex]]
  have hp: "store_holds sha ?g slot dev Primary (content p)" if "primary = Some p" for p
    using holds_parsed reads(1) usable that by blast
  have hb: "store_holds sha ?g slot dev Backup (content b)" if "backup = Some b" for b
    using holds_parsed reads(2) usable that by blast
  show ?thesis
  proof (cases primary)
    case (Some p)
    then have o: "old = p" using old by (simp add: last_good_def)
    show ?thesis
    proof (cases "\<exists>b. backup = Some b \<and> CompareMetadata p b")
      case True
      then obtain b where b: "backup = Some b" "CompareMetadata p b" by blast
      with run Some have "ok" "dev' = dev" by (auto simp: sync_copies_def)
      with hb[OF b(1)] same[OF Some b] o show ?thesis by auto
    next
      case False
      with run Some have r: "bind_run (ValidateAndSerializeMetadata sha p suffix) (\<lambda>old.
            case old of None \<Rightarrow> Inr (False, dev)
            | Some old_blob \<Rightarrow> WriteBackupMetadata w dev m slot old_blob) = Inr (ok, dev')"
        by (auto simp: sync_copies_def split: option.splits)
      then obtain v where v: "ValidateAndSerializeMetadata sha p suffix = Inr v" by (auto simp: run_simps)
      show ?thesis
      proof (cases v)
        case None
        with r v hp[OF Some] o show ?thesis by auto
      next
        case (Some blob)
        with r v have "WriteBackupMetadata w dev m slot blob = Inr (ok, dev')" by simp
        with backup_attempt(1)[OF sha ex w _ _ v[unfolded Some]] reads(1) usable \<open>primary = Some p\<close>
        have "store_attempt sha ?g slot Backup (content p) dev ok dev'" by blast
        from store.sync_safe[OF hp[OF \<open>primary = Some p\<close>] _ this] o show ?thesis by auto
      qed
    qed
  next
    case None
    then have b: "backup = Some old" using old by (simp add: last_good_def)
    from run None b have r: "bind_run (ValidateAndSerializeMetadata sha old suffix) (\<lambda>v.
            case v of None \<Rightarrow> Inr (False, dev)
            | Some old_blob \<Rightarrow> WritePrimaryMetadata w dev m slot old_blob) = Inr (ok, dev')"
      by (simp add: sync_copies_def)
    then obtain v where v: "ValidateAndSerializeMetadata sha old suffix = Inr v" by (auto simp: run_simps)
    show ?thesis
    proof (cases v)
      case None
      with r v hb[OF b] show ?thesis by auto
    next
      case (Some blob)
      with r v have "WritePrimaryMetadata w dev m slot blob = Inr (ok, dev')" by simp
      with backup_attempt(2)[OF sha ex w _ _ v[unfolded Some]] reads(2) usable b
      have "store_attempt sha ?g slot Primary (content old) dev ok dev'" by blast
      from store.sync_safe[OF hb[OF b] _ this] show ?thesis by auto
    qed
  qed
qed

lemma holds_readable:
  assumes "exact_offsets g slot" "store_holds sha g slot dev c v"
  shows "\<exists>x. content x = v \<and> (case c of Primary \<Rightarrow> ReadPrimaryMetadata sha dev g slot = Inr (Some x)
    | Backup \<Rightarrow> ReadBackupMetadata sha dev g slot = Inr (Some x))"
  using assms intact_parse read_copies[OF assms(1)] unfolding store_holds_def by (cases c) fastforce+

text \<open>
  C1: \<open>UpdatePartitionTable\<close> is crash safe. With any writer that may fail or leave garbage in the area
  it writes (a success report means the blob is there), if one of the slot's two copies was
  readable before, then after the call, whatever its outcome, the primary or the backup copy
  parses to the old or to the new metadata; and if the call reports success, both
  copies parse to the new one. SHA-256 yields 32 bytes; the two old copies, when both are readable with the
  same header checksum, have the same content; offsets fit 32 bits.
\<close>

theorem UpdatePartitionTable_crash_safe:
  assumes sha: "\<forall>x. length (sha x) = 32" and w: "good_writer w"
    and new: "metadata_ok m" "exact_offsets (m_geometry m) slot"
    and prim: "ReadPrimaryMetadata sha dev (m_geometry m) slot = Inr primary"
    and bkp: "ReadBackupMetadata sha dev (m_geometry m) slot = Inr backup"
    and usable: "\<forall>x. primary = Some x \<or> backup = Some x \<longrightarrow> usable_copy x"
    and same: "\<forall>p b. primary = Some p \<longrightarrow> backup = Some b \<longrightarrow> CompareMetadata p b \<longrightarrow> content p = content b"
    and old: "last_good primary backup = Some old"
    and run: "UpdatePartitionTable sha w (Some dev) m slot = Inr (ok, Some dev')"
  shows "(\<exists>x. (ReadPrimaryMetadata sha dev' (m_geometry m) slot = Inr (Some x) \<or>
        ReadBackupMetadata sha dev' (m_geometry m) slot = Inr (Some x)) \<and>
       (content x = content old \<or> content x = content m)) \<and>
    (ok \<longrightarrow> (\<exists>x y. ReadPrimaryMetadata sha dev' (m_geometry m) slot = Inr (Some x) \<and> content x = content m \<and>
       ReadBackupMetadata sha dev' (m_geometry m) slot = Inr (Some y) \<and> content y = content m))"
proof -
  let ?g = "m_geometry m"
  have sha': "\<And>x. length (sha x) = 32" using sha by simp
  have early: "(\<exists>c. store_holds sha ?g slot dev c (content old))"
  proof (cases primary)
    case None
    then have "backup = Some old" using old by (simp add: last_good_def)
    then show ?thesis using holds_parsed bkp usable unfolding read_copies[OF new(2)] by blast
  next
    case (Some p)
    then have "primary = Some old" using old by (simp add: last_good_def)
    then show ?thesis using holds_parsed prim usable unfolding read_copies[OF new(2)] by blast
  qed
  have "(\<exists>c. store_holds sha ?g slot dev' c (content old) \<or> store_holds sha ?g slot dev' c (content m)) \<and>
    (ok \<longrightarrow> (\<forall>c. store_holds sha ?g slot dev' c (content m)))"
  proof (cases "\<not> ok \<and> dev' = dev")
    case True
    with early show ?thesis by blast
  next
    case False
    from run obtain suffix where sfx: "SlotSuffixForSlotNumber slot = Inr suffix"
      by (auto simp: UpdatePartitionTable_def run_simps)
    from run sfx obtain v where v: "ValidateAndSerializeMetadata sha m suffix = Inr v"
      by (auto simp: UpdatePartitionTable_def run_simps)
    with run sfx False obtain blob where b: "v = Some blob" by (cases v) (auto simp: UpdatePartitionTable_def)
    from run sfx v b obtain geo where geo: "ReadLogicalPartitionGeometry sha dev = Inr geo"
      by (auto simp: UpdatePartitionTable_def run_simps)
    from run sfx v b geo False obtain g' where g: "geo = Some g'" "CompareGeometry ?g g'"
      "\<not> slot \<ge> g_metadata_slot_count ?g"
      by (cases geo) (auto simp: UpdatePartitionTable_def Let_def split: if_splits)
    with run sfx v b geo prim bkp have "and_then (sync_copies sha w dev m slot suffix primary backup)
        (\<lambda>dev'. WriteMetadata w dev' m slot blob) = Inr (ok, dev')"
      by (auto simp: UpdatePartitionTable_def Let_def run_simps split: prod.splits)
    then obtain ok1 dev1 where s: "sync_copies sha w dev m slot suffix primary backup = Inr (ok1, dev1)"
      and r: "(if ok1 then WriteMetadata w dev1 m slot blob else Inr (False, dev1)) = Inr (ok, dev')"
      by (auto simp: and_then_def run_simps)
    from sync_copies_safe[OF sha' new(2) w prim bkp _ _ old s] usable same
    have sync: "\<exists>c. store_holds sha ?g slot dev1 c (content old)"
      "ok1 \<longrightarrow> store_holds sha ?g slot dev1 Backup (content old)" by blast+
    show ?thesis
    proof (cases ok1)
      case False
      with r sync show ?thesis by auto
    next
      case True
      with r have "WriteMetadata w dev1 m slot blob = Inr (ok, dev')" by simp
      from WriteMetadata_attempts[OF sha' new(2) w new(1) refl v[unfolded b] this]
      obtain ok2 dev2 where a: "store_attempt sha ?g slot Primary (content m) dev1 ok2 dev2"
        "if ok2 then store_attempt sha ?g slot Backup (content m) dev2 ok dev' else \<not> ok \<and> dev' = dev2"
        by blast
      from store.replace_safe[OF _ _ a, of "content old"] sync(2) True
      have "(store_holds sha ?g slot dev' Primary (content m) \<or> store_holds sha ?g slot dev' Backup (content old)) \<and>
        (ok \<longrightarrow> store_holds sha ?g slot dev' Primary (content m) \<and> store_holds sha ?g slot dev' Backup (content m))"
        by simp
      then show ?thesis by (metis copy.exhaust)
    qed
  qed
  then have one: "\<exists>c v. store_holds sha ?g slot dev' c v \<and> (v = content old \<or> v = content m)"
    and both: "ok \<longrightarrow> store_holds sha ?g slot dev' Primary (content m) \<and> store_holds sha ?g slot dev' Backup (content m)"
    by blast+
  from one obtain c v where "store_holds sha ?g slot dev' c v" "v = content old \<or> v = content m" by blast
  with holds_readable[OF new(2)] have "\<exists>x. (ReadPrimaryMetadata sha dev' ?g slot = Inr (Some x) \<or>
        ReadBackupMetadata sha dev' ?g slot = Inr (Some x)) \<and> (content x = content old \<or> content x = content m)"
    by (cases c) fastforce+
  moreover have "ok \<longrightarrow> (\<exists>x y. ReadPrimaryMetadata sha dev' ?g slot = Inr (Some x) \<and> content x = content m \<and>
       ReadBackupMetadata sha dev' ?g slot = Inr (Some y) \<and> content y = content m)"
    using both holds_readable[OF new(2), of sha dev' Primary "content m"]
      holds_readable[OF new(2), of sha dev' Backup "content m"] by auto
  ultimately show ?thesis by blast
qed

end
