(* ===== verification/LpFlash.thy ===== *)
theory LpFlash imports LpCrash begin

text \<open>
  \<open>FlashPartitionTable\<close> on a device that is large enough writes every copy of every slot, and
  \<open>ReadMetadata\<close> then returns the metadata for each slot.
\<close>

section \<open>Overwriting an area\<close>

definition overwrite :: "nat \<Rightarrow> u8 list \<Rightarrow> u8 list \<Rightarrow> u8 list" where
  "overwrite off blob dev = take off dev @ blob @ drop (off + length blob) dev"

definition apart :: "nat \<Rightarrow> nat \<Rightarrow> nat \<Rightarrow> nat \<Rightarrow> bool" where
  "apart off n off' k \<longleftrightarrow> off + n \<le> off' \<or> off' + k \<le> off"

lemma seek_and_write_Default:
  assumes "off + length blob \<le> length dev"
  shows "seek_and_write DefaultWriter off blob dev = (True, overwrite off blob dev)"
  using assms by (auto simp: seek_and_write_def SeekFile64_def DefaultWriter_def Let_def overwrite_def)

lemma length_overwrite [simp]:
  "off + length blob \<le> length dev \<Longrightarrow> length (overwrite off blob dev) = length dev"
  by (simp add: overwrite_def)

lemma bytes_at_overwrite:
  "off + length blob \<le> length dev \<Longrightarrow> bytes_at off (length blob) (overwrite off blob dev) = blob"
  by (simp add: bytes_at_def overwrite_def)

lemma bytes_at_overwrite_apart:
  assumes "off + length blob \<le> length dev" "apart off (length blob) off' n"
  shows "bytes_at off' n (overwrite off blob dev) = bytes_at off' n dev"
proof (cases "off' + n \<le> off")
  case True
  then have "drop off' (take off dev) @ s = drop off' (take off dev) @ s \<and>
      n \<le> length (drop off' (take off dev))" for s using assms(1) by simp
  moreover have "take n (drop off' (take off dev)) = take n (drop off' dev)"
    using True by (simp add: drop_take min_def)
  ultimately show ?thesis using True assms(1) by (simp add: bytes_at_def overwrite_def)
next
  case False
  with assms(2) have "off + length blob \<le> off'" by (simp add: apart_def)
  then show ?thesis using assms(1) by (simp add: bytes_at_def overwrite_def)
qed

text \<open>Writing the same blob at a list of offsets that do not overlap.\<close>

lemma foldl_overwrite:
  assumes "\<forall>p\<in>set offs. p + length blob \<le> length dev"
    and "\<forall>p\<in>set offs. \<forall>q\<in>set offs. p = q \<or> apart p (length blob) q (length blob)"
  shows "length (foldl (\<lambda>d p. overwrite p blob d) dev offs) = length dev \<and>
    (\<forall>p\<in>set offs. bytes_at p (length blob) (foldl (\<lambda>d p. overwrite p blob d) dev offs) = blob) \<and>
    (\<forall>off n. (\<forall>p\<in>set offs. apart p (length blob) off n) \<longrightarrow>
       bytes_at off n (foldl (\<lambda>d p. overwrite p blob d) dev offs) = bytes_at off n dev)"
  using assms
proof (induction offs rule: rev_induct)
  case (snoc x offs)
  let ?d = "foldl (\<lambda>d p. overwrite p blob d) dev offs"
  from snoc have IH: "length ?d = length dev" "\<forall>p\<in>set offs. bytes_at p (length blob) ?d = blob"
    "\<forall>off n. (\<forall>p\<in>set offs. apart p (length blob) off n) \<longrightarrow> bytes_at off n ?d = bytes_at off n dev"
    by auto
  have x: "x + length blob \<le> length ?d" using snoc.prems(1) IH(1) by simp
  have "bytes_at p (length blob) (overwrite x blob ?d) = blob" if "p \<in> set (offs @ [x])" for p
  proof (cases "p = x")
    case True
    with bytes_at_overwrite[OF x] show ?thesis by simp
  next
    case False
    with that snoc.prems(2) have "p \<in> set offs" "apart x (length blob) p (length blob)" by auto
    with bytes_at_overwrite_apart[OF x] IH(2) show ?thesis by simp
  qed
  moreover have "bytes_at off n (overwrite x blob ?d) = bytes_at off n dev"
    if "\<forall>p\<in>set (offs @ [x]). apart p (length blob) off n" for off n
    using that bytes_at_overwrite_apart[OF x, of off n] IH(3) by simp
  ultimately show ?case using x IH(1) by simp
qed simp

section \<open>Writing all copies\<close>

text \<open>The offset of the \<open>k\<close>-th copy in the metadata area: the primaries come first.\<close>

definition area_offset :: "LpMetadataGeometry \<Rightarrow> nat \<Rightarrow> nat" where
  "area_offset g k = 12288 + unat (g_metadata_max_size g) * k"

lemma area_offset_apart:
  assumes "n \<le> unat (g_metadata_max_size g)" "k \<noteq> k'"
  shows "apart (area_offset g k) n (area_offset g k') n"
proof -
  let ?m = "unat (g_metadata_max_size g)"
  have "?m * Suc i \<le> ?m * j" if "i < j" for i j using that by (intro mult_le_mono2) simp
  then have "?m * i + n \<le> ?m * j" if "i < j" for i j using that assms(1) by fastforce
  with assms(2) show ?thesis by (cases k k' rule: linorder_cases) (auto simp: apart_def area_offset_def)
qed

lemma unat_of_nat_slot:
  assumes "i < unat (n :: u32)"
  shows "unat (of_nat i :: u32) = i"
proof -
  have "i < 4294967296" using assms unat_u32_lt[of n] by linarith
  then show ?thesis by (intro unat_of_nat_small) simp
qed

lemma copy_offset_area:
  assumes "i < unat (g_metadata_slot_count g)"
  shows "copy_offset g (of_nat i) Primary = area_offset g i"
    "copy_offset g (of_nat i) Backup = area_offset g (unat (g_metadata_slot_count g) + i)"
  using unat_of_nat_slot[OF assms] by (simp_all add: copy_offset_def area_offset_def)

definition slots_offsets :: "LpMetadataGeometry \<Rightarrow> nat list \<Rightarrow> nat list" where
  "slots_offsets g is = concat (map (\<lambda>i. [area_offset g i,
     area_offset g (unat (g_metadata_slot_count g) + i)]) is)"

text \<open>What makes every write of a copy succeed with the default writer.\<close>

definition room_for_copies :: "LpMetadata \<Rightarrow> nat \<Rightarrow> u8 list \<Rightarrow> bool" where
  "room_for_copies m n dev \<longleftrightarrow>
     (\<forall>k < 2 * unat (g_metadata_slot_count (m_geometry m)).
        ValidateMetadataRegion m (area_offset (m_geometry m) k) n \<and>
        area_offset (m_geometry m) k + n \<le> length dev)"

lemma room_for_copies_length:
  "room_for_copies m n dev \<Longrightarrow> length dev' = length dev \<Longrightarrow> room_for_copies m n dev'"
  by (simp add: room_for_copies_def)

lemma WriteMetadataAt_Default:
  assumes "room_for_copies m (length blob) dev" "k < 2 * unat (g_metadata_slot_count (m_geometry m))"
  shows "WriteMetadataAt DefaultWriter m (area_offset (m_geometry m) k) blob dev =
    (True, overwrite (area_offset (m_geometry m) k) blob dev)"
  using assms by (simp add: WriteMetadataAt_def room_for_copies_def seek_and_write_Default)

lemma WriteMetadata_Default:
  assumes room: "room_for_copies m (length blob) dev" and g: "g = m_geometry m"
    and i: "i < unat (g_metadata_slot_count g)"
    and small: "total_metadata_size (unat (g_metadata_max_size g)) (unat (g_metadata_slot_count g)) < 4294967296"
  shows "WriteMetadata DefaultWriter dev m (of_nat i) blob = Inr (True,
    overwrite (area_offset g (unat (g_metadata_slot_count g) + i)) blob (overwrite (area_offset g i) blob dev))"
proof -
  let ?n = "unat (g_metadata_slot_count g)"
  have ex: "exact_offsets g (of_nat i)"
    using small i unat_of_nat_slot[OF i] by (simp add: exact_offsets_def)
  have nge: "\<not> of_nat i \<ge> g_metadata_slot_count g"
    using i unat_of_nat_slot[OF i] by (simp add: word_le_nat_alt)
  have len: "length (overwrite (area_offset g i) blob dev) = length dev"
    using room i g by (simp add: room_for_copies_def)
  note w = WriteMetadataAt_Default[OF room, of i] 
    WriteMetadataAt_Default[OF room_for_copies_length[OF room len], of "?n + i"]
  show ?thesis
    using nge w i g offsets_eq[OF ex] copy_offset_area[OF i]
    by (simp add: WriteMetadata_def and_then_def WritePrimaryMetadata_def WriteBackupMetadata_def)
qed

lemma flash_slots_Default:
  assumes "room_for_copies m (length blob) dev" "g = m_geometry m"
    and "\<forall>i\<in>set is. i < unat (g_metadata_slot_count g)"
    and "total_metadata_size (unat (g_metadata_max_size g)) (unat (g_metadata_slot_count g)) < 4294967296"
  shows "flash_slots m blob is True dev =
    Inr (True, foldl (\<lambda>d p. overwrite p blob d) dev (slots_offsets g is))"
  using assms
proof (induction "is" arbitrary: dev)
  case (Cons i xs)
  let ?n = "unat (g_metadata_slot_count g)"
  let ?d = "overwrite (area_offset g (?n + i)) blob (overwrite (area_offset g i) blob dev)"
  have i: "i < ?n" using Cons.prems by simp
  have "WriteMetadata DefaultWriter dev m (of_nat i) blob = Inr (True, ?d)"
    by (rule WriteMetadata_Default[OF Cons.prems(1,2) i Cons.prems(4)])
  moreover have "length ?d = length dev"
    using Cons.prems(1,2) i by (simp add: room_for_copies_def)
  ultimately show ?case
    using Cons.IH[OF room_for_copies_length[OF Cons.prems(1)], of ?d] Cons.prems
    by (simp add: slots_offsets_def)
qed (simp add: slots_offsets_def)

section \<open>Flashing, then reading\<close>

lemma slots_offsets_area:
  "p \<in> set (slots_offsets g [0..<unat (g_metadata_slot_count g)]) \<longleftrightarrow>
     (\<exists>k < 2 * unat (g_metadata_slot_count g). p = area_offset g k)"
proof
  let ?n = "unat (g_metadata_slot_count g)"
  assume "\<exists>k < 2 * ?n. p = area_offset g k"
  then obtain k where k: "k < 2 * ?n" "p = area_offset g k" by blast
  show "p \<in> set (slots_offsets g [0..<?n])"
  proof (cases "k < ?n")
    case True
    with k show ?thesis by (auto simp: slots_offsets_def)
  next
    case False
    then have "p = area_offset g (?n + (k - ?n))" "k - ?n < ?n" using k by simp_all
    then show ?thesis unfolding slots_offsets_def by auto
  qed
next
  let ?n = "unat (g_metadata_slot_count g)"
  assume "p \<in> set (slots_offsets g [0..<?n])"
  then obtain i where i: "i < ?n" "p = area_offset g i \<or> p = area_offset g (?n + i)"
    by (auto simp: slots_offsets_def)
  moreover have "i < 2 * ?n" "?n + i < 2 * ?n" using i(1) by simp_all
  ultimately show "\<exists>k < 2 * ?n. p = area_offset g k" by blast
qed

lemma reserved_exact:
  assumes "total_metadata_size (unat (g_metadata_max_size g)) (unat (g_metadata_slot_count g)) < 4294967296"
  shows "unat (of_nat LP_PARTITION_RESERVED_BYTES + (of_nat LP_METADATA_GEOMETRY_SIZE +
      ucast (g_metadata_max_size g) * ucast (g_metadata_slot_count g)) * 2 :: u64) =
    total_metadata_size (unat (g_metadata_max_size g)) (unat (g_metadata_slot_count g))"
proof -
  let ?x = "ucast (g_metadata_max_size g) * ucast (g_metadata_slot_count g) :: u64"
  have x: "unat ?x = unat (g_metadata_max_size g) * unat (g_metadata_slot_count g)"
    by (rule unat_mult_u32_u64)
  have a: "unat (4096 + ?x) = 4096 + unat (g_metadata_max_size g) * unat (g_metadata_slot_count g)"
    using assms x by (subst unat_add_small) (auto simp: total_metadata_size_def)
  have b: "unat ((4096 + ?x) * 2) = (4096 + unat (g_metadata_max_size g) * unat (g_metadata_slot_count g)) * 2"
    using assms a by (subst unat_mult_small) (auto simp: total_metadata_size_def)
  have "unat (4096 + (4096 + ?x) * 2) =
      total_metadata_size (unat (g_metadata_max_size g)) (unat (g_metadata_slot_count g))"
    using assms b by (subst unat_add_small) (auto simp: total_metadata_size_def)
  then show ?thesis by (simp add: LP_PARTITION_RESERVED_BYTES_def LP_METADATA_GEOMETRY_SIZE_def)
qed

lemma validated_region:
  assumes "ValidateAndSerializeMetadata sha m suffix = Inr (Some blob)"
  shows "\<exists>d. GetMetadataSuperBlockDevice m = Some d \<and>
    \<not> of_nat LP_PARTITION_RESERVED_BYTES + (of_nat LP_METADATA_GEOMETRY_SIZE +
      ucast (g_metadata_max_size (m_geometry m)) * ucast (g_metadata_slot_count (m_geometry m))) * 2
      > bd_first_logical_sector d * LP_SECTOR_SIZE"
proof -
  from assms obtain b where "SerializeMetadata sha m = Inr b"
    by (auto simp: ValidateAndSerializeMetadata_def run_simps)
  with assms show ?thesis
    by (auto simp: ValidateAndSerializeMetadata_def Let_def split: if_splits option.splits)
qed

lemma area_offset_bound:
  assumes "k < 2 * n" "l < u" "T = 12288 + u * (2 * n)"
  shows "12288 + u * k + l < (T :: nat)"
proof -
  have "u * Suc k \<le> u * (2 * n)" using assms(1) by (intro mult_le_mono2) simp
  then have "u * k + u \<le> u * (2 * n)" by simp
  with assms(2,3) show ?thesis by linarith
qed

lemma total_metadata_size_alt: "total_metadata_size u n = 12288 + u * (2 * n)"
  by (simp add: total_metadata_size_def)

lemma validated_room:
  assumes v: "ValidateAndSerializeMetadata sha m suffix = Inr (Some blob)" and g: "g = m_geometry m"
    and lt: "length blob < unat (g_metadata_max_size g)"
    and small: "total_metadata_size (unat (g_metadata_max_size g)) (unat (g_metadata_slot_count g)) < 4294967296"
    and dev: "total_metadata_size (unat (g_metadata_max_size g)) (unat (g_metadata_slot_count g)) \<le> length dev"
  shows "room_for_copies m (length blob) dev"
proof -
  let ?n = "unat (g_metadata_slot_count g)" and ?u = "unat (g_metadata_max_size g)"
  from validated_region[OF v] obtain d where d: "GetMetadataSuperBlockDevice m = Some d"
    "total_metadata_size ?u ?n \<le> unat (bd_first_logical_sector d * LP_SECTOR_SIZE)"
    using reserved_exact[OF small] g by (auto simp: word_less_nat_alt not_less)
  have "ValidateMetadataRegion m (area_offset g k) (length blob) \<and> area_offset g k + length blob \<le> length dev"
    if k: "k < 2 * ?n" for k
  proof -
    have b: "area_offset g k + length blob < total_metadata_size ?u ?n"
      unfolding area_offset_def
      by (rule area_offset_bound[OF k lt]) (simp add: total_metadata_size_alt)
    with small have "unat (of_nat (area_offset g k + length blob) :: u64) = area_offset g k + length blob"
      by (intro unat_of_nat_small) simp
    with b d have "\<not> of_nat (area_offset g k) + of_nat (length blob) \<ge> bd_first_logical_sector d * LP_SECTOR_SIZE"
      by (simp add: word_le_nat_alt not_le flip: of_nat_add)
    with b dev d(1) show ?thesis by (simp add: ValidateMetadataRegion_def)
  qed
  then show ?thesis by (simp add: room_for_copies_def g)
qed

text \<open>The device after flashing.\<close>

definition flashed :: "(u8 list \<Rightarrow> u8 list) \<Rightarrow> LpMetadata \<Rightarrow> u8 list \<Rightarrow> u8 list \<Rightarrow> u8 list" where
  "flashed sha m blob dev =
     (let g = m_geometry m; gb = SerializeGeometry sha g
      in foldl (\<lambda>d p. overwrite p blob d)
           (overwrite 8192 gb (overwrite 4096 gb (overwrite 0 (replicate 4096 0) dev)))
           (slots_offsets g [0..<unat (g_metadata_slot_count g)]))"

lemma length_SerializeGeometry:
  assumes "\<And>x. length (sha x) = 32"
  shows "length (SerializeGeometry sha g) = 4096"
proof -
  have "wf_geometry (sealed_geometry sha g)" by (simp add: wf_geometry_def sealed_geometry_def assms)
  from geometry.length_image[OF this] show ?thesis
    by (simp add: SerializeGeometry_def Let_def LP_METADATA_GEOMETRY_SIZE_def sizeof_geometry_def)
qed

lemma FlashPartitionTable_flashed:
  assumes sha: "\<And>x. length (sha x) = 32"
    and v: "ValidateAndSerializeMetadata sha m (GetPartitionSlotSuffix super) = Inr (Some blob)"
    and g: "g = m_geometry m" and lt: "length blob < unat (g_metadata_max_size g)"
    and small: "total_metadata_size (unat (g_metadata_max_size g)) (unat (g_metadata_slot_count g)) < 4294967296"
    and dev: "total_metadata_size (unat (g_metadata_max_size g)) (unat (g_metadata_slot_count g)) \<le> length dev"
  shows "FlashPartitionTable sha (Some dev) super m = Inr (True, Some (flashed sha m blob dev))"
proof -
  let ?gb = "SerializeGeometry sha g"
  let ?d1 = "overwrite 0 (replicate 4096 0) dev"
  let ?d2 = "overwrite 4096 ?gb ?d1"
  let ?d3 = "overwrite 8192 ?gb ?d2"
  note lg = length_SerializeGeometry[of sha g, OF sha]
  have big: "12288 \<le> length dev" using dev by (simp add: total_metadata_size_def)
  have l: "length ?d1 = length dev" "length ?d2 = length dev" "length ?d3 = length dev"
    using big lg by simp_all
  have w: "seek_and_write DefaultWriter 0 (replicate 4096 0) dev = (True, ?d1)"
    "seek_and_write DefaultWriter 4096 ?gb ?d1 = (True, ?d2)"
    "seek_and_write DefaultWriter 8192 ?gb ?d2 = (True, ?d3)"
    using big l lg by (simp_all add: seek_and_write_Default)
  have room: "room_for_copies m (length blob) ?d3"
    by (rule room_for_copies_length[OF validated_room[OF v g lt small dev] l(3)])
  have f: "flash_slots m blob [0..<unat (g_metadata_slot_count g)] True ?d3 = Inr (True, flashed sha m blob dev)"
    using flash_slots_Default[OF room g _ small] g by (simp add: flashed_def Let_def)
  show ?thesis
    using v w f g
    by (simp add: FlashPartitionTable_def and_then_def GetPrimaryGeometryOffset_def GetBackupGeometryOffset_def
        LP_PARTITION_RESERVED_BYTES_def LP_METADATA_GEOMETRY_SIZE_def)
qed

lemma flashed_bytes:
  assumes sha: "\<And>x. length (sha x) = 32" and g: "g = m_geometry m"
    and room: "room_for_copies m (length blob) dev" and big: "12288 \<le> length dev"
    and lt: "length blob \<le> unat (g_metadata_max_size g)"
  shows "length (flashed sha m blob dev) = length dev"
    "k < 2 * unat (g_metadata_slot_count g) \<Longrightarrow>
       bytes_at (area_offset g k) (length blob) (flashed sha m blob dev) = blob"
    "bytes_at 4096 4096 (flashed sha m blob dev) = SerializeGeometry sha g"
    "bytes_at 8192 4096 (flashed sha m blob dev) = SerializeGeometry sha g"
proof -
  let ?gb = "SerializeGeometry sha g"
  let ?d2 = "overwrite 4096 ?gb (overwrite 0 (replicate 4096 0) dev)"
  let ?d3 = "overwrite 8192 ?gb ?d2"
  let ?offs = "slots_offsets g [0..<unat (g_metadata_slot_count g)]"
  note lg = length_SerializeGeometry[of sha g, OF sha]
  have l: "length ?d2 = length dev" "length ?d3 = length dev" using big lg by simp_all
  have inb: "\<forall>p\<in>set ?offs. p + length blob \<le> length ?d3"
    using room l g by (auto simp: slots_offsets_area room_for_copies_def)
  have ap: "\<forall>p\<in>set ?offs. \<forall>q\<in>set ?offs. p = q \<or> apart p (length blob) q (length blob)"
    using area_offset_apart[OF lt] by (auto simp: slots_offsets_area) metis
  note fo = foldl_overwrite[OF inb ap]
  have fl: "flashed sha m blob dev = foldl (\<lambda>d p. overwrite p blob d) ?d3 ?offs"
    by (simp add: flashed_def Let_def g)
  show "length (flashed sha m blob dev) = length dev" using fo l fl by simp
  show "bytes_at (area_offset g k) (length blob) (flashed sha m blob dev) = blob"
    if "k < 2 * unat (g_metadata_slot_count g)"
  proof -
    have "area_offset g k \<in> set ?offs" using that by (auto simp: slots_offsets_area)
    with fo fl show ?thesis by simp
  qed
  have low: "\<forall>p\<in>set ?offs. apart p (length blob) o' 4096" if "o' \<le> 8192" for o'
    using that by (auto simp: slots_offsets_area area_offset_def apart_def)
  have "bytes_at 8192 4096 ?d3 = ?gb" using bytes_at_overwrite[of 8192 ?gb ?d2] l lg big by simp
  with fo low[of 8192] fl show "bytes_at 8192 4096 (flashed sha m blob dev) = ?gb" by simp
  have "bytes_at 4096 4096 ?d3 = bytes_at 4096 4096 ?d2"
    using bytes_at_overwrite_apart[of 8192 ?gb ?d2 4096 4096] l lg big by (simp add: apart_def)
  also have "\<dots> = ?gb"
    using bytes_at_overwrite[of 4096 ?gb "overwrite 0 (replicate 4096 0) dev"] lg big by simp
  finally show "bytes_at 4096 4096 (flashed sha m blob dev) = ?gb" using fo low[of 4096] fl by simp
qed

lemma read_geometry_bytes:
  assumes sha: "\<And>x. length (sha x) = 32" and ok: "geometry_fields_ok g"
    and b: "bytes_at off 4096 dev = SerializeGeometry sha g" and len: "off + 4096 \<le> length dev"
  shows "ReadGeometryAt sha dev off = Inr (Some (sealed_geometry sha g))"
  using geometry_roundtrip_lemma[of sha g, OF sha ok] b len
  by (simp add: ReadGeometryAt_def SeekFile64_def ReadFully_def LP_METADATA_GEOMETRY_SIZE_def bytes_at_def)

lemma sealed_header_geometry [simp]:
  "sealed_header sha (m\<lparr>m_geometry := g\<rparr>) = sealed_header sha m"
  by (simp add: sealed_header_def placed_header_def table_bytes_def partition_bytes_def extent_bytes_def
      group_bytes_def block_device_bytes_def Let_def)

lemma SerializeMetadata_geometry [simp]:
  "SerializeMetadata sha (m\<lparr>m_geometry := g\<rparr>) = SerializeMetadata sha m"
  by (simp add: SerializeMetadata_def table_bytes_def partition_bytes_def extent_bytes_def
      group_bytes_def block_device_bytes_def)

lemma metadata_ok_sealed [simp]:
  "metadata_ok (m\<lparr>m_geometry := sealed_geometry sha (m_geometry m)\<rparr>) = metadata_ok m"
  by (simp add: metadata_ok_def table_bytes_def partition_bytes_def extent_bytes_def
      group_bytes_def block_device_bytes_def split: list.splits)

lemma parse_copy:
  assumes sha: "\<And>x. length (sha x) = 32" and ok: "metadata_ok m"
    and ser: "SerializeMetadata sha m = Inr blob"
    and b: "bytes_at off (length blob) dev = blob" and len: "off \<le> length dev"
  shows "ParseMetadataAt sha (m_geometry m) dev off = Inr (Some (m\<lparr>m_header := sealed_header sha m\<rparr>))"
proof -
  have d: "drop off dev = blob @ drop (length blob) (drop off dev)"
    using b append_take_drop_id[of "length blob" "drop off dev"] by (simp add: bytes_at_def)
  have p: "ParseMetadata sha (m_geometry m) (blob @ rest) = Inr (Some (m\<lparr>m_header := sealed_header sha m\<rparr>))" for rest
    using metadata_roundtrip_lemma[of sha m, OF sha ok] ser by auto
  show ?thesis using len p by (subst ParseMetadataAt_def) (simp add: SeekFile64_def, subst d, simp)
qed

text \<open>What a reader gets back: positions and checksums are filled in.\<close>

definition as_written :: "(u8 list \<Rightarrow> u8 list) \<Rightarrow> LpMetadata \<Rightarrow> LpMetadata" where
  "as_written sha m = m\<lparr>m_geometry := sealed_geometry sha (m_geometry m), m_header := sealed_header sha m\<rparr>"

lemma flashed_reads:
  assumes sha: "\<And>x. length (sha x) = 32" and ok: "metadata_ok m" "geometry_fields_ok (m_geometry m)"
    and v: "ValidateAndSerializeMetadata sha m (GetPartitionSlotSuffix super) = Inr (Some blob)"
    and g: "g = m_geometry m" and lt: "length blob < unat (g_metadata_max_size g)"
    and small: "total_metadata_size (unat (g_metadata_max_size g)) (unat (g_metadata_slot_count g)) < 4294967296"
    and dev: "total_metadata_size (unat (g_metadata_max_size g)) (unat (g_metadata_slot_count g)) \<le> length dev"
    and slot: "unat slot < unat (g_metadata_slot_count g)"
  shows "ReadLogicalPartitionGeometry sha (flashed sha m blob dev) = Inr (Some (sealed_geometry sha g))"
    "ParseMetadataAt sha (sealed_geometry sha g) (flashed sha m blob dev) (copy_offset g slot c) =
       Inr (Some (as_written sha m))"
    "ReadMetadata sha (Some (flashed sha m blob dev)) slot = AdjustMetadataForSlot (as_written sha m) slot"
proof -
  let ?d = "flashed sha m blob dev" and ?s = "sealed_geometry sha g"
  note room = validated_room[OF v g lt small dev]
  have big: "12288 \<le> length dev" using dev by (simp add: total_metadata_size_def)
  note fb = flashed_bytes[of sha, OF sha g room big less_imp_le[OF lt]]
  have ok': "geometry_fields_ok g" using ok(2) g by simp
  show geo: "ReadLogicalPartitionGeometry sha ?d = Inr (Some ?s)"
    using read_geometry_bytes[of sha, OF sha ok' fb(3)] fb(1) big
    by (simp add: ReadLogicalPartitionGeometry_def ReadPrimaryGeometry_def GetPrimaryGeometryOffset_def
        LP_PARTITION_RESERVED_BYTES_def)
  let ?m = "m\<lparr>m_geometry := ?s\<rparr>"
  have okm: "metadata_ok ?m" using ok(1) g by simp
  have ser: "SerializeMetadata sha ?m = Inr blob"
    using ValidateAndSerializeMetadata_Some(1)[OF v] by simp
  have aw: "?m\<lparr>m_header := sealed_header sha ?m\<rparr> = as_written sha m" by (simp add: as_written_def g)
  show copy: "ParseMetadataAt sha ?s ?d (copy_offset g slot c) = Inr (Some (as_written sha m))" for c
  proof -
    obtain k where k: "k < 2 * unat (g_metadata_slot_count g)" "copy_offset g slot c = area_offset g k"
    proof (cases c)
      case Primary
      with slot that[of "unat slot"] show ?thesis by (simp add: copy_offset_def area_offset_def)
    next
      case Backup
      with slot that[of "unat (g_metadata_slot_count g) + unat slot"] show ?thesis
        by (simp add: copy_offset_def area_offset_def)
    qed
    have "area_offset g k + length blob \<le> length ?d"
      using room k(1) g fb(1) by (simp add: room_for_copies_def)
    then show ?thesis
      using parse_copy[of sha, OF sha okm ser fb(2)[OF k(1)]] k(2) aw by simp
  qed
  have ex: "exact_offsets ?s slot" using slot small by (simp add: exact_offsets_def)
  have co: "copy_offset ?s slot c = copy_offset g slot c" for c
    by (cases c) (simp_all add: copy_offset_def)
  have nge: "\<not> slot \<ge> g_metadata_slot_count ?s" using slot by (simp add: word_le_nat_alt)
  show "ReadMetadata sha (Some ?d) slot = AdjustMetadataForSlot (as_written sha m) slot"
    using geo copy nge offsets_eq[OF ex] co by (simp add: ReadMetadata_def)
qed

section \<open>Updating a consistent device\<close>

text \<open>Both copies of the slot are the same: the update writes the new copies and nothing else.\<close>

lemma UpdatePartitionTable_in_sync_run:
  assumes g: "g = m_geometry m" and sfx: "SlotSuffixForSlotNumber slot = Inr suffix"
    and v: "ValidateAndSerializeMetadata sha m suffix = Inr (Some blob)"
    and geo: "ReadLogicalPartitionGeometry sha dev = Inr (Some old_geometry)" "CompareGeometry g old_geometry"
    and slot: "unat slot < unat (g_metadata_slot_count g)"
    and copies: "ReadPrimaryMetadata sha dev g slot = Inr (Some p)" "ReadBackupMetadata sha dev g slot = Inr (Some b)"
      "CompareMetadata p b"
    and run: "WriteMetadata w dev m slot blob = Inr (ok, dev')"
  shows "UpdatePartitionTable sha w (Some dev) m slot = Inr (ok, Some dev')"
proof -
  have nge: "\<not> slot \<ge> g_metadata_slot_count g" using slot by (simp add: word_le_nat_alt)
  show ?thesis
    using sfx v geo copies nge run g
    by (simp add: UpdatePartitionTable_def sync_copies_def and_then_def Let_def)
qed

lemma UpdatePartitionTable_in_sync:
  assumes g: "g = m_geometry m" and sfx: "SlotSuffixForSlotNumber slot = Inr suffix"
    and v: "ValidateAndSerializeMetadata sha m suffix = Inr (Some blob)"
    and geo: "ReadLogicalPartitionGeometry sha dev = Inr (Some old_geometry)" "CompareGeometry g old_geometry"
    and slot: "unat slot < unat (g_metadata_slot_count g)"
    and copies: "ReadPrimaryMetadata sha dev g slot = Inr (Some p)" "ReadBackupMetadata sha dev g slot = Inr (Some b)"
      "CompareMetadata p b"
    and room: "room_for_copies m (length blob) dev"
    and small: "total_metadata_size (unat (g_metadata_max_size g)) (unat (g_metadata_slot_count g)) < 4294967296"
  shows "UpdatePartitionTable sha DefaultWriter (Some dev) m slot = Inr (True, Some
    (overwrite (copy_offset g slot Backup) blob (overwrite (copy_offset g slot Primary) blob dev)))"
proof -
  have "of_nat (unat slot) = slot" by simp
  then have w: "WriteMetadata DefaultWriter dev m slot blob = Inr (True,
    overwrite (copy_offset g slot Backup) blob (overwrite (copy_offset g slot Primary) blob dev))"
    using WriteMetadata_Default[OF room g slot small] copy_offset_area[OF slot] by simp
  show ?thesis by (rule UpdatePartitionTable_in_sync_run[OF g sfx v geo slot copies w])
qed

section \<open>What an update leaves alone\<close>

definition same_area :: "nat \<Rightarrow> nat \<Rightarrow> u8 list \<Rightarrow> u8 list \<Rightarrow> bool" where
  "same_area off n dev dev' \<longleftrightarrow> length dev' = length dev \<and> bytes_at off n dev' = bytes_at off n dev"

lemma same_area_refl [simp]: "same_area off n dev dev" by (simp add: same_area_def)

lemma same_area_trans: "same_area off n d1 d2 \<Longrightarrow> same_area off n d2 d3 \<Longrightarrow> same_area off n d1 d3"
  by (simp add: same_area_def)

text \<open>An area that neither copy of the slot overlaps.\<close>

definition outside_copies :: "LpMetadataGeometry \<Rightarrow> u32 \<Rightarrow> nat \<Rightarrow> nat \<Rightarrow> bool" where
  "outside_copies g slot off n \<longleftrightarrow>
     (\<forall>c. apart (copy_offset g slot c) (unat (g_metadata_max_size g)) off n)"

lemma WriteMetadataAt_frame:
  assumes "WriteMetadataAt w mv (copy_offset g slot c) blob dev = (ok, dev')" "good_writer w"
    and "length blob \<le> unat (g_metadata_max_size g)" "outside_copies g slot off n"
  shows "same_area off n dev dev'"
proof -
  have "apart (copy_offset g slot c) (unat (g_metadata_max_size g)) off n"
    using assms(4) by (simp add: outside_copies_def)
  with assms(3) have "copy_offset g slot c + length blob \<le> off \<or> off + n \<le> copy_offset g slot c"
    by (auto simp: apart_def)
  from writer_elsewhere[OF assms(1,2) this] show ?thesis by (simp add: same_area_def bytes_at_def)
qed

lemma Write_copy_frame:
  assumes "exact_offsets (m_geometry m) slot" "good_writer w"
    and "length blob \<le> unat (g_metadata_max_size (m_geometry m))" "outside_copies (m_geometry m) slot off n"
  shows "WritePrimaryMetadata w dev m slot blob = Inr (ok, dev') \<Longrightarrow> same_area off n dev dev'"
    "WriteBackupMetadata w dev m slot blob = Inr (ok, dev') \<Longrightarrow> same_area off n dev dev'"
  using WriteMetadataAt_frame[OF _ assms(2-4)] offsets_eq[OF assms(1)]
  by (auto simp: WritePrimaryMetadata_def WriteBackupMetadata_def)

lemma WriteMetadata_frame:
  assumes "exact_offsets (m_geometry m) slot" "good_writer w"
    and "length blob \<le> unat (g_metadata_max_size (m_geometry m))" "outside_copies (m_geometry m) slot off n"
    and "WriteMetadata w dev m slot blob = Inr (ok, dev')"
  shows "same_area off n dev dev'"
proof -
  from assms(5) show ?thesis
    by (auto simp: WriteMetadata_def and_then_def run_simps split: if_splits
        intro: same_area_trans Write_copy_frame[OF assms(1-4)])
qed

lemma sync_copies_frame:
  assumes ex: "exact_offsets (m_geometry m) slot" and w: "good_writer w"
    and out: "outside_copies (m_geometry m) slot off n"
    and copies: "\<And>x. primary = Some x \<or> backup = Some x \<Longrightarrow> m_geometry x = m_geometry m"
    and run: "sync_copies sha w dev m slot suffix primary backup = Inr (ok, dev')"
  shows "same_area off n dev dev'"
proof -
  have step: "same_area off n dev dev'"
    if v: "ValidateAndSerializeMetadata sha x suffix = Inr (Some b)" and x: "primary = Some x \<or> backup = Some x"
      and r: "WritePrimaryMetadata w dev m slot b = Inr (ok, dev') \<or> WriteBackupMetadata w dev m slot b = Inr (ok, dev')"
    for x b
  proof -
    have "length b \<le> unat (g_metadata_max_size (m_geometry m))"
      using ValidateAndSerializeMetadata_Some(2)[OF v] copies[OF x] by simp
    from Write_copy_frame[OF ex w this out] r show ?thesis by blast
  qed
  from run show ?thesis
    by (auto simp: sync_copies_def run_simps split: option.splits if_splits) (erule step; simp)+
qed

text \<open>
  C12: \<open>UpdatePartitionTable\<close> touches nothing but the two copies of its slot: with a writer that
  stays inside the area it is given, whatever fails on the way, every area of the device outside
  the two copies (the geometry, the other slots, the partitions' data) keeps its bytes.
\<close>

theorem UpdatePartitionTable_frame:
  assumes w: "good_writer w" and ex: "exact_offsets (m_geometry m) slot"
    and out: "outside_copies (m_geometry m) slot off n"
    and run: "UpdatePartitionTable sha w (Some dev) m slot = Inr (ok, Some dev')"
  shows "length dev' = length dev \<and> bytes_at off n dev' = bytes_at off n dev"
proof -
  have "same_area off n dev dev'"
  proof (cases "dev' = dev")
    case False
    from run obtain suffix where sfx: "SlotSuffixForSlotNumber slot = Inr suffix"
      by (auto simp: UpdatePartitionTable_def run_simps)
    from run sfx obtain v where v: "ValidateAndSerializeMetadata sha m suffix = Inr v"
      by (auto simp: UpdatePartitionTable_def run_simps)
    with run sfx False obtain blob where b: "v = Some blob" by (cases v) (auto simp: UpdatePartitionTable_def)
    from run sfx v b obtain geo where geo: "ReadLogicalPartitionGeometry sha dev = Inr geo"
      by (auto simp: UpdatePartitionTable_def run_simps)
    from run sfx v b geo False obtain g' where g: "geo = Some g'" "CompareGeometry (m_geometry m) g'"
      "\<not> slot \<ge> g_metadata_slot_count (m_geometry m)"
      by (cases geo) (auto simp: UpdatePartitionTable_def Let_def split: if_splits)
    from run sfx v b geo g obtain primary backup ok1 dev1 where
      prim: "ReadPrimaryMetadata sha dev (m_geometry m) slot = Inr primary" and
      bkp: "ReadBackupMetadata sha dev (m_geometry m) slot = Inr backup" and
      s: "sync_copies sha w dev m slot suffix primary backup = Inr (ok1, dev1)" and
      r: "(if ok1 then WriteMetadata w dev1 m slot blob else Inr (False, dev1)) = Inr (ok, dev')"
      by (auto simp: UpdatePartitionTable_def Let_def and_then_def run_simps split: prod.splits)
    have "m_geometry x = m_geometry m" if "primary = Some x \<or> backup = Some x" for x
      using that prim bkp unfolding read_copies[OF ex]
      by (auto simp: ParseMetadataAt_def SeekFile64_def dest: parsed_geometry split: if_splits)
    from sync_copies_frame[OF ex w out this s] have "same_area off n dev dev1" by simp
    moreover have "same_area off n dev1 dev'"
      using r WriteMetadata_frame[OF ex w ValidateAndSerializeMetadata_Some(2)[OF v[unfolded b]] out]
      by (auto split: if_splits)
    ultimately show ?thesis by (rule same_area_trans)
  qed simp
  then show ?thesis by (simp add: same_area_def)
qed

end
