(* ===== verification/LpExtent.thy ===== *)
theory LpExtent imports LpUtility begin

text \<open>
  The in-memory objects of \<open>fs_mgr/liblp/builder.h\<close> and \<open>builder.cpp\<close> that the metadata
  builder works on: extents (\<open>LinearExtent\<close>, \<open>ZeroExtent\<close>), intervals, partition groups and
  the \<open>Partition\<close> class with its extent list and its byte count \<open>size_\<close>.
\<close>

section \<open>Extents and intervals\<close>

datatype Extent =
    LinearExtent (num_sectors: u64) (device_index: u32) (physical_sector: u64)
  | ZeroExtent (num_sectors: u64)

fun is_linear :: "Extent \<Rightarrow> bool" where
  "is_linear (LinearExtent _ _ _) = True"
| "is_linear (ZeroExtent _) = False"

fun set_num_sectors :: "u64 \<Rightarrow> Extent \<Rightarrow> Extent" where
  "set_num_sectors n (LinearExtent _ d p) = LinearExtent n d p"
| "set_num_sectors n (ZeroExtent _) = ZeroExtent n"

definition end_sector :: "Extent \<Rightarrow> u64" where
  "end_sector e = physical_sector e + num_sectors e"

record Interval =
  iv_device_index :: u32
  iv_start :: u64
  iv_end :: u64

definition mk_interval :: "u32 \<Rightarrow> u64 \<Rightarrow> u64 \<Rightarrow> Interval" where
  "mk_interval d s e = \<lparr>iv_device_index = d, iv_start = s, iv_end = e\<rparr>"

definition iv_length :: "Interval \<Rightarrow> u64" where
  "iv_length i = iv_end i - iv_start i"

definition OverlapsWith :: "Extent \<Rightarrow> Extent \<Rightarrow> bool" where
  "OverlapsWith e other \<longleftrightarrow> device_index e = device_index other \<and>
     physical_sector e < end_sector other \<and> physical_sector other < end_sector e"

definition OverlapsWithInterval :: "Extent \<Rightarrow> Interval \<Rightarrow> bool" where
  "OverlapsWithInterval e i \<longleftrightarrow> device_index e = iv_device_index i \<and>
     physical_sector e < iv_end i \<and> iv_start i < end_sector e"

definition AsInterval :: "Extent \<Rightarrow> Interval" where
  "AsInterval e = mk_interval (device_index e) (physical_sector e) (end_sector e)"

definition AsExtent :: "Interval \<Rightarrow> Extent" where
  "AsExtent i = LinearExtent (iv_length i) (iv_device_index i) (iv_start i)"

text \<open>\<open>operator==\<close> of the two extent classes.\<close>

fun extent_eq :: "Extent \<Rightarrow> Extent \<Rightarrow> bool" where
  "extent_eq (LinearExtent n d p) (LinearExtent n' d' p') = (n = n' \<and> p = p' \<and> d = d')"
| "extent_eq (ZeroExtent n) (ZeroExtent n') = (n = n')"
| "extent_eq _ _ = False"

lemma extent_eq_iff [simp]: "extent_eq e e' \<longleftrightarrow> e = e'"
  by (cases e; cases e') auto

text \<open>\<open>AddTo\<close>: the extent as an entry of the metadata's extent table.\<close>

definition AddTo :: "Extent \<Rightarrow> LpMetadata \<Rightarrow> LpMetadata option" where
  "AddTo e out =
     (case e of
        LinearExtent n d p \<Rightarrow>
          if \<not> unat d < length (m_block_devices out) then None
          else Some (out\<lparr>m_extents := m_extents out @
                 [\<lparr>e_num_sectors = n, e_target_type = LP_TARGET_TYPE_LINEAR,
                   e_target_data = p, e_target_source = d\<rparr>]\<rparr>)
      | ZeroExtent n \<Rightarrow>
          Some (out\<lparr>m_extents := m_extents out @
                 [\<lparr>e_num_sectors = n, e_target_type = LP_TARGET_TYPE_ZERO,
                   e_target_data = 0, e_target_source = 0\<rparr>]\<rparr>))"

text \<open>
  \<open>Interval::Intersect\<close>: no intersection is a result of length 0.
\<close>

definition Intersect :: "Interval \<Rightarrow> Interval \<Rightarrow> Interval" where
  "Intersect a b =
     (if iv_device_index a \<noteq> iv_device_index b
      then a\<lparr>iv_start := iv_start a, iv_end := iv_start a\<rparr>
      else let s = max (iv_start a) (iv_start b)
           in a\<lparr>iv_start := s, iv_end := max s (min (iv_end a) (iv_end b))\<rparr>)"

definition IntersectLists :: "Interval list \<Rightarrow> Interval list \<Rightarrow> Interval list" where
  "IntersectLists as bs =
     concat (map (\<lambda>a. filter (\<lambda>i. iv_length i > 0) (map (Intersect a) bs)) as)"

section \<open>The sectors an extent or an interval stands for\<close>

definition interval_sectors :: "Interval \<Rightarrow> (u32 \<times> nat) set" where
  "interval_sectors i = {iv_device_index i} \<times> {unat (iv_start i)..<unat (iv_end i)}"

fun extent_sectors :: "Extent \<Rightarrow> (u32 \<times> nat) set" where
  "extent_sectors (LinearExtent n d p) = {d} \<times> {unat p..<unat p + unat n}"
| "extent_sectors (ZeroExtent n) = {}"

text \<open>
  Sectors are counted in 512-byte units of a device whose size in bytes fits 64 bits, so
  a sector number that occurs is below \<open>2 ^ 55\<close>; then neither \<open>end_sector\<close> nor the byte
  address of a sector wraps.
\<close>

definition addressable :: "Extent \<Rightarrow> bool" where
  "addressable e \<longleftrightarrow>
     (is_linear e \<longrightarrow> unat (physical_sector e) + unat (num_sectors e) < 2 ^ 55)"

lemma unat_end_sector:
  "addressable e \<Longrightarrow> is_linear e \<Longrightarrow>
   unat (end_sector e) = unat (physical_sector e) + unat (num_sectors e)"
  unfolding end_sector_def addressable_def by (intro unat_add_small) simp

lemma extent_sectors_AsInterval:
  assumes "addressable e" "is_linear e"
  shows "extent_sectors e = interval_sectors (AsInterval e)"
proof -
  from assms(2) obtain n d p where e: "e = LinearExtent n d p" by (cases e) auto
  show ?thesis
    using unat_end_sector[OF assms]
    by (simp add: e interval_sectors_def AsInterval_def mk_interval_def)
qed

lemma Intersect_sectors:
  "interval_sectors (Intersect a b) = interval_sectors a \<inter> interval_sectors b"
  by (auto simp: Intersect_def interval_sectors_def Let_def max_def min_def word_le_nat_alt
      split: if_splits)

lemma Intersect_device [simp]: "iv_device_index (Intersect a b) = iv_device_index a"
  by (simp add: Intersect_def Let_def)

lemma Intersect_start_le_end: "iv_start (Intersect a b) \<le> iv_end (Intersect a b)"
  by (simp add: Intersect_def Let_def)

lemma IntersectLists_mem:
  assumes "i \<in> set (IntersectLists as bs)"
  obtains a b where "a \<in> set as" "b \<in> set bs" "i = Intersect a b"
  using assms by (auto simp: IntersectLists_def)

text \<open>
  The intersection of two lists of regions covers what both cover, and nothing else.
\<close>

lemma interval_sectors_empty:
  "iv_start i \<le> iv_end i \<Longrightarrow> \<not> iv_length i > 0 \<Longrightarrow> interval_sectors i = {}"
  by (auto simp: iv_length_def interval_sectors_def word_le_nat_alt word_gt_0 eq_iff_diff_eq_0[symmetric])

lemma IntersectLists_sectors:
  "(\<Union>i\<in>set (IntersectLists as bs). interval_sectors i) =
   (\<Union>a\<in>set as. interval_sectors a) \<inter> (\<Union>b\<in>set bs. interval_sectors b)"
proof -
  have "(\<Union>i\<in>set (IntersectLists as bs). interval_sectors i) =
      (\<Union>a\<in>set as. \<Union>b\<in>set bs. interval_sectors (Intersect a b))"
  proof (intro subset_antisym subsetI)
    fix x assume "x \<in> (\<Union>i\<in>set (IntersectLists as bs). interval_sectors i)"
    then show "x \<in> (\<Union>a\<in>set as. \<Union>b\<in>set bs. interval_sectors (Intersect a b))"
      by (auto elim!: IntersectLists_mem)
  next
    fix x assume "x \<in> (\<Union>a\<in>set as. \<Union>b\<in>set bs. interval_sectors (Intersect a b))"
    then obtain a b where ab: "a \<in> set as" "b \<in> set bs" "x \<in> interval_sectors (Intersect a b)"
      by auto
    then have "iv_length (Intersect a b) > 0"
      using interval_sectors_empty[OF Intersect_start_le_end] by blast
    with ab show "x \<in> (\<Union>i\<in>set (IntersectLists as bs). interval_sectors i)"
      by (auto simp: IntersectLists_def)
  qed
  then show ?thesis by (auto simp: Intersect_sectors)
qed

end
