(* ===== verification/LpPartition.thy ===== *)
theory LpPartition imports LpExtent begin

text \<open>
  The \<open>Partition\<close> and \<open>PartitionGroup\<close> classes of \<open>builder.cpp\<close>. The abstract view of a
  partition is its layout: for each of its 512-byte logical sectors, in order, the physical
  sector it is stored on (\<open>None\<close> in a zero extent). Adding an extent appends to the layout,
  shrinking keeps a prefix.
\<close>

record Partition =
  pt_name :: string
  pt_group_name :: string
  pt_extents :: "Extent list"
  pt_attributes :: u32
  pt_size :: u64

record PartitionGroup =
  pg_name :: string
  pg_maximum_size :: u64

definition new_partition :: "string \<Rightarrow> string \<Rightarrow> u32 \<Rightarrow> Partition" where
  "new_partition name group_name attributes =
     \<lparr>pt_name = name, pt_group_name = group_name, pt_extents = [],
      pt_attributes = attributes, pt_size = 0\<rparr>"

text \<open>
  The extent list after \<open>AddExtent\<close>: a linear extent that starts where the last one ends,
  on the same device, is merged into it.
\<close>

definition append_extent :: "Extent list \<Rightarrow> Extent \<Rightarrow> Extent list" where
  "append_extent es e =
     (if is_linear e \<and> es \<noteq> [] \<and> is_linear (last es) \<and>
         end_sector (last es) = physical_sector e \<and> device_index (last es) = device_index e
      then butlast es @
           [LinearExtent (num_sectors (last es) + num_sectors e) (device_index (last es))
              (physical_sector (last es))]
      else es @ [e])"

definition AddExtent :: "Partition \<Rightarrow> Extent \<Rightarrow> Partition" where
  "AddExtent p e =
     p\<lparr>pt_size := pt_size p + num_sectors e * LP_SECTOR_SIZE,
       pt_extents := append_extent (pt_extents p) e\<rparr>"

definition RemoveExtents :: "Partition \<Rightarrow> Partition" where
  "RemoveExtents p = p\<lparr>pt_size := 0, pt_extents := []\<rparr>"

text \<open>
  The \<open>while (sectors_to_remove)\<close> loop of \<open>ShrinkTo\<close>, on the extent list from its back;
  \<open>back()\<close> of an empty vector is an access out of range.
\<close>

fun shrink_loop :: "u64 \<Rightarrow> Extent list \<Rightarrow> u64 \<Rightarrow> (Extent list \<times> u64) run" where
  "shrink_loop sectors_to_remove [] bytes =
     (if sectors_to_remove = 0 then Inr ([], bytes) else Inl OutOfRange)"
| "shrink_loop sectors_to_remove (e # es) bytes =
     (if sectors_to_remove = 0 then Inr (e # es, bytes)
      else if num_sectors e > sectors_to_remove
      then Inr (set_num_sectors (num_sectors e - sectors_to_remove) e # es,
                bytes - sectors_to_remove * LP_SECTOR_SIZE)
      else shrink_loop (sectors_to_remove - num_sectors e) es
             (bytes - num_sectors e * LP_SECTOR_SIZE))"

definition ShrinkTo :: "Partition \<Rightarrow> u64 \<Rightarrow> Partition run" where
  "ShrinkTo p aligned_size =
     (if aligned_size = 0 then Inr (RemoveExtents p)
      else bind_run (shrink_loop ((pt_size p - aligned_size) div LP_SECTOR_SIZE)
                       (rev (pt_extents p)) (pt_size p)) (\<lambda>(es, bytes).
             Inr (p\<lparr>pt_extents := rev es, pt_size := bytes\<rparr>)))"

definition GetBeginningExtents :: "Partition \<Rightarrow> u64 \<Rightarrow> Partition run" where
  "GetBeginningExtents p aligned_size =
     ShrinkTo (foldl AddExtent (new_partition (pt_name p) (pt_group_name p) (pt_attributes p))
                 (pt_extents p)) aligned_size"

definition BytesOnDisk :: "Partition \<Rightarrow> u64" where
  "BytesOnDisk p =
     foldl (\<lambda>sectors e. if is_linear e then sectors + num_sectors e else sectors) 0 (pt_extents p)
     * LP_SECTOR_SIZE"

section \<open>Layout and size invariant\<close>

fun extent_layout :: "Extent \<Rightarrow> (u32 \<times> nat) option list" where
  "extent_layout (LinearExtent n d p) = map (\<lambda>i. Some (d, i)) [unat p..<unat p + unat n]"
| "extent_layout (ZeroExtent n) = replicate (unat n) None"

definition layout :: "Extent list \<Rightarrow> (u32 \<times> nat) option list" where
  "layout es = concat (map extent_layout es)"

definition total_sectors :: "Extent list \<Rightarrow> nat" where
  "total_sectors es = sum_list (map (\<lambda>e. unat (num_sectors e)) es)"

definition linear_sectors :: "Extent list \<Rightarrow> nat" where
  "linear_sectors es = sum_list (map (\<lambda>e. unat (num_sectors e)) (filter is_linear es))"

text \<open>
  \<open>size_\<close> is the byte count of the extents, which fits 64 bits.
\<close>

definition partition_ok :: "Partition \<Rightarrow> bool" where
  "partition_ok p \<longleftrightarrow>
     total_sectors (pt_extents p) < 2 ^ 55 \<and>
     unat (pt_size p) = total_sectors (pt_extents p) * 512 \<and>
     list_all addressable (pt_extents p)"

text \<open>No two neighbouring extents that \<open>AddExtent\<close> would have merged.\<close>

definition mergeable :: "Extent \<Rightarrow> Extent \<Rightarrow> bool" where
  "mergeable e e' \<longleftrightarrow> is_linear e \<and> is_linear e' \<and>
     end_sector e = physical_sector e' \<and> device_index e = device_index e'"

definition merged :: "Extent list \<Rightarrow> bool" where
  "merged es \<longleftrightarrow> (\<forall>i<length es - 1. \<not> mergeable (es ! i) (es ! Suc i))"

lemma layout_simps [simp]:
  "layout [] = []" "layout (e # es) = extent_layout e @ layout es"
  "layout (es @ es') = layout es @ layout es'"
  by (simp_all add: layout_def)

lemma total_sectors_simps [simp]:
  "total_sectors [] = 0"
  "total_sectors (e # es) = unat (num_sectors e) + total_sectors es"
  "total_sectors (es @ es') = total_sectors es + total_sectors es'"
  "total_sectors (rev es) = total_sectors es"
  by (simp_all add: total_sectors_def rev_map[symmetric])

lemma length_extent_layout [simp]: "length (extent_layout e) = unat (num_sectors e)"
  by (cases e) simp_all

lemma length_layout [simp]: "length (layout es) = total_sectors es"
  by (induction es) simp_all

lemma set_extent_layout: "Some ` extent_sectors e \<subseteq> set (extent_layout e)"
  by (cases e) auto

lemma extent_layout_merge:
  assumes "addressable a" "is_linear a" "is_linear b" "unat (num_sectors a) + unat (num_sectors b) < 2 ^ 64"
    and "end_sector a = physical_sector b" "device_index a = device_index b"
  shows "extent_layout (LinearExtent (num_sectors a + num_sectors b) (device_index a) (physical_sector a))
    = extent_layout a @ extent_layout b"
proof -
  obtain n d p where a: "a = LinearExtent n d p" using assms(2) by (cases a) auto
  obtain n' d' p' where b: "b = LinearExtent n' d' p'" using assms(3) by (cases b) auto
  have u: "unat (n + n') = unat n + unat n'"
    using assms(4) by (simp add: a b unat_add_small)
  have "unat p' = unat p + unat n" "d' = d"
    using unat_end_sector[OF assms(1,2)] assms(5,6) by (simp_all add: a b)
  moreover have "[unat p..<unat p + unat n + unat n'] =
      [unat p..<unat p + unat n] @ [unat p + unat n..<unat p + unat n + unat n']"
    by (rule upt_add_eq_append) simp
  ultimately show ?thesis by (simp add: a b u flip: add.assoc map_append)
qed

lemma append_extent_layout:
  assumes "list_all addressable es" "total_sectors es + unat (num_sectors e) < 2 ^ 55"
  shows "layout (append_extent es e) = layout es @ extent_layout e"
proof (cases "is_linear e \<and> es \<noteq> [] \<and> is_linear (last es) \<and>
         end_sector (last es) = physical_sector e \<and> device_index (last es) = device_index e")
  case True
  then have es: "es = butlast es @ [last es]" by simp
  have "unat (num_sectors (last es)) \<le> total_sectors es"
    by (subst es) (simp del: append_butlast_last_id)
  moreover have "addressable (last es)"
    using True assms(1) by (simp add: list_all_iff)
  ultimately have "extent_layout (LinearExtent (num_sectors (last es) + num_sectors e)
      (device_index (last es)) (physical_sector (last es))) = extent_layout (last es) @ extent_layout e"
    using True assms(2) by (intro extent_layout_merge) auto
  moreover have "layout es = layout (butlast es) @ extent_layout (last es)"
    by (subst es) (simp del: append_butlast_last_id)
  ultimately show ?thesis using True by (simp add: append_extent_def)
next
  case False
  then show ?thesis unfolding append_extent_def if_not_P[OF False] by simp
qed

lemma append_extent_total:
  assumes "list_all addressable es" "total_sectors es + unat (num_sectors e) < 2 ^ 55"
  shows "total_sectors (append_extent es e) = total_sectors es + unat (num_sectors e)"
  using append_extent_layout[OF assms] by (metis length_append length_extent_layout length_layout)

lemma addressable_merge:
  assumes "addressable a" "addressable b" "is_linear a" "is_linear b"
    and "end_sector a = physical_sector b"
  shows "addressable (LinearExtent (num_sectors a + num_sectors b) d (physical_sector a))"
proof -
  have e: "unat (physical_sector b) = unat (physical_sector a) + unat (num_sectors a)"
    using unat_end_sector[OF assms(1,3)] assms(5) by simp
  with assms(2,4) have lt: "unat (physical_sector a) + unat (num_sectors a) + unat (num_sectors b) < 2 ^ 55"
    by (simp add: addressable_def)
  then have "unat (num_sectors a + num_sectors b) = unat (num_sectors a) + unat (num_sectors b)"
    by (intro unat_add_small) simp
  with lt show ?thesis by (simp add: addressable_def)
qed

lemma append_extent_addressable:
  assumes "list_all addressable es" "addressable e"
  shows "list_all addressable (append_extent es e)"
  using assms addressable_merge[of "last es" e]
  by (auto simp: append_extent_def list_all_iff dest: in_set_butlastD)

section \<open>Adding and shrinking\<close>

lemma AddExtent_fields [simp]:
  "pt_name (AddExtent p e) = pt_name p" "pt_group_name (AddExtent p e) = pt_group_name p"
  "pt_attributes (AddExtent p e) = pt_attributes p"
  "pt_extents (AddExtent p e) = append_extent (pt_extents p) e"
  by (simp_all add: AddExtent_def)

lemma unat_sectors_bytes:
  "unat (n :: u64) < 2 ^ 55 \<Longrightarrow> unat (n * LP_SECTOR_SIZE) = unat n * 512"
  unfolding LP_SECTOR_SIZE_def by (subst unat_mult_small) auto

lemma partition_ok_AddExtent:
  assumes "partition_ok p" "addressable e"
    and "total_sectors (pt_extents p) + unat (num_sectors e) < 2 ^ 55"
  shows "partition_ok (AddExtent p e)"
proof -
  have es: "list_all addressable (pt_extents p)"
    and sz: "unat (pt_size p) = total_sectors (pt_extents p) * 512"
    using assms(1) by (auto simp: partition_ok_def)
  have n: "unat (num_sectors e * LP_SECTOR_SIZE) = unat (num_sectors e) * 512"
    using assms(3) by (intro unat_sectors_bytes) simp
  have "unat (pt_size p + num_sectors e * LP_SECTOR_SIZE) =
      unat (pt_size p) + unat (num_sectors e * LP_SECTOR_SIZE)"
    using assms(3) by (intro unat_add_small) (simp add: n sz)
  then show ?thesis
    using es assms(2,3) append_extent_addressable[OF es assms(2)] append_extent_total[OF es assms(3)]
    by (simp add: partition_ok_def AddExtent_def n sz)
qed

lemma partition_layout_AddExtent:
  assumes "partition_ok p" "total_sectors (pt_extents p) + unat (num_sectors e) < 2 ^ 55"
  shows "layout (pt_extents (AddExtent p e)) = layout (pt_extents p) @ extent_layout e"
  using assms by (simp add: partition_ok_def append_extent_layout)

lemma foldl_AddExtent:
  assumes "partition_ok p" "list_all addressable es"
    and "total_sectors (pt_extents p) + total_sectors es < 2 ^ 55"
  shows "partition_ok (foldl AddExtent p es) \<and>
    layout (pt_extents (foldl AddExtent p es)) = layout (pt_extents p) @ layout es \<and>
    pt_name (foldl AddExtent p es) = pt_name p \<and>
    pt_group_name (foldl AddExtent p es) = pt_group_name p \<and>
    pt_attributes (foldl AddExtent p es) = pt_attributes p"
  using assms
proof (induction es arbitrary: p)
  case Nil
  then show ?case by simp
next
  case (Cons e es)
  have lt: "total_sectors (pt_extents p) + unat (num_sectors e) < 2 ^ 55"
    using Cons.prems(3) by simp
  have ok: "partition_ok (AddExtent p e)"
    using Cons.prems lt by (intro partition_ok_AddExtent) auto
  have lay: "layout (pt_extents (AddExtent p e)) = layout (pt_extents p) @ extent_layout e"
    using Cons.prems(1) lt by (rule partition_layout_AddExtent)
  then have "total_sectors (pt_extents (AddExtent p e)) =
      total_sectors (pt_extents p) + unat (num_sectors e)"
    by (metis length_append length_extent_layout length_layout)
  then show ?case
    using Cons.IH[OF ok] Cons.prems lay by simp
qed

lemma set_num_sectors_layout:
  assumes "k \<le> num_sectors e"
  shows "extent_layout (set_num_sectors k e) = take (unat k) (extent_layout e)"
proof (cases e)
  case (LinearExtent n d p)
  then have "unat k \<le> unat n" using assms by (simp add: word_le_nat_alt)
  then have "take (unat k) [unat p..<unat p + unat n] = [unat p..<unat p + unat k]"
    by (simp add: min_def)
  then show ?thesis by (simp add: LinearExtent take_map del: take_upt)
next
  case (ZeroExtent n)
  then have "unat k \<le> unat n" using assms by (simp add: word_le_nat_alt)
  then show ?thesis by (simp add: ZeroExtent min_def)
qed

lemma set_num_sectors_fields [simp]:
  "num_sectors (set_num_sectors k e) = k" "is_linear (set_num_sectors k e) = is_linear e"
  "is_linear e \<Longrightarrow> device_index (set_num_sectors k e) = device_index e"
  "is_linear e \<Longrightarrow> physical_sector (set_num_sectors k e) = physical_sector e"
  by (cases e; simp)+

lemma addressable_set_num_sectors:
  "addressable e \<Longrightarrow> k \<le> num_sectors e \<Longrightarrow> addressable (set_num_sectors k e)"
  by (auto simp: addressable_def word_le_nat_alt)

text \<open>
  What every step of \<open>ShrinkTo\<close> does to an extent list (given from its back): whole extents go,
  and at most one is cut to a shorter, non-empty one.
\<close>

inductive cut_back :: "Extent list \<Rightarrow> Extent list \<Rightarrow> bool" where
  cut_none: "cut_back es es"
| cut_whole: "cut_back es es' \<Longrightarrow> cut_back (e # es) es'"
| cut_part: "0 < k \<Longrightarrow> k < num_sectors e \<Longrightarrow> cut_back (e # es) (set_num_sectors k e # es)"

lemma cut_back_mem:
  assumes "cut_back es es'" "e' \<in> set es'"
  shows "e' \<in> set es \<or> (\<exists>e\<in>set es. \<exists>k. 0 < k \<and> k < num_sectors e \<and> e' = set_num_sectors k e)"
  using assms by (induction) auto

lemma shrink_loop_spec:
  assumes "unat rem \<le> total_sectors es" "total_sectors es < 2 ^ 55"
    and "unat bytes = total_sectors es * 512"
  shows "\<exists>es' bytes'. shrink_loop rem es bytes = Inr (es', bytes')
    \<and> layout (rev es') = take (total_sectors es - unat rem) (layout (rev es))
    \<and> unat bytes' = (total_sectors es - unat rem) * 512 \<and> cut_back es es'"
  using assms
proof (induction es arbitrary: rem bytes)
  case Nil
  then have "rem = 0" by (simp add: unat_eq_zero)
  with Nil show ?case by (auto intro: cut_none)
next
  case (Cons e es)
  show ?case
  proof (cases "rem = 0")
    case True
    then show ?thesis using Cons.prems by (auto intro: cut_none)
  next
    case nz: False
    show ?thesis
    proof (cases "num_sectors e > rem")
      case True
      let ?k = "num_sectors e - rem"
      have lt: "unat rem < unat (num_sectors e)" using True by (simp add: word_less_nat_alt)
      have uk: "unat ?k = unat (num_sectors e) - unat rem" using lt by (intro unat_sub_small) simp
      have "unat (rem * LP_SECTOR_SIZE) = unat rem * 512"
        using Cons.prems(1,2) by (intro unat_sectors_bytes) simp
      then have ub: "unat (bytes - rem * LP_SECTOR_SIZE) = unat bytes - unat rem * 512"
        using Cons.prems(1,3) by (subst unat_sub_small) auto
      have "rem > 0" using nz by (simp add: word_gt_0)
      then have cut: "cut_back (e # es) (set_num_sectors ?k e # es)"
        using uk lt nz by (intro cut_part) (auto simp: word_less_nat_alt)
      have "?k \<le> num_sectors e" using uk by (simp add: word_le_nat_alt)
      then have "extent_layout (set_num_sectors ?k e) = take (unat ?k) (extent_layout e)"
        by (rule set_num_sectors_layout)
      then have "layout (rev (set_num_sectors ?k e # es)) =
          take (total_sectors (e # es) - unat rem) (layout (rev (e # es)))"
        using lt uk by (simp add: take_all)
      then show ?thesis
        using True nz ub Cons.prems(3) cut by (auto simp: diff_mult_distrib)
    next
      case False
      then have le: "unat (num_sectors e) \<le> unat rem" by (simp add: word_le_nat_alt not_less)
      have ur: "unat (rem - num_sectors e) = unat rem - unat (num_sectors e)"
        using le by (rule unat_sub_small)
      have "unat (num_sectors e * LP_SECTOR_SIZE) = unat (num_sectors e) * 512"
        using Cons.prems(2) by (intro unat_sectors_bytes) simp
      then have ub: "unat (bytes - num_sectors e * LP_SECTOR_SIZE) = total_sectors es * 512"
        using Cons.prems(3) by (subst unat_sub_small) auto
      have "\<exists>es' bytes'. shrink_loop (rem - num_sectors e) es (bytes - num_sectors e * LP_SECTOR_SIZE)
            = Inr (es', bytes')
        \<and> layout (rev es') = take (total_sectors es - unat (rem - num_sectors e)) (layout (rev es))
        \<and> unat bytes' = (total_sectors es - unat (rem - num_sectors e)) * 512 \<and> cut_back es es'"
        using Cons.prems ub ur le by (intro Cons.IH) auto
      moreover have "total_sectors es - (unat rem - unat (num_sectors e)) =
          total_sectors (e # es) - unat rem"
        using le by simp
      ultimately show ?thesis
        using False nz ur Cons.prems(1) by (auto intro: cut_whole)
    qed
  qed
qed

text \<open>
  \<open>ShrinkTo\<close> to a smaller multiple of the sector size succeeds and keeps the first
  \<open>aligned_size / 512\<close> sectors of the layout.
\<close>

lemma ShrinkTo_spec:
  assumes ok: "partition_ok p" and le: "aligned_size \<le> pt_size p"
    and dvd: "512 dvd unat aligned_size"
  shows "\<exists>p'. ShrinkTo p aligned_size = Inr p'
    \<and> layout (pt_extents p') = take (unat aligned_size div 512) (layout (pt_extents p))
    \<and> pt_size p' = aligned_size \<and> cut_back (rev (pt_extents p)) (rev (pt_extents p'))
    \<and> pt_name p' = pt_name p \<and> pt_group_name p' = pt_group_name p
    \<and> pt_attributes p' = pt_attributes p"
proof (cases "aligned_size = 0")
  case True
  have "cut_back es []" for es by (induction es) (auto intro: cut_back.intros)
  with True show ?thesis by (simp add: ShrinkTo_def RemoveExtents_def)
next
  case False
  let ?t = "total_sectors (pt_extents p)"
  have t: "?t < 2 ^ 55" "unat (pt_size p) = ?t * 512"
    using ok by (auto simp: partition_ok_def)
  obtain k where k: "unat aligned_size = 512 * k" using dvd by blast
  have kt: "k \<le> ?t" using le t(2) k by (simp add: word_le_nat_alt)
  have u: "unat ((pt_size p - aligned_size) div LP_SECTOR_SIZE) = ?t - k"
    using le k t by (simp add: unat_div LP_SECTOR_SIZE_def unat_sub_small word_le_nat_alt)
  from shrink_loop_spec[of "(pt_size p - aligned_size) div LP_SECTOR_SIZE" "rev (pt_extents p)" "pt_size p"]
  obtain es' bytes' where s:
    "shrink_loop ((pt_size p - aligned_size) div LP_SECTOR_SIZE) (rev (pt_extents p)) (pt_size p)
       = Inr (es', bytes')"
    "layout (rev es') = take (?t - (?t - k)) (layout (pt_extents p))"
    "unat bytes' = (?t - (?t - k)) * 512" "cut_back (rev (pt_extents p)) es'"
    using u t by auto
  have "bytes' = aligned_size" using s(3) kt k by (simp add: word_unat_eq_iff)
  then show ?thesis
    using s False kt k by (simp add: ShrinkTo_def)
qed

section \<open>Physical sectors\<close>

text \<open>The physical sectors of an extent list, with repetition, in logical order.\<close>

definition phys :: "Extent list \<Rightarrow> (u32 \<times> nat) list" where
  "phys es = map the (filter (\<lambda>x. x \<noteq> None) (layout es))"

lemma phys_simps [simp]:
  "phys [] = []" "phys (es @ es') = phys es @ phys es'"
  "phys (LinearExtent n d p # es) = map (Pair d) [unat p..<unat p + unat n] @ phys es"
  "phys (ZeroExtent n # es) = phys es"
  by (simp_all add: phys_def filter_map comp_def)

lemma set_phys: "set (phys es) = (\<Union>e\<in>set es. extent_sectors e)"
proof (induction es)
  case Nil
  then show ?case by simp
next
  case (Cons e es)
  then show ?case by (cases e) auto
qed

lemma phys_layout_append: "layout es = layout es1 @ layout es2 \<Longrightarrow> phys es = phys es1 @ phys es2"
  by (simp add: phys_def)

lemma phys_take_prefix:
  assumes "layout es' = take n (layout es)"
  shows "\<exists>rest. phys es = phys es' @ rest"
proof -
  have "layout es = layout es' @ drop n (layout es)" using assms by simp
  then have "phys es = phys es' @ map the (filter (\<lambda>x. x \<noteq> None) (drop n (layout es)))"
    by (metis phys_def filter_append map_append)
  then show ?thesis by blast
qed

end
