(* ===== verification/LpBuilder.thy ===== *)
theory LpBuilder imports LpPartition begin

text \<open>
  \<open>class MetadataBuilder\<close> of \<open>fs_mgr/liblp/builder.cpp\<close>: its state and its operations on
  groups, partitions and block devices, and its two \<open>Init\<close> functions. Allocation is in
  \<open>LpAlloc\<close>, \<open>Export\<close> in \<open>LpExport\<close>. A \<open>Partition*\<close> handed to an operation is the
  position of the partition in \<open>partitions_\<close>.
\<close>

section \<open>System properties\<close>

text \<open>
  \<open>property_fetcher.cpp\<close> over the libbase functions it calls. The property store is a
  function from keys to values, the empty string standing for a property that is not set.
\<close>

type_synonym props = "string \<Rightarrow> string"

definition GetProperty :: "props \<Rightarrow> string \<Rightarrow> string \<Rightarrow> string" where
  "GetProperty store key default_value =
     (if store key = [] then default_value else store key)"

datatype ParseBoolResult = kError | kFalse | kTrue

definition ParseBool :: "string \<Rightarrow> ParseBoolResult" where
  "ParseBool s =
     (if s = ''1'' \<or> s = ''y'' \<or> s = ''yes'' \<or> s = ''on'' \<or> s = ''true'' then kTrue
      else if s = ''0'' \<or> s = ''n'' \<or> s = ''no'' \<or> s = ''off'' \<or> s = ''false'' then kFalse
      else kError)"

definition GetBoolProperty :: "props \<Rightarrow> string \<Rightarrow> bool \<Rightarrow> bool" where
  "GetBoolProperty store key default_value =
     (case ParseBool (GetProperty store key []) of
        kError \<Rightarrow> default_value | kFalse \<Rightarrow> False | kTrue \<Rightarrow> True)"

section \<open>State\<close>

definition kDefaultGroup :: string where "kDefaultGroup = ''default''"

record BlockDeviceInfo =
  di_size :: u64
  di_alignment :: u32
  di_alignment_offset :: u32
  di_logical_block_size :: u32
  di_partition_name :: string

record MetadataBuilder =
  b_geometry :: LpMetadataGeometry
  b_header :: LpMetadataHeader
  b_partitions :: "Partition list"
  b_groups :: "PartitionGroup list"
  b_block_devices :: "LpMetadataBlockDevice list"
  b_auto_slot_suffixing :: bool

definition table_desc :: "u32 \<Rightarrow> u32 \<Rightarrow> u32 \<Rightarrow> LpMetadataTableDescriptor" where
  "table_desc offset num_entries entry_size =
     \<lparr>td_offset = offset, td_num_entries = num_entries, td_entry_size = entry_size\<rparr>"

text \<open>The constructor \<open>MetadataBuilder::MetadataBuilder()\<close>.\<close>

definition empty_builder :: MetadataBuilder where
  "empty_builder = \<lparr>
     b_geometry = \<lparr>g_magic = LP_METADATA_GEOMETRY_MAGIC, g_struct_size = of_nat sizeof_geometry,
       g_checksum = replicate 32 0, g_metadata_max_size = 0, g_metadata_slot_count = 0,
       g_logical_block_size = 0\<rparr>,
     b_header = \<lparr>h_magic = LP_METADATA_HEADER_MAGIC,
       h_major_version = LP_METADATA_MAJOR_VERSION,
       h_minor_version = LP_METADATA_MINOR_VERSION_MIN,
       h_header_size = of_nat sizeof_header_v1_0,
       h_header_checksum = replicate 32 0, h_tables_size = 0,
       h_tables_checksum = replicate 32 0,
       h_partitions = table_desc 0 0 (of_nat sizeof_partition),
       h_extents = table_desc 0 0 (of_nat sizeof_extent),
       h_groups = table_desc 0 0 (of_nat sizeof_group),
       h_block_devices = table_desc 0 0 (of_nat sizeof_block_device),
       h_flags = 0, h_reserved = replicate 124 0\<rparr>,
     b_partitions = [], b_groups = [], b_block_devices = [], b_auto_slot_suffixing = False\<rparr>"

section \<open>Groups and partitions\<close>

definition FindGroup :: "MetadataBuilder \<Rightarrow> string \<Rightarrow> nat option" where
  "FindGroup b name = find_index (\<lambda>g. pg_name g = name) (b_groups b)"

definition FindPartitionB :: "MetadataBuilder \<Rightarrow> string \<Rightarrow> nat option" where
  "FindPartitionB b name = find_index (\<lambda>p. pt_name p = name) (b_partitions b)"

definition AddGroup :: "MetadataBuilder \<Rightarrow> string \<Rightarrow> u64 \<Rightarrow> MetadataBuilder option" where
  "AddGroup b name maximum_size =
     (if FindGroup b name \<noteq> None then None
      else Some (b\<lparr>b_groups := b_groups b @ [\<lparr>pg_name = name, pg_maximum_size = maximum_size\<rparr>]\<rparr>))"

definition AddPartition ::
  "MetadataBuilder \<Rightarrow> string \<Rightarrow> string \<Rightarrow> u32 \<Rightarrow> (MetadataBuilder \<times> nat) option" where
  "AddPartition b name group_name attributes =
     (if name = [] then None
      else if FindPartitionB b name \<noteq> None then None
      else if FindGroup b group_name = None then None
      else Some (b\<lparr>b_partitions := b_partitions b @ [new_partition name group_name attributes]\<rparr>,
                 length (b_partitions b)))"

definition AddPartitionDefault ::
  "MetadataBuilder \<Rightarrow> string \<Rightarrow> u32 \<Rightarrow> (MetadataBuilder \<times> nat) option" where
  "AddPartitionDefault b name attributes = AddPartition b name kDefaultGroup attributes"

fun remove_first :: "('a \<Rightarrow> bool) \<Rightarrow> 'a list \<Rightarrow> 'a list" where
  "remove_first P [] = []"
| "remove_first P (x # xs) = (if P x then xs else x # remove_first P xs)"

definition RemovePartition :: "MetadataBuilder \<Rightarrow> string \<Rightarrow> MetadataBuilder" where
  "RemovePartition b name =
     b\<lparr>b_partitions := remove_first (\<lambda>p. pt_name p = name) (b_partitions b)\<rparr>"

definition ListGroups :: "MetadataBuilder \<Rightarrow> string list" where
  "ListGroups b = map pg_name (b_groups b)"

definition ListPartitionsInGroup :: "MetadataBuilder \<Rightarrow> string \<Rightarrow> nat list" where
  "ListPartitionsInGroup b group_name =
     filter (\<lambda>i. pt_group_name (b_partitions b ! i) = group_name) [0..<length (b_partitions b)]"

definition RemoveGroupAndPartitions :: "MetadataBuilder \<Rightarrow> string \<Rightarrow> MetadataBuilder" where
  "RemoveGroupAndPartitions b group_name =
     (if group_name = kDefaultGroup then b
      else let partition_names = map pt_name (filter (\<lambda>p. pt_group_name p = group_name) (b_partitions b));
               b' = foldl RemovePartition b partition_names
           in b'\<lparr>b_groups := remove_first (\<lambda>g. pg_name g = group_name) (b_groups b')\<rparr>)"

definition ChangePartitionGroup :: "MetadataBuilder \<Rightarrow> nat \<Rightarrow> string \<Rightarrow> (bool \<times> MetadataBuilder) run" where
  "ChangePartitionGroup b i group_name =
     (if FindGroup b group_name = None then Inr (False, b)
      else bind_run (vec_at (b_partitions b) i) (\<lambda>p.
             Inr (True, b\<lparr>b_partitions := (b_partitions b)[i := p\<lparr>pt_group_name := group_name\<rparr>]\<rparr>)))"

definition ChangeGroupSize :: "MetadataBuilder \<Rightarrow> string \<Rightarrow> u64 \<Rightarrow> bool \<times> MetadataBuilder" where
  "ChangeGroupSize b group_name maximum_size =
     (if group_name = kDefaultGroup then (False, b)
      else case FindGroup b group_name of
        None \<Rightarrow> (False, b)
      | Some k \<Rightarrow> (True, b\<lparr>b_groups := (b_groups b)[k := (b_groups b ! k)\<lparr>pg_maximum_size := maximum_size\<rparr>]\<rparr>))"

definition TotalSizeOfGroup :: "MetadataBuilder \<Rightarrow> PartitionGroup \<Rightarrow> u64" where
  "TotalSizeOfGroup b grp =
     foldl (\<lambda>t p. if pt_group_name p \<noteq> pg_name grp then t else t + BytesOnDisk p) 0
       (b_partitions b)"

definition ValidatePartitionGroups :: "MetadataBuilder \<Rightarrow> bool" where
  "ValidatePartitionGroups b =
     list_all (\<lambda>g. pg_maximum_size g = 0 \<or> TotalSizeOfGroup b g \<le> pg_maximum_size g) (b_groups b)"

definition ValidatePartitionSizeChange ::
  "MetadataBuilder \<Rightarrow> Partition \<Rightarrow> u64 \<Rightarrow> u64 \<Rightarrow> bool \<Rightarrow> bool run" where
  "ValidatePartitionSizeChange b p old_size new_size force_check =
     (case FindGroup b (pt_group_name p) of
        None \<Rightarrow> Inl CheckFailed
      | Some k \<Rightarrow>
          let grp = b_groups b ! k in
          if \<not> force_check \<and> new_size \<le> old_size then Inr True
          else let space_needed = new_size - old_size in
            if pg_maximum_size grp > 0 then
              let group_size = TotalSizeOfGroup b grp in
              Inr (\<not> (group_size \<ge> pg_maximum_size grp \<or>
                      pg_maximum_size grp - group_size < space_needed))
            else Inr True)"

section \<open>Block devices\<close>

definition BuilderBlockDeviceName :: "MetadataBuilder \<Rightarrow> nat \<Rightarrow> string" where
  "BuilderBlockDeviceName b index =
     (if index < length (b_block_devices b)
      then GetBlockDevicePartitionName (b_block_devices b ! index) else [])"

definition FindBlockDeviceByName :: "MetadataBuilder \<Rightarrow> string \<Rightarrow> nat option" where
  "FindBlockDeviceByName b name =
     find_index (\<lambda>d. GetBlockDevicePartitionName d = name) (b_block_devices b)"

definition HasBlockDevice :: "MetadataBuilder \<Rightarrow> string \<Rightarrow> bool" where
  "HasBlockDevice b name \<longleftrightarrow> FindBlockDeviceByName b name \<noteq> None"

definition GetBlockDeviceInfo :: "MetadataBuilder \<Rightarrow> string \<Rightarrow> BlockDeviceInfo option" where
  "GetBlockDeviceInfo b name =
     (case FindBlockDeviceByName b name of
        None \<Rightarrow> None
      | Some k \<Rightarrow> let d = b_block_devices b ! k in
          Some \<lparr>di_size = bd_size d, di_alignment = bd_alignment d,
                di_alignment_offset = bd_alignment_offset d,
                di_logical_block_size = g_logical_block_size (b_geometry b),
                di_partition_name = name\<rparr>)"

definition UpdateBlockDeviceInfoAt ::
  "MetadataBuilder \<Rightarrow> nat \<Rightarrow> BlockDeviceInfo \<Rightarrow> (bool \<times> MetadataBuilder) run" where
  "UpdateBlockDeviceInfoAt b index info =
     check (index < length (b_block_devices b))
       (let d = b_block_devices b ! index in
        if di_size info \<noteq> bd_size d then Inr (False, b)
        else if di_logical_block_size info = 0 then Inl DivisionByZero
        else if g_logical_block_size (b_geometry b) mod di_logical_block_size info \<noteq> 0
        then Inr (False, b)
        else let d1 = (if di_alignment info \<noteq> 0 then d\<lparr>bd_alignment := di_alignment info\<rparr> else d);
                 d2 = (if di_alignment_offset info \<noteq> 0
                       then d1\<lparr>bd_alignment_offset := di_alignment_offset info\<rparr> else d1)
             in Inr (True, b\<lparr>b_block_devices := (b_block_devices b)[index := d2]\<rparr>))"

definition UpdateBlockDeviceInfo ::
  "MetadataBuilder \<Rightarrow> string \<Rightarrow> BlockDeviceInfo \<Rightarrow> (bool \<times> MetadataBuilder) run" where
  "UpdateBlockDeviceInfo b name info =
     (case FindBlockDeviceByName b name of
        None \<Rightarrow> Inr (False, b)
      | Some k \<Rightarrow> UpdateBlockDeviceInfoAt b k info)"

definition AllocatableSpace :: "MetadataBuilder \<Rightarrow> u64" where
  "AllocatableSpace b =
     foldl (\<lambda>t d. t + (bd_size d - bd_first_logical_sector d * LP_SECTOR_SIZE)) 0 (b_block_devices b)"

definition UsedSpace :: "MetadataBuilder \<Rightarrow> u64" where
  "UsedSpace b = foldl (\<lambda>t p. t + pt_size p) 0 (b_partitions b)"

section \<open>Header flags\<close>

definition RequireExpandedMetadataHeader :: "MetadataBuilder \<Rightarrow> MetadataBuilder" where
  "RequireExpandedMetadataHeader b =
     (if h_minor_version (b_header b) \<ge> LP_METADATA_VERSION_FOR_EXPANDED_HEADER then b
      else b\<lparr>b_header := (b_header b)\<lparr>
               h_minor_version := LP_METADATA_VERSION_FOR_EXPANDED_HEADER,
               h_header_size := of_nat sizeof_header\<rparr>\<rparr>)"

definition SetAutoSlotSuffixing :: "MetadataBuilder \<Rightarrow> MetadataBuilder" where
  "SetAutoSlotSuffixing b = b\<lparr>b_auto_slot_suffixing := True\<rparr>"

definition SetVirtualABDeviceFlag :: "MetadataBuilder \<Rightarrow> MetadataBuilder" where
  "SetVirtualABDeviceFlag b =
     (let b' = RequireExpandedMetadataHeader b in
      b'\<lparr>b_header := (b_header b')\<lparr>h_flags :=
            or (h_flags (b_header b')) LP_HEADER_FLAG_VIRTUAL_AB_DEVICE\<rparr>\<rparr>)"

definition SetOverlaysActiveFlag :: "MetadataBuilder \<Rightarrow> bool \<Rightarrow> MetadataBuilder" where
  "SetOverlaysActiveFlag b flag =
     (let b' = RequireExpandedMetadataHeader b;
          f = h_flags (b_header b')
      in b'\<lparr>b_header := (b_header b')\<lparr>h_flags :=
            (if flag then or f LP_HEADER_FLAG_OVERLAYS_ACTIVE
             else and f (not LP_HEADER_FLAG_OVERLAYS_ACTIVE))\<rparr>\<rparr>)"

definition IsABDevice :: "props \<Rightarrow> bool" where
  "IsABDevice store \<longleftrightarrow> GetProperty store ''ro.boot.slot_suffix'' [] \<noteq> []"

definition IsRetrofitDynamicPartitionsDevice :: "props \<Rightarrow> bool" where
  "IsRetrofitDynamicPartitionsDevice store =
     GetBoolProperty store ''ro.boot.dynamic_partitions_retrofit'' False"

definition ShouldHalveSuper :: "props \<Rightarrow> MetadataBuilder \<Rightarrow> bool" where
  "ShouldHalveSuper store b \<longleftrightarrow>
     BuilderBlockDeviceName b 0 = LP_METADATA_DEFAULT_PARTITION_NAME \<and>
     \<not> GetBoolProperty store ''ro.virtual_ab.enabled'' False"

section \<open>Init from block devices\<close>

definition VerifyDeviceProperties :: "BlockDeviceInfo \<Rightarrow> bool" where
  "VerifyDeviceProperties info \<longleftrightarrow>
     \<not> di_logical_block_size info = 0 \<and>
     \<not> di_logical_block_size info mod 512 \<noteq> 0 \<and>
     \<not> di_size info mod ucast (di_logical_block_size info) \<noteq> 0 \<and>
     \<not> di_alignment_offset info mod 512 \<noteq> 0 \<and>
     \<not> di_alignment info mod 512 \<noteq> 0"

text \<open>The sector where the free area of a device starts: its lower bound, aligned.\<close>

definition free_area_sector :: "u64 \<Rightarrow> u32 \<Rightarrow> u32 \<Rightarrow> u64 option" where
  "free_area_sector free_area_start alignment logical_block_size =
     map_option (\<lambda>v. v div LP_SECTOR_SIZE)
       (if alignment \<noteq> 0 then align_to free_area_start alignment
        else align_to free_area_start logical_block_size)"

text \<open>The body of the loop over the block devices, for one device.\<close>

definition init_device :: "u32 \<Rightarrow> BlockDeviceInfo \<Rightarrow> LpMetadataBlockDevice option" where
  "init_device logical_block_size info =
     (if length (di_partition_name info) > sizeof_name then None
      else case free_area_sector LP_SECTOR_SIZE (di_alignment info) logical_block_size of
        None \<Rightarrow> None
      | Some first \<Rightarrow>
          let minimum_size = first * LP_SECTOR_SIZE + ucast logical_block_size in
          if di_size info < minimum_size then None
          else Some \<lparr>bd_first_logical_sector = first, bd_alignment = di_alignment info,
                     bd_alignment_offset = di_alignment_offset info, bd_size = di_size info,
                     bd_partition_name = strncpy sizeof_name (di_partition_name info),
                     bd_flags = 0\<rparr>)"

fun init_devices :: "string \<Rightarrow> u32 \<Rightarrow> LpMetadataBlockDevice list \<Rightarrow> BlockDeviceInfo list
    \<Rightarrow> (u32 \<times> LpMetadataBlockDevice list) option" where
  "init_devices super logical_block_size devs [] = Some (logical_block_size, devs)"
| "init_devices super logical_block_size devs (info # infos) =
     (if \<not> VerifyDeviceProperties info then None
      else let lbs = (if logical_block_size = 0 then di_logical_block_size info
                      else logical_block_size)
        in if lbs \<noteq> di_logical_block_size info then None
           else case init_device lbs info of
             None \<Rightarrow> None
           | Some out \<Rightarrow> init_devices super lbs
                 (if di_partition_name info = super then out # devs else devs @ [out]) infos)"

text \<open>
  \<open>Init(block_devices, ...)\<close> on the object of the constructor, as \<open>New\<close> runs it; \<open>None\<close> is the
  return value \<open>false\<close>, after which \<open>New\<close> drops the object.
\<close>

definition InitDevices ::
  "BlockDeviceInfo list \<Rightarrow> string \<Rightarrow> u32 \<Rightarrow> u32 \<Rightarrow> MetadataBuilder option" where
  "InitDevices block_devices super_partition metadata_max_size metadata_slot_count =
     (if metadata_max_size < of_nat sizeof_header then None
      else if metadata_slot_count = 0 then None
      else if block_devices = [] then None
      else case align_to metadata_max_size 512 of None \<Rightarrow> None | Some max_size \<Rightarrow>
        case init_devices super_partition 0 [] block_devices of None \<Rightarrow> None
        | Some (logical_block_size, devs) \<Rightarrow>
            let b = empty_builder\<lparr>b_block_devices := devs\<rparr> in
            if BuilderBlockDeviceName b 0 \<noteq> super_partition then None
            else case devs of [] \<Rightarrow> None | super # rest \<Rightarrow>
              let total_reserved = GetTotalMetadataSize max_size metadata_slot_count in
              if bd_size super < total_reserved then None
              else case free_area_sector total_reserved (bd_alignment super) logical_block_size of
                None \<Rightarrow> None
              | Some first \<Rightarrow>
                  let minimum_disk_size = first * LP_SECTOR_SIZE + ucast logical_block_size in
                  if bd_size super < minimum_disk_size then None
                  else AddGroup (b\<lparr>
                         b_block_devices := super\<lparr>bd_first_logical_sector := first\<rparr> # rest,
                         b_geometry := (b_geometry b)\<lparr>g_metadata_max_size := max_size,
                           g_metadata_slot_count := metadata_slot_count,
                           g_logical_block_size := logical_block_size\<rparr>\<rparr>) kDefaultGroup 0)"

section \<open>Init from a metadata\<close>

text \<open>\<open>ImportExtents\<close>: the loop, with \<open>first_extent_index + i\<close> computed in \<open>size_t\<close>.\<close>

fun import_extents :: "LpMetadataExtent list \<Rightarrow> nat \<Rightarrow> nat \<Rightarrow> Partition \<Rightarrow> Partition run" where
  "import_extents extents idx 0 dest = Inr dest"
| "import_extents extents idx (Suc n) dest =
     bind_run (vec_at extents idx) (\<lambda>e.
       import_extents extents (Suc idx) n
         (if e_target_type e = LP_TARGET_TYPE_LINEAR
          then AddExtent dest (LinearExtent (e_num_sectors e) (e_target_source e) (e_target_data e))
          else if e_target_type e = LP_TARGET_TYPE_ZERO
          then AddExtent dest (ZeroExtent (e_num_sectors e))
          else dest))"

definition ImportExtents :: "Partition \<Rightarrow> LpMetadata \<Rightarrow> LpMetadataPartition \<Rightarrow> Partition run" where
  "ImportExtents dest metadata source =
     import_extents (m_extents metadata) (unat (p_first_extent_index source))
       (unat (p_num_extents source)) dest"

fun init_groups :: "LpMetadataPartitionGroup list \<Rightarrow> MetadataBuilder \<Rightarrow> MetadataBuilder option" where
  "init_groups [] b = Some b"
| "init_groups (g # gs) b =
     (case AddGroup b (GetPartitionGroupName g) (gr_maximum_size g) of
        None \<Rightarrow> None | Some b' \<Rightarrow> init_groups gs b')"

fun init_partitions :: "LpMetadata \<Rightarrow> LpMetadataPartition list \<Rightarrow> MetadataBuilder
    \<Rightarrow> MetadataBuilder option run" where
  "init_partitions metadata [] b = Inr (Some b)"
| "init_partitions metadata (p # ps) b =
     bind_run (vec_at (m_groups metadata) (unat (p_group_index p))) (\<lambda>g.
       case AddPartition b (GetPartitionName p) (GetPartitionGroupName g) (p_attributes p) of
         None \<Rightarrow> Inr None
       | Some (b', i) \<Rightarrow>
           bind_run (ImportExtents (b_partitions b' ! i) metadata p) (\<lambda>dest.
             init_partitions metadata ps (b'\<lparr>b_partitions := (b_partitions b')[i := dest]\<rparr>)))"

definition InitMetadata :: "LpMetadata \<Rightarrow> MetadataBuilder option run" where
  "InitMetadata metadata =
     (let b0 = empty_builder\<lparr>b_geometry := m_geometry metadata,
                             b_block_devices := m_block_devices metadata\<rparr>;
          b1 = (if h_minor_version (m_header metadata) \<ge> LP_METADATA_VERSION_FOR_EXPANDED_HEADER
                then let b' = RequireExpandedMetadataHeader b0
                     in b'\<lparr>b_header := (b_header b')\<lparr>h_flags := h_flags (m_header metadata)\<rparr>\<rparr>
                else b0)
      in case init_groups (m_groups metadata) b1 of
           None \<Rightarrow> Inr None
         | Some b2 \<Rightarrow> init_partitions metadata (m_partitions metadata) b2)"

section \<open>Importing partitions of an older metadata\<close>

definition CompareBlockDevices :: "LpMetadataBlockDevice \<Rightarrow> LpMetadataBlockDevice \<Rightarrow> bool" where
  "CompareBlockDevices first second \<longleftrightarrow>
     bd_first_logical_sector first = bd_first_logical_sector second \<and>
     bd_size first = bd_size second \<and>
     GetBlockDevicePartitionName first = GetBlockDevicePartitionName second"

text \<open>
  \<open>ImportPartition\<close>: the partition is looked up or created, filled, and emptied again when the
  group does not have the room.
\<close>

definition ImportPartition ::
  "MetadataBuilder \<Rightarrow> LpMetadata \<Rightarrow> LpMetadataPartition \<Rightarrow> (bool \<times> MetadataBuilder) run" where
  "ImportPartition b metadata source =
     (let partition_name = GetPartitionName source in
      bind_run
        (case FindPartitionB b partition_name of
           Some i \<Rightarrow> Inr (Some (b, i))
         | None \<Rightarrow> bind_run (vec_at (m_groups metadata) (unat (p_group_index source))) (\<lambda>g.
             Inr (AddPartition b partition_name (GetPartitionGroupName g) (p_attributes source))))
        (\<lambda>found. case found of
           None \<Rightarrow> Inr (False, b)
         | Some (b', i) \<Rightarrow>
             if pt_size (b_partitions b' ! i) > 0 then Inr (False, b')
             else bind_run (ImportExtents (b_partitions b' ! i) metadata source) (\<lambda>p.
               let b'' = b'\<lparr>b_partitions := (b_partitions b')[i := p]\<rparr> in
               bind_run (ValidatePartitionSizeChange b'' p (pt_size p) (pt_size p) True) (\<lambda>ok.
                 if ok then Inr (True, b'')
                 else Inr (False, b''\<lparr>b_partitions := (b_partitions b'')[i := RemoveExtents p]\<rparr>)))))"

fun import_partitions :: "MetadataBuilder \<Rightarrow> LpMetadata \<Rightarrow> string list \<Rightarrow> LpMetadataPartition list
    \<Rightarrow> (bool \<times> MetadataBuilder) run" where
  "import_partitions b metadata names [] = Inr (True, b)"
| "import_partitions b metadata names (p # ps) =
     (if GetPartitionName p \<notin> set names then import_partitions b metadata names ps
      else bind_run (ImportPartition b metadata p) (\<lambda>(ok, b').
             if ok then import_partitions b' metadata names ps else Inr (False, b')))"

definition ImportPartitions ::
  "MetadataBuilder \<Rightarrow> LpMetadata \<Rightarrow> string list \<Rightarrow> (bool \<times> MetadataBuilder) run" where
  "ImportPartitions b metadata partition_names =
     (if length (m_block_devices metadata) \<noteq> length (b_block_devices b) then Inr (False, b)
      else if \<not> list_all2 CompareBlockDevices (m_block_devices metadata) (b_block_devices b)
      then Inr (False, b)
      else import_partitions b metadata partition_names (m_partitions metadata))"

definition AddLinearExtent ::
  "MetadataBuilder \<Rightarrow> nat \<Rightarrow> string \<Rightarrow> u64 \<Rightarrow> u64 \<Rightarrow> (bool \<times> MetadataBuilder) run" where
  "AddLinearExtent b i block_device n_sectors p_sector =
     (case FindBlockDeviceByName b block_device of
        None \<Rightarrow> Inr (False, b)
      | Some d \<Rightarrow> bind_run (vec_at (b_partitions b) i) (\<lambda>p.
          Inr (True, b\<lparr>b_partitions := (b_partitions b)[i :=
                 AddExtent p (LinearExtent n_sectors (of_nat d) p_sector)]\<rparr>)))"

section \<open>Comparing with the source slot\<close>

text \<open>The comparison of the two extent lists: their lengths, then \<open>operator!=\<close> by position.\<close>

definition same_extents :: "Partition \<Rightarrow> Partition \<Rightarrow> bool" where
  "same_extents target source \<longleftrightarrow>
     length (pt_extents target) = length (pt_extents source) \<and>
     list_all2 extent_eq (pt_extents target) (pt_extents source)"

fun VerifyExtentsAgainstSourceMetadata ::
  "MetadataBuilder \<Rightarrow> u32 \<Rightarrow> MetadataBuilder \<Rightarrow> u32 \<Rightarrow> string list \<Rightarrow> bool run" where
  "VerifyExtentsAgainstSourceMetadata src src_slot tgt tgt_slot [] = Inr True"
| "VerifyExtentsAgainstSourceMetadata src src_slot tgt tgt_slot (base_name # names) =
     bind_run (SlotSuffixForSlotNumber tgt_slot) (\<lambda>ts.
     case FindPartitionB tgt (base_name @ ts) of
       None \<Rightarrow> Inr False
     | Some t \<Rightarrow>
         bind_run (SlotSuffixForSlotNumber src_slot) (\<lambda>ss.
         case FindPartitionB src (base_name @ ss) of
           None \<Rightarrow> Inr False
         | Some s \<Rightarrow>
             if same_extents (b_partitions tgt ! t) (b_partitions src ! s)
             then VerifyExtentsAgainstSourceMetadata src src_slot tgt tgt_slot names
             else Inr False))"

end
