(* ===== verification/LpAlloc.thy ===== *)
theory LpAlloc imports LpBuilder begin

text \<open>
  The allocator of \<open>MetadataBuilder\<close>: the free regions of the block devices, growing and
  shrinking a partition, and \<open>ResizePartition\<close>, as \<open>fs_mgr/liblp/builder.cpp\<close> has them.
\<close>

section \<open>Sector alignment and free regions\<close>

definition AlignSector :: "LpMetadataBlockDevice \<Rightarrow> u64 \<Rightarrow> u64 option" where
  "AlignSector block_device sector =
     (let lba = sector * LP_SECTOR_SIZE in
      case align_to lba (bd_alignment block_device) of
        None \<Rightarrow> None
      | Some aligned \<Rightarrow>
          case align_to aligned 512 of
            None \<Rightarrow> None
          | Some out \<Rightarrow> Some (out div LP_SECTOR_SIZE))"

text \<open>
  \<open>ExtentsToFreeList\<close>: the gaps between neighbours of a sorted interval list, each starting at
  an aligned sector.
\<close>

fun ExtentsToFreeList :: "LpMetadataBlockDevice list \<Rightarrow> Interval list \<Rightarrow> Interval list" where
  "ExtentsToFreeList devs (previous # current # rest) =
     (case AlignSector (devs ! unat (iv_device_index current)) (iv_end previous) of
        None \<Rightarrow> ExtentsToFreeList devs (current # rest)
      | Some aligned \<Rightarrow>
          if aligned \<ge> iv_start current then ExtentsToFreeList devs (current # rest)
          else mk_interval (iv_device_index current) aligned (iv_start current)
               # ExtentsToFreeList devs (current # rest))"
| "ExtentsToFreeList devs _ = []"

definition linear_extents :: "MetadataBuilder \<Rightarrow> Extent list" where
  "linear_extents b = filter is_linear (concat (map pt_extents (b_partitions b)))"

text \<open>
  The intervals of one device: its extents, then the two empty intervals at the first and
  the last sector, sorted with \<open>operator<\<close> (by start, then by end).
\<close>

definition device_intervals :: "MetadataBuilder \<Rightarrow> nat \<Rightarrow> Interval list" where
  "device_intervals b i =
     (let d = b_block_devices b ! i;
          first_sector = bd_first_logical_sector d;
          last_sector = bd_size d div LP_SECTOR_SIZE
      in sort_key (\<lambda>v. (iv_start v, iv_end v))
           (map AsInterval (filter (\<lambda>e. unat (device_index e) = i) (linear_extents b))
            @ [mk_interval (of_nat i) first_sector first_sector,
               mk_interval (of_nat i) last_sector last_sector]))"

definition GetFreeRegions :: "MetadataBuilder \<Rightarrow> Interval list run" where
  "GetFreeRegions b =
     check (list_all (\<lambda>e. unat (device_index e) < length (b_block_devices b)) (linear_extents b))
       (Inr (concat (map (\<lambda>i. ExtentsToFreeList (b_block_devices b) (device_intervals b i))
                       [0..<length (b_block_devices b)])))"

section \<open>Growing and shrinking\<close>

definition PrioritizeSecondHalfOfSuper :: "MetadataBuilder \<Rightarrow> Interval list \<Rightarrow> Interval list run" where
  "PrioritizeSecondHalfOfSuper b free_list =
     bind_run (vec_at (b_block_devices b) 0) (\<lambda>super.
       let first_sector = bd_first_logical_sector super;
           last_sector = bd_size super div LP_SECTOR_SIZE
       in case AlignSector super (first_sector + (last_sector - first_sector) div 2) of
            None \<Rightarrow> Inr free_list
          | Some midpoint \<Rightarrow>
              let in_first = (\<lambda>r. iv_device_index r \<noteq> 0 \<or> iv_end r \<le> midpoint);
                  split = (\<lambda>r. iv_start r < midpoint \<and> iv_end r > midpoint);
                  first_half = concat (map (\<lambda>r.
                    if in_first r then [r]
                    else if split r then [mk_interval (iv_device_index r) (iv_start r) midpoint]
                    else []) free_list);
                  second_half = concat (map (\<lambda>r.
                    if in_first r then []
                    else if split r then [mk_interval (iv_device_index r) midpoint (iv_end r)]
                    else [r]) free_list)
              in Inr (second_half @ first_half))"

definition IsAnyRegionCovered :: "Interval list \<Rightarrow> Extent \<Rightarrow> bool" where
  "IsAnyRegionCovered regions candidate = list_ex (OverlapsWithInterval candidate) regions"

definition IsAnyRegionAllocated :: "MetadataBuilder \<Rightarrow> Extent \<Rightarrow> bool" where
  "IsAnyRegionAllocated b candidate = list_ex (\<lambda>l. OverlapsWith l candidate) (linear_extents b)"

definition ExtendFinalExtent ::
  "MetadataBuilder \<Rightarrow> Partition \<Rightarrow> Interval list \<Rightarrow> u64 \<Rightarrow> Extent option run" where
  "ExtendFinalExtent b p free_list sectors_needed =
     (if pt_extents p = [] then Inr None
      else let e = last (pt_extents p) in
        if \<not> is_linear e then Inr None
        else bind_run (vec_at (b_block_devices b) (unat (device_index e))) (\<lambda>block_device.
          case AlignSector block_device (end_sector e) of
            None \<Rightarrow> Inr None
          | Some next_aligned_sector \<Rightarrow>
              if end_sector e = next_aligned_sector then Inr None
              else let n = min (next_aligned_sector - end_sector e) sectors_needed;
                       new_extent = LinearExtent n (device_index e) (end_sector e)
                in if IsAnyRegionAllocated b new_extent \<or> IsAnyRegionCovered free_list new_extent
                   then Inr None
                   else Inr (Some new_extent)))"

text \<open>A region that is not a whole number of blocks is rounded down.\<close>

definition misaligned_region :: "u64 \<Rightarrow> Interval \<Rightarrow> bool" where
  "misaligned_region sectors_per_block region \<longleftrightarrow> iv_length region mod sectors_per_block \<noteq> 0"

definition trim_region :: "u64 \<Rightarrow> Interval \<Rightarrow> Interval" where
  "trim_region sectors_per_block region =
     (if misaligned_region sectors_per_block region
      then region\<lparr>iv_end := iv_start region +
             iv_length region div sectors_per_block * sectors_per_block\<rparr>
      else region)"

text \<open>
  The allocation loop over the free regions, with the number of sectors still needed and
  the extents created so far.
\<close>

fun grow_loop :: "u64 \<Rightarrow> Interval list \<Rightarrow> u64 \<Rightarrow> Extent list \<Rightarrow> (u64 \<times> Extent list) run" where
  "grow_loop sectors_per_block [] sectors_needed acc = Inr (sectors_needed, acc)"
| "grow_loop sectors_per_block (r # regions) sectors_needed acc =
     (if sectors_needed = 0 then Inr (sectors_needed, acc)
      else
        let region = trim_region sectors_per_block r in
        if misaligned_region sectors_per_block r \<and> iv_length region = 0
        then grow_loop sectors_per_block regions sectors_needed acc
        else let sectors = min sectors_needed (iv_length region) in
          check (sectors mod sectors_per_block = 0)
            (grow_loop sectors_per_block regions (sectors_needed - sectors)
              (acc @ [LinearExtent sectors (iv_device_index region) (iv_start region)])))"

definition update_partition :: "MetadataBuilder \<Rightarrow> nat \<Rightarrow> Partition \<Rightarrow> MetadataBuilder" where
  "update_partition b i p = b\<lparr>b_partitions := (b_partitions b)[i := p]\<rparr>"

text \<open>The regions \<open>GrowPartition\<close> allocates from, in its order of preference.\<close>

definition candidate_regions ::
  "props \<Rightarrow> MetadataBuilder \<Rightarrow> Partition \<Rightarrow> Interval list \<Rightarrow> Interval list run" where
  "candidate_regions store b p hint =
     bind_run (GetFreeRegions b) (\<lambda>free.
       let free_regions = (if hint \<noteq> [] then IntersectLists free hint else free) in
       if IsABDevice store \<and> ShouldHalveSuper store b \<and> GetPartitionSlotSuffix (pt_name p) = ''_b''
       then PrioritizeSecondHalfOfSuper b free_regions
       else Inr free_regions)"

definition GrowPartition ::
  "props \<Rightarrow> MetadataBuilder \<Rightarrow> nat \<Rightarrow> u64 \<Rightarrow> Interval list \<Rightarrow> (bool \<times> MetadataBuilder) run" where
  "GrowPartition store b i aligned_size free_region_hint =
     (let p = b_partitions b ! i;
          space_needed = aligned_size - pt_size p;
          sectors_needed = space_needed div LP_SECTOR_SIZE;
          sectors_per_block = ucast (g_logical_block_size (b_geometry b)) div LP_SECTOR_SIZE
      in bind_run (GetFreeRegions b) (\<lambda>_.
         check (sectors_per_block \<noteq> 0)
        (check (sectors_needed mod sectors_per_block = 0)
        (bind_run (candidate_regions store b p free_region_hint) (\<lambda>free_regions.
         bind_run (ExtendFinalExtent b p free_regions sectors_needed) (\<lambda>final.
           let (needed, new_extents) =
             (case final of None \<Rightarrow> (sectors_needed, [])
              | Some e \<Rightarrow> (sectors_needed - num_sectors e, [e]))
           in bind_run (grow_loop sectors_per_block free_regions needed new_extents)
                (\<lambda>(remaining, extents).
                   if remaining \<noteq> 0 then Inr (False, b)
                   else Inr (True, update_partition b i (foldl AddExtent p extents)))))))))"

definition ShrinkPartition :: "MetadataBuilder \<Rightarrow> nat \<Rightarrow> u64 \<Rightarrow> MetadataBuilder run" where
  "ShrinkPartition b i aligned_size =
     bind_run (ShrinkTo (b_partitions b ! i) aligned_size) (\<lambda>p. Inr (update_partition b i p))"

definition ResizePartition ::
  "props \<Rightarrow> MetadataBuilder \<Rightarrow> nat \<Rightarrow> u64 \<Rightarrow> Interval list \<Rightarrow> (bool \<times> MetadataBuilder) run" where
  "ResizePartition store b i requested_size free_region_hint =
     bind_run (vec_at (b_partitions b) i) (\<lambda>p.
       case align_to requested_size (g_logical_block_size (b_geometry b)) of
         None \<Rightarrow> Inr (False, b)
       | Some aligned_size \<Rightarrow>
           let old_size = pt_size p in
           bind_run (ValidatePartitionSizeChange b p old_size aligned_size False) (\<lambda>ok.
             if \<not> ok then Inr (False, b)
             else if aligned_size > old_size
             then GrowPartition store b i aligned_size free_region_hint
             else if aligned_size < old_size
             then bind_run (ShrinkPartition b i aligned_size) (\<lambda>b'. Inr (True, b'))
             else Inr (True, b)))"

end
