(* ===== verification/LpFreeList.thy ===== *)
theory LpFreeList imports LpAlloc "HOL-Library.Multiset" begin

text \<open>
  The free list of \<open>MetadataBuilder::GetFreeRegions\<close>: every region it yields lies inside the
  usable area of its device, no two regions share a sector, and none shares a sector with an
  extent of a partition.
\<close>

section \<open>Disjoint interval lists\<close>

definition interval_list :: "Interval \<Rightarrow> (u32 \<times> nat) list" where
  "interval_list i = map (Pair (iv_device_index i)) [unat (iv_start i)..<unat (iv_end i)]"

definition disjoint_intervals :: "Interval list \<Rightarrow> bool" where
  "disjoint_intervals xs \<longleftrightarrow>
     sorted_wrt (\<lambda>a b. interval_sectors a \<inter> interval_sectors b = {}) xs"

lemma set_interval_list [simp]: "set (interval_list i) = interval_sectors i"
  by (auto simp: interval_list_def interval_sectors_def)

lemma distinct_interval_list [simp]: "distinct (interval_list i)"
  by (simp add: interval_list_def distinct_map inj_on_def)

lemma disjoint_intervals_iff:
  "disjoint_intervals xs \<longleftrightarrow> distinct (concat (map interval_list xs))"
  by (induction xs) (auto simp: disjoint_intervals_def)

lemma mset_concat_map: "mset (concat (map f xs)) = (\<Sum>x\<in>#mset xs. mset (f x))"
  by (induction xs) auto

lemma disjoint_intervals_mset:
  "mset xs = mset ys \<Longrightarrow> disjoint_intervals xs \<longleftrightarrow> disjoint_intervals ys"
  unfolding disjoint_intervals_iff by (intro mset_eq_imp_distinct_iff) (simp add: mset_concat_map)

lemma disjoint_intervals_append:
  "disjoint_intervals (xs @ ys) \<longleftrightarrow> disjoint_intervals xs \<and> disjoint_intervals ys \<and>
     (\<forall>x\<in>set xs. \<forall>y\<in>set ys. interval_sectors x \<inter> interval_sectors y = {})"
  by (auto simp: disjoint_intervals_def sorted_wrt_append)

lemma disjoint_intervals_concat:
  assumes "\<And>x. x \<in> set xs \<Longrightarrow> disjoint_intervals (f x)"
    and "sorted_wrt (\<lambda>x y. \<forall>a\<in>set (f x). \<forall>b\<in>set (f y).
           interval_sectors a \<inter> interval_sectors b = {}) xs"
  shows "disjoint_intervals (concat (map f xs))"
  using assms
proof (induction xs)
  case Nil
  then show ?case by (simp add: disjoint_intervals_def)
next
  case (Cons x xs)
  then show ?case by (auto simp: disjoint_intervals_append)
qed

section \<open>Sorted intervals are separated\<close>

lemma sorted_separated:
  assumes "sorted (map (\<lambda>v. (iv_start v, iv_end v)) xs)" "disjoint_intervals xs"
    and "\<forall>v\<in>set xs. iv_start v \<le> iv_end v \<and> iv_device_index v = d"
    and "\<forall>a\<in>set xs. \<forall>b\<in>set xs. iv_start b = iv_end b \<longrightarrow>
           \<not> (iv_start a < iv_start b \<and> iv_start b < iv_end a)"
  shows "sorted_wrt (\<lambda>a b. iv_end a \<le> iv_start b) xs"
  using assms
proof (induction xs)
  case Nil
  then show ?case by simp
next
  case (Cons a xs)
  have "iv_end a \<le> iv_start b" if b: "b \<in> set xs" for b
  proof (rule ccontr)
    assume "\<not> iv_end a \<le> iv_start b"
    then have lt: "iv_start b < iv_end a" by simp
    from Cons.prems(1) b have key: "(iv_start a, iv_end a) \<le> (iv_start b, iv_end b)"
      by auto
    then have le: "iv_start a \<le> iv_start b" by (auto simp: less_eq_prod_def)
    have dev: "iv_device_index a = d" "iv_device_index b = d" "iv_start b \<le> iv_end b"
      using Cons.prems(3) b by auto
    show False
    proof (cases "iv_start b = iv_end b")
      case True
      then have "\<not> iv_start a < iv_start b"
        using Cons.prems(4) b lt by auto
      with le have "iv_start a = iv_start b" by simp
      with key have "iv_end a \<le> iv_end b" by (auto simp: less_eq_prod_def)
      with lt True show False by simp
    next
      case False
      with dev(3) have "iv_start b < iv_end b" by simp
      with le lt dev have "(d, unat (iv_start b)) \<in> interval_sectors a \<inter> interval_sectors b"
        by (auto simp: interval_sectors_def word_le_nat_alt word_less_nat_alt)
      with Cons.prems(2) b show False by (auto simp: disjoint_intervals_def)
    qed
  qed
  then show ?case
    using Cons by (auto simp: disjoint_intervals_def)
qed

section \<open>The gaps of a separated list\<close>

lemma AlignSector_ge:
  assumes "AlignSector d s = Some v" "unat s < 2 ^ 55"
  shows "s \<le> v"
proof -
  from assms(1) obtain a o' where a: "align_to (s * LP_SECTOR_SIZE) (bd_alignment d) = Some a"
    and o: "align_to a 512 = Some o'" and v: "v = o' div LP_SECTOR_SIZE"
    by (auto simp: AlignSector_def Let_def split: option.splits)
  have "unat (s * LP_SECTOR_SIZE) = unat s * 512"
    using assms(2) by (rule unat_sectors_bytes)
  with align_to_u64_SomeD[OF a] align_to_u64_SomeD[OF o]
  have "unat s * 512 \<le> unat o'"
    using round_up_ge[of "unat s * 512" "unat (bd_alignment d)"] round_up_ge[of "unat a" 512]
    by simp
  then have "unat s \<le> unat o' div 512" by simp
  then show ?thesis by (simp add: v word_le_nat_alt unat_div LP_SECTOR_SIZE_def)
qed

lemma ExtentsToFreeList_mem:
  assumes "r \<in> set (ExtentsToFreeList devs xs)"
    and "\<forall>v\<in>set xs. unat (iv_end v) < 2 ^ 55"
  shows "\<exists>ys prev cur zs. xs = ys @ prev # cur # zs \<and> iv_end prev \<le> iv_start r \<and>
    iv_start r < iv_end r \<and> iv_end r = iv_start cur \<and> iv_device_index r = iv_device_index cur"
  using assms
proof (induction devs xs rule: ExtentsToFreeList.induct)
  case (1 devs previous current rest)
  let ?al = "AlignSector (devs ! unat (iv_device_index current)) (iv_end previous)"
  have step: "r \<in> set (ExtentsToFreeList devs (current # rest)) \<or>
     (\<exists>aligned. ?al = Some aligned \<and> \<not> aligned \<ge> iv_start current \<and>
        r = mk_interval (iv_device_index current) aligned (iv_start current))"
    using "1.prems"(1) by (auto split: option.splits if_splits)
  then show ?case
  proof
    assume r: "r \<in> set (ExtentsToFreeList devs (current # rest))"
    have "\<exists>ys prev cur zs. current # rest = ys @ prev # cur # zs \<and> iv_end prev \<le> iv_start r \<and>
      iv_start r < iv_end r \<and> iv_end r = iv_start cur \<and> iv_device_index r = iv_device_index cur"
    proof (cases ?al)
      case None
      with r "1.prems"(2) show ?thesis by (intro "1.IH"(1)) auto
    next
      case (Some aligned)
      show ?thesis
      proof (cases "aligned \<ge> iv_start current")
        case True
        with Some r "1.prems"(2) show ?thesis by (intro "1.IH"(2)) auto
      next
        case False
        with Some r "1.prems"(2) show ?thesis by (intro "1.IH"(3)) auto
      qed
    qed
    then obtain ys prev cur zs where "current # rest = ys @ prev # cur # zs"
      "iv_end prev \<le> iv_start r" "iv_start r < iv_end r" "iv_end r = iv_start cur"
      "iv_device_index r = iv_device_index cur" by blast
    then show ?thesis
      by (intro exI[of _ "previous # ys"] exI[of _ prev] exI[of _ cur] exI[of _ zs]) simp
  next
    assume "\<exists>aligned. ?al = Some aligned \<and> \<not> aligned \<ge> iv_start current \<and>
        r = mk_interval (iv_device_index current) aligned (iv_start current)"
    then obtain aligned where a: "?al = Some aligned" "\<not> aligned \<ge> iv_start current"
      "r = mk_interval (iv_device_index current) aligned (iv_start current)" by blast
    have "iv_end previous \<le> aligned"
      using AlignSector_ge[OF a(1)] "1.prems"(2) by simp
    with a show ?thesis
      by (intro exI[of _ "[]"] exI[of _ previous] exI[of _ current] exI[of _ rest])
        (simp add: mk_interval_def)
  qed
qed auto

lemma ExtentsToFreeList_disjoint:
  assumes "sorted_wrt (\<lambda>a b. iv_end a \<le> iv_start b) xs"
    and "\<forall>v\<in>set xs. unat (iv_end v) < 2 ^ 55 \<and> iv_start v \<le> iv_end v"
    and "r \<in> set (ExtentsToFreeList devs xs)" "v \<in> set xs"
  shows "interval_sectors r \<inter> interval_sectors v = {}"
proof -
  from ExtentsToFreeList_mem[OF assms(3)] assms(2) obtain ys prev cur zs where
    xs: "xs = ys @ prev # cur # zs" and b: "iv_end prev \<le> iv_start r" "iv_end r = iv_start cur"
    by auto
  from assms(4) xs consider "v \<in> set ys" | "v = prev" | "v = cur" | "v \<in> set zs" by auto
  then have "iv_end v \<le> iv_start r \<or> iv_end r \<le> iv_start v"
  proof cases
    case 1
    with assms(1) have "iv_end v \<le> iv_start prev" by (auto simp: xs sorted_wrt_append)
    also have "iv_start prev \<le> iv_end prev" using assms(2) by (auto simp: xs)
    also note b(1)
    finally show ?thesis by blast
  next
    case 4
    with assms(1) have "iv_end cur \<le> iv_start v" by (auto simp: xs sorted_wrt_append)
    moreover have "iv_start cur \<le> iv_end cur" using assms(2) by (auto simp: xs)
    ultimately have "iv_start cur \<le> iv_start v" using order_trans by blast
    with b show ?thesis by simp
  qed (use b in auto)
  then show ?thesis
    by (auto simp: interval_sectors_def word_le_nat_alt)
qed

lemma ExtentsToFreeList_sorted:
  assumes "sorted_wrt (\<lambda>a b. iv_end a \<le> iv_start b) xs"
    and "\<forall>v\<in>set xs. unat (iv_end v) < 2 ^ 55 \<and> iv_start v \<le> iv_end v"
  shows "sorted_wrt (\<lambda>a b. iv_end a \<le> iv_start b) (ExtentsToFreeList devs xs)"
  using assms
proof (induction devs xs rule: ExtentsToFreeList.induct)
  case (1 devs previous current rest)
  let ?al = "AlignSector (devs ! unat (iv_device_index current)) (iv_end previous)"
  let ?tail = "ExtentsToFreeList devs (current # rest)"
  have IH: "sorted_wrt (\<lambda>a b. iv_end a \<le> iv_start b) ?tail"
  proof (cases ?al)
    case None
    with "1.prems" show ?thesis by (intro "1.IH"(1)) auto
  next
    case (Some aligned)
    show ?thesis
    proof (cases "aligned \<ge> iv_start current")
      case True
      with Some "1.prems" show ?thesis by (intro "1.IH"(2)) auto
    next
      case False
      with Some "1.prems" show ?thesis by (intro "1.IH"(3)) auto
    qed
  qed
  have "iv_start current \<le> iv_start r" if r: "r \<in> set ?tail" for r
  proof -
    from ExtentsToFreeList_mem[OF r] "1.prems"(2) obtain ys prev cur zs where
      x: "current # rest = ys @ prev # cur # zs" "iv_end prev \<le> iv_start r" by auto
    have "current = prev \<or> iv_end current \<le> iv_start prev"
      using "1.prems"(1) x(1) by (cases ys) auto
    moreover have "iv_start current \<le> iv_end current" "iv_start prev \<le> iv_end prev"
      using "1.prems"(2) x(1) by (cases ys; auto)+
    ultimately show ?thesis using x(2) by auto
  qed
  then show ?case
    using IH by (auto simp: mk_interval_def split: option.splits)
qed auto

section \<open>The allocation invariant\<close>

text \<open>
  An extent lies in the usable area of its device: after \<open>first_logical_sector\<close>, before the
  end of the device, and it is not empty.
\<close>

definition device_last_sector :: "LpMetadataBlockDevice \<Rightarrow> nat" where
  "device_last_sector d = unat (bd_size d) div 512"

definition extent_in_device :: "LpMetadataBlockDevice list \<Rightarrow> Extent \<Rightarrow> bool" where
  "extent_in_device devs e \<longleftrightarrow>
     (is_linear e \<longrightarrow>
        unat (device_index e) < length devs \<and> 0 < unat (num_sectors e) \<and>
        unat (bd_first_logical_sector (devs ! unat (device_index e))) \<le> unat (physical_sector e) \<and>
        unat (physical_sector e) + unat (num_sectors e)
          \<le> device_last_sector (devs ! unat (device_index e)))"

definition disk :: "MetadataBuilder \<Rightarrow> (u32 \<times> nat) list" where
  "disk b = concat (map (\<lambda>p. phys (pt_extents p)) (b_partitions b))"

definition devices_ok :: "LpMetadataBlockDevice list \<Rightarrow> bool" where
  "devices_ok devs \<longleftrightarrow> length devs < 4294967296 \<and>
     list_all (\<lambda>d. unat (bd_first_logical_sector d) \<le> device_last_sector d) devs"

text \<open>
  \<open>alloc_ok\<close>: every partition's size counts its extents, every extent is inside its device,
  and no physical sector backs two logical sectors.
\<close>

definition alloc_ok :: "MetadataBuilder \<Rightarrow> bool" where
  "alloc_ok b \<longleftrightarrow> devices_ok (b_block_devices b) \<and>
     list_all (\<lambda>p. partition_ok p \<and> list_all (extent_in_device (b_block_devices b)) (pt_extents p))
       (b_partitions b) \<and>
     distinct (disk b)"

text \<open>What the regions offered to the allocation loop must satisfy.\<close>

definition region_in_device :: "LpMetadataBlockDevice list \<Rightarrow> Interval \<Rightarrow> bool" where
  "region_in_device devs r \<longleftrightarrow> unat (iv_device_index r) < length devs \<and> iv_start r < iv_end r \<and>
     bd_first_logical_sector (devs ! unat (iv_device_index r)) \<le> iv_start r \<and>
     unat (iv_end r) \<le> device_last_sector (devs ! unat (iv_device_index r))"

definition regions_ok :: "MetadataBuilder \<Rightarrow> Interval list \<Rightarrow> bool" where
  "regions_ok b rs \<longleftrightarrow> list_all (region_in_device (b_block_devices b)) rs \<and> disjoint_intervals rs \<and>
     (\<forall>r\<in>set rs. interval_sectors r \<inter> set (disk b) = {})"

lemma device_last_sector_lt [simp]: "device_last_sector d < 36028797018963968"
  using unat_u64_lt[of "bd_size d"] unfolding device_last_sector_def
  by (simp add: div_less_iff_less_mult del: unat_u64_lt)

lemma extent_in_device_addressable:
  assumes "extent_in_device devs e"
  shows "addressable e"
  using assms device_last_sector_lt[of "devs ! unat (device_index e)"]
  by (auto simp: extent_in_device_def addressable_def simp del: device_last_sector_lt)

lemma disk_linear_extents: "set (disk b) = (\<Union>e\<in>set (linear_extents b). extent_sectors e)"
proof -
  have "extent_sectors e = {}" if "\<not> is_linear e" for e using that by (cases e) auto
  then show ?thesis
    by (auto simp: disk_def linear_extents_def set_phys)
qed

lemma linear_extents_in_device:
  assumes "alloc_ok b" "e \<in> set (linear_extents b)"
  shows "extent_in_device (b_block_devices b) e" "is_linear e" "addressable e"
  using assms extent_in_device_addressable
  by (auto simp: alloc_ok_def linear_extents_def list_all_iff)

text \<open>The extents of all partitions, as intervals, are disjoint.\<close>

lemma phys_as_intervals:
  assumes "list_all addressable es"
  shows "phys es = concat (map interval_list (map AsInterval (filter is_linear es)))"
  using assms
proof (induction es)
  case Nil
  then show ?case by simp
next
  case (Cons e es)
  then show ?case
  proof (cases e)
    case (LinearExtent n d p)
    then show ?thesis
      using Cons unat_end_sector[of e]
      by (simp add: interval_list_def AsInterval_def mk_interval_def)
  qed auto
qed

lemma disk_as_intervals:
  assumes "alloc_ok b"
  shows "disk b = concat (map interval_list (map AsInterval (linear_extents b)))"
proof -
  have "list_all addressable (concat (map pt_extents ps))
      \<Longrightarrow> concat (map (\<lambda>p. phys (pt_extents p)) ps) = phys (concat (map pt_extents ps))" for ps
    by (induction ps) auto
  moreover have ad: "list_all addressable (concat (map pt_extents (b_partitions b)))"
    using assms by (auto simp: alloc_ok_def partition_ok_def list_all_iff)
  ultimately have "disk b = phys (concat (map pt_extents (b_partitions b)))"
    by (simp only: disk_def)
  then show ?thesis
    using phys_as_intervals[OF ad] by (simp only: linear_extents_def)
qed

lemma linear_intervals_disjoint:
  "alloc_ok b \<Longrightarrow> disjoint_intervals (map AsInterval (linear_extents b))"
  unfolding disjoint_intervals_iff using disk_as_intervals[of b] by (simp only: alloc_ok_def)

lemma disjoint_intervals_filter_map:
  "disjoint_intervals (map f xs) \<Longrightarrow> disjoint_intervals (map f (filter P xs))"
  by (simp add: disjoint_intervals_def sorted_wrt_map sorted_wrt_filter)

lemma unat_last_sector: "unat (bd_size d div LP_SECTOR_SIZE) = device_last_sector d"
  by (simp add: device_last_sector_def unat_div LP_SECTOR_SIZE_def)

lemma device_intervals_props:
  assumes ok: "alloc_ok b" and i: "i < length (b_block_devices b)"
  shows "disjoint_intervals (device_intervals b i)"
    and "\<forall>v\<in>set (device_intervals b i). iv_start v \<le> iv_end v \<and> iv_device_index v = of_nat i \<and>
      bd_first_logical_sector (b_block_devices b ! i) \<le> iv_start v \<and>
      unat (iv_end v) \<le> device_last_sector (b_block_devices b ! i)"
    and "sorted_wrt (\<lambda>a b. iv_end a \<le> iv_start b) (device_intervals b i)"
    and "AsInterval ` {e \<in> set (linear_extents b). unat (device_index e) = i} \<subseteq> set (device_intervals b i)"
proof -
  let ?d = "b_block_devices b ! i"
  let ?F = "bd_first_logical_sector ?d" and ?L = "bd_size ?d div LP_SECTOR_SIZE"
  let ?es = "filter (\<lambda>e. unat (device_index e) = i) (linear_extents b)"
  let ?ms = "[mk_interval (of_nat i) ?F ?F, mk_interval (of_nat i) ?L ?L]"
  let ?all = "map AsInterval ?es @ ?ms"
  have FL: "unat ?F \<le> device_last_sector ?d" and len: "length (b_block_devices b) < 4294967296"
    using ok i by (auto simp: alloc_ok_def devices_ok_def list_all_length)
  have FLw: "?F \<le> ?L" using FL by (simp add: word_le_nat_alt unat_last_sector)
  have sets: "set (device_intervals b i) = set ?all" and ms: "mset (device_intervals b i) = mset ?all"
    by (simp_all add: device_intervals_def Let_def)
  have e: "iv_start (AsInterval e) < iv_end (AsInterval e) \<and> iv_device_index (AsInterval e) = of_nat i \<and>
      ?F \<le> iv_start (AsInterval e) \<and> unat (iv_end (AsInterval e)) \<le> device_last_sector ?d"
    if "e \<in> set ?es" for e
  proof -
    have m: "e \<in> set (linear_extents b)" "unat (device_index e) = i" using that by auto
    have "device_index e = of_nat i" by (simp flip: m(2))
    with linear_extents_in_device[OF ok m(1)] m(2) show ?thesis
      using unat_end_sector[of e]
      by (auto simp: extent_in_device_def AsInterval_def mk_interval_def word_le_nat_alt
          word_less_nat_alt)
  qed
  then have all: "\<forall>v\<in>set ?all. iv_start v \<le> iv_end v \<and> iv_device_index v = of_nat i \<and>
      ?F \<le> iv_start v \<and> unat (iv_end v) \<le> device_last_sector ?d"
    using FLw unat_last_sector[of ?d] FL
    by (auto simp: mk_interval_def less_imp_le)
  then show p: "\<forall>v\<in>set (device_intervals b i). iv_start v \<le> iv_end v \<and> iv_device_index v = of_nat i \<and>
      ?F \<le> iv_start v \<and> unat (iv_end v) \<le> device_last_sector ?d"
    unfolding sets .
  have "disjoint_intervals (map AsInterval ?es)"
    using linear_intervals_disjoint[OF ok] by (rule disjoint_intervals_filter_map)
  moreover have "disjoint_intervals ?ms" and "\<forall>v\<in>set ?ms. interval_sectors v = {}"
    by (simp_all add: disjoint_intervals_def interval_sectors_def mk_interval_def)
  ultimately have "disjoint_intervals ?all"
    unfolding disjoint_intervals_append by blast
  then show dis: "disjoint_intervals (device_intervals b i)"
    using disjoint_intervals_mset[OF ms] by simp
  show "sorted_wrt (\<lambda>a b. iv_end a \<le> iv_start b) (device_intervals b i)"
  proof (rule sorted_separated)
    show "sorted (map (\<lambda>v. (iv_start v, iv_end v)) (device_intervals b i))"
      by (simp add: device_intervals_def Let_def)
    show "\<forall>v\<in>set (device_intervals b i). iv_start v \<le> iv_end v \<and> iv_device_index v = of_nat i"
      using p by blast
    show "\<forall>x\<in>set (device_intervals b i). \<forall>y\<in>set (device_intervals b i).
        iv_start y = iv_end y \<longrightarrow> \<not> (iv_start x < iv_start y \<and> iv_start y < iv_end x)"
    proof (intro ballI impI notI)
      fix x y assume x: "x \<in> set (device_intervals b i)" and y: "y \<in> set (device_intervals b i)"
        and em: "iv_start y = iv_end y" and st: "iv_start x < iv_start y \<and> iv_start y < iv_end x"
      have "y \<in> set ?ms" using y em e unfolding sets by fastforce
      then have "iv_start y = ?F \<or> iv_start y = ?L" by (auto simp: mk_interval_def)
      moreover have "?F \<le> iv_start x" "unat (iv_end x) \<le> unat ?L"
        using p x unat_last_sector[of ?d] by auto
      ultimately show False using st by (auto simp: word_le_nat_alt word_less_nat_alt)
    qed
  qed (rule dis)
  show "AsInterval ` {e \<in> set (linear_extents b). unat (device_index e) = i} \<subseteq> set (device_intervals b i)"
    unfolding sets by auto
qed

end
