(* ===== verification/LpAllocSafe.thy ===== *)
theory LpAllocSafe imports LpFreeList begin

text \<open>
  \<open>ResizePartition\<close> keeps the allocation invariant: the free regions are free, the loop takes
  disjoint pieces of them, and the extension of the last extent is checked against both.
\<close>

section \<open>Free regions\<close>

text \<open>The order on separated intervals of one device gives disjointness.\<close>

lemma separated_disjoint:
  assumes "sorted_wrt (\<lambda>a b. iv_end a \<le> iv_start b) xs"
  shows "disjoint_intervals xs"
  unfolding disjoint_intervals_def
  by (rule sorted_wrt_mono_rel[OF _ assms])
    (auto simp: interval_sectors_def word_le_nat_alt)

lemma extent_sectors_device:
  "(d, s) \<in> extent_sectors e \<Longrightarrow> is_linear e \<and> d = device_index e"
  by (cases e) auto

lemma GetFreeRegions_ok:
  assumes ok: "alloc_ok b"
  shows "\<exists>rs. GetFreeRegions b = Inr rs \<and> regions_ok b rs"
proof -
  let ?devs = "b_block_devices b"
  let ?free = "\<lambda>i. ExtentsToFreeList ?devs (device_intervals b i)"
  let ?rs = "concat (map ?free [0..<length ?devs])"
  have len: "length ?devs < 4294967296" using ok by (simp add: alloc_ok_def devices_ok_def)
  have chk: "list_all (\<lambda>e. unat (device_index e) < length ?devs) (linear_extents b)"
    using linear_extents_in_device[OF ok] by (auto simp: list_all_iff extent_in_device_def)
  have lt55: "\<forall>v\<in>set (device_intervals b i). unat (iv_end v) < 2 ^ 55 \<and> iv_start v \<le> iv_end v"
    if "i < length ?devs" for i
  proof
    fix v assume "v \<in> set (device_intervals b i)"
    with device_intervals_props(2)[OF ok that]
    have v: "iv_start v \<le> iv_end v" "unat (iv_end v) \<le> device_last_sector (?devs ! i)" by auto
    from le_less_trans[OF v(2) device_last_sector_lt] v(1)
    show "unat (iv_end v) < 2 ^ 55 \<and> iv_start v \<le> iv_end v" by simp
  qed
  have mem: "unat (iv_device_index r) = i \<and> region_in_device ?devs r"
    if i: "i < length ?devs" and r: "r \<in> set (?free i)" for i r
  proof -
    from ExtentsToFreeList_mem[OF r] lt55[OF i] obtain prev cur where
      x: "prev \<in> set (device_intervals b i)" "cur \<in> set (device_intervals b i)"
        "iv_end prev \<le> iv_start r" "iv_start r < iv_end r" "iv_end r = iv_start cur"
        "iv_device_index r = iv_device_index cur"
      by fastforce
    note p = device_intervals_props(2)[OF ok i]
    have di: "unat (iv_device_index r) = i"
      using p x(2,6) i len unat_of_nat_small[of i, where 'a = 32] by simp
    have "bd_first_logical_sector (?devs ! i) \<le> iv_start prev" "iv_start prev \<le> iv_end prev"
      using p x(1) by auto
    with x(3) have lo: "bd_first_logical_sector (?devs ! i) \<le> iv_start r"
      using order_trans by blast
    have "unat (iv_start cur) \<le> unat (iv_end cur)"
      "unat (iv_end cur) \<le> device_last_sector (?devs ! i)"
      using p x(2) by (auto simp: word_le_nat_alt)
    then show ?thesis
      using di lo x(4,5) i by (simp add: region_in_device_def)
  qed
  have dis: "disjoint_intervals ?rs"
  proof (rule disjoint_intervals_concat)
    fix i assume "i \<in> set [0..<length ?devs]"
    then have i: "i < length ?devs" by simp
    from ExtentsToFreeList_sorted[OF device_intervals_props(3)[OF ok i] lt55[OF i]]
    show "disjoint_intervals (?free i)" by (rule separated_disjoint)
  next
    have "sorted_wrt (<) [0..<length ?devs]" by (rule sorted_wrt_upt)
    then show "sorted_wrt (\<lambda>i j. \<forall>x\<in>set (?free i). \<forall>y\<in>set (?free j).
        interval_sectors x \<inter> interval_sectors y = {}) [0..<length ?devs]"
    proof (rule sorted_wrt_mono_rel[rotated])
      fix i j assume ij: "i \<in> set [0..<length ?devs]" "j \<in> set [0..<length ?devs]" "i < j"
      then have "iv_device_index x \<noteq> iv_device_index y"
        if "x \<in> set (?free i)" "y \<in> set (?free j)" for x y
        using mem[of i x] mem[of j y] that by auto
      then show "\<forall>x\<in>set (?free i). \<forall>y\<in>set (?free j). interval_sectors x \<inter> interval_sectors y = {}"
        by (auto simp: interval_sectors_def)
    qed
  qed
  have free: "interval_sectors r \<inter> set (disk b) = {}" if "r \<in> set ?rs" for r
  proof -
    from that obtain i where i: "i < length ?devs" and r: "r \<in> set (?free i)" by auto
    have "(d, s) \<notin> set (disk b)" if ds: "(d, s) \<in> interval_sectors r" for d s
    proof
      assume "(d, s) \<in> set (disk b)"
      then obtain e where e: "e \<in> set (linear_extents b)" "(d, s) \<in> extent_sectors e"
        by (auto simp: disk_linear_extents)
      have "d = iv_device_index r" using ds by (auto simp: interval_sectors_def)
      then have "unat (device_index e) = i"
        using mem[OF i r] extent_sectors_device[OF e(2)] by simp
      then have "AsInterval e \<in> set (device_intervals b i)"
        using device_intervals_props(4)[OF ok i] e(1) by auto
      from ExtentsToFreeList_disjoint[OF device_intervals_props(3)[OF ok i] lt55[OF i] r this]
      have "interval_sectors r \<inter> interval_sectors (AsInterval e) = {}" .
      moreover have "extent_sectors e = interval_sectors (AsInterval e)"
        using linear_extents_in_device[OF ok e(1)] by (intro extent_sectors_AsInterval)
      ultimately show False using ds e(2) by blast
    qed
    then show ?thesis by auto
  qed
  have "regions_ok b ?rs"
    using mem dis free by (auto simp: regions_ok_def list_all_iff)
  then show ?thesis using chk by (simp add: GetFreeRegions_def)
qed

text \<open>Intersecting with a list of disjoint hints and reordering keep the regions usable.\<close>

lemma regions_ok_IntersectLists:
  assumes "regions_ok b rs" "disjoint_intervals hint"
  shows "regions_ok b (IntersectLists rs hint)"
proof -
  have sub: "interval_sectors (Intersect a h) \<subseteq> interval_sectors a"
    "interval_sectors (Intersect a h) \<subseteq> interval_sectors h" for a h
    by (auto simp: Intersect_sectors)
  have "disjoint_intervals (IntersectLists rs hint)"
    unfolding IntersectLists_def
  proof (rule disjoint_intervals_concat)
    fix a
    have "disjoint_intervals (map (Intersect a) hint)"
      using assms(2) unfolding disjoint_intervals_def sorted_wrt_map
      by (rule sorted_wrt_mono_rel[rotated]) (auto simp: Intersect_sectors)
    then show "disjoint_intervals (filter (\<lambda>i. iv_length i > 0) (map (Intersect a) hint))"
      by (simp add: disjoint_intervals_def sorted_wrt_filter)
  next
    have "sorted_wrt (\<lambda>a b. interval_sectors a \<inter> interval_sectors b = {}) rs"
      using assms(1) by (simp add: regions_ok_def disjoint_intervals_def)
    then show "sorted_wrt (\<lambda>x y. \<forall>a\<in>set (filter (\<lambda>i. iv_length i > 0) (map (Intersect x) hint)).
        \<forall>b\<in>set (filter (\<lambda>i. iv_length i > 0) (map (Intersect y) hint)).
        interval_sectors a \<inter> interval_sectors b = {}) rs"
      by (rule sorted_wrt_mono_rel[rotated]) (auto simp: Intersect_sectors)
  qed
  moreover have "region_in_device (b_block_devices b) i \<and> interval_sectors i \<inter> set (disk b) = {}"
    if i: "i \<in> set (IntersectLists rs hint)" for i
  proof -
    from i obtain a h where ah: "a \<in> set rs" "i = Intersect a h" "iv_length i > 0"
      by (auto simp: IntersectLists_def)
    have a: "region_in_device (b_block_devices b) a" "interval_sectors a \<inter> set (disk b) = {}"
      using assms(1) ah(1) by (auto simp: regions_ok_def list_all_iff)
    have ne: "iv_start i < iv_end i"
      using ah(3) Intersect_start_le_end[of a h] by (auto simp: ah(2) iv_length_def order_less_le)
    moreover have "iv_end i = min (iv_end a) (iv_end h)"
    proof -
      have "max s m = m" if "s < max s m" for s m :: u64
        using that by (simp add: max_def split: if_splits)
      then show ?thesis
        using ne by (simp add: ah(2) Intersect_def Let_def split: if_splits)
    qed
    moreover have "iv_start a \<le> iv_start i"
      by (simp add: ah(2) Intersect_def Let_def)
    ultimately show ?thesis
      using a sub(1)[of a h] by (auto simp: region_in_device_def ah(2) word_le_nat_alt min_def)
  qed
  ultimately show ?thesis by (auto simp: regions_ok_def list_all_iff)
qed

lemma regions_ok_reorder:
  assumes "regions_ok b rs" "mset rs' = mset rs"
  shows "regions_ok b rs'"
  using assms disjoint_intervals_mset[OF assms(2)] mset_eq_setD[OF assms(2)]
  by (simp add: regions_ok_def list_all_iff)

lemma regions_ok_refine:
  assumes ok: "regions_ok b rs"
    and pieces: "\<And>r. r \<in> set rs \<Longrightarrow> disjoint_intervals (f r) \<and>
      (\<forall>x\<in>set (f r). region_in_device (b_block_devices b) x \<and> interval_sectors x \<subseteq> interval_sectors r)"
  shows "regions_ok b (concat (map f rs))"
proof -
  have "disjoint_intervals (concat (map f rs))"
  proof (rule disjoint_intervals_concat)
    have "sorted_wrt (\<lambda>a b. interval_sectors a \<inter> interval_sectors b = {}) rs"
      using ok by (simp add: regions_ok_def disjoint_intervals_def)
    then show "sorted_wrt (\<lambda>x y. \<forall>a\<in>set (f x). \<forall>b\<in>set (f y).
        interval_sectors a \<inter> interval_sectors b = {}) rs"
    proof (rule sorted_wrt_mono_rel[rotated])
      fix x y assume xy: "x \<in> set rs" "y \<in> set rs" "interval_sectors x \<inter> interval_sectors y = {}"
      show "\<forall>a\<in>set (f x). \<forall>b\<in>set (f y). interval_sectors a \<inter> interval_sectors b = {}"
        using pieces[OF xy(1)] pieces[OF xy(2)] xy(3) by blast
    qed
  qed (use pieces in blast)
  moreover have "region_in_device (b_block_devices b) x \<and> interval_sectors x \<inter> set (disk b) = {}"
    if "x \<in> set (concat (map f rs))" for x
  proof -
    from that obtain r where r: "r \<in> set rs" "x \<in> set (f r)" by auto
    with ok have "interval_sectors r \<inter> set (disk b) = {}" by (auto simp: regions_ok_def)
    with pieces[OF r(1)] r(2) show ?thesis by blast
  qed
  ultimately show ?thesis by (auto simp: regions_ok_def list_all_iff)
qed

lemma mset_concat_two:
  "mset (concat (map f xs) @ concat (map g xs)) = mset (concat (map (\<lambda>x. f x @ g x) xs))"
  by (induction xs) (auto simp: ac_simps)

lemma PrioritizeSecondHalfOfSuper_ok:
  assumes ok: "regions_ok b rs" and res: "PrioritizeSecondHalfOfSuper b rs = Inr rs'"
  shows "regions_ok b rs'"
proof -
  from res obtain super where super: "vec_at (b_block_devices b) 0 = Inr super"
    by (auto simp: PrioritizeSecondHalfOfSuper_def bind_run_eq_Inr_iff)
  show ?thesis
  proof (cases "AlignSector super (bd_first_logical_sector super +
      (bd_size super div LP_SECTOR_SIZE - bd_first_logical_sector super) div 2)")
    case None
    with res super ok show ?thesis by (simp add: PrioritizeSecondHalfOfSuper_def Let_def)
  next
    case (Some m)
    let ?in_first = "\<lambda>r. iv_device_index r \<noteq> 0 \<or> iv_end r \<le> m"
    let ?split = "\<lambda>r. iv_start r < m \<and> iv_end r > m"
    let ?f1 = "\<lambda>r. if ?in_first r then [r] else if ?split r
      then [mk_interval (iv_device_index r) (iv_start r) m] else []"
    let ?f2 = "\<lambda>r. if ?in_first r then [] else if ?split r
      then [mk_interval (iv_device_index r) m (iv_end r)] else [r]"
    have rs': "rs' = concat (map ?f2 rs) @ concat (map ?f1 rs)"
      using res super Some by (simp add: PrioritizeSecondHalfOfSuper_def Let_def)
    have "regions_ok b (concat (map (\<lambda>r. ?f2 r @ ?f1 r) rs))"
    proof (rule regions_ok_refine[OF ok])
      fix r assume "r \<in> set rs"
      then have r: "region_in_device (b_block_devices b) r"
        using ok by (auto simp: regions_ok_def list_all_iff)
      show "disjoint_intervals (?f2 r @ ?f1 r) \<and> (\<forall>x\<in>set (?f2 r @ ?f1 r).
          region_in_device (b_block_devices b) x \<and> interval_sectors x \<subseteq> interval_sectors r)"
      proof (cases "?in_first r \<or> \<not> ?split r")
        case True
        then have one: "?f2 r @ ?f1 r = [r]" by auto
        show ?thesis using r by (simp only: one) (simp add: disjoint_intervals_def)
      next
        case False
        then have two: "?f2 r @ ?f1 r = [mk_interval (iv_device_index r) m (iv_end r),
            mk_interval (iv_device_index r) (iv_start r) m]" "iv_start r < m" "m < iv_end r"
          by auto
        have "bd_first_logical_sector (b_block_devices b ! unat (iv_device_index r)) \<le> m"
          using r two(2) by (auto simp: region_in_device_def)
        moreover have "unat m \<le> device_last_sector (b_block_devices b ! unat (iv_device_index r))"
          using r two(3) by (auto simp: region_in_device_def word_less_nat_alt)
        ultimately show ?thesis using r two(2,3)
          by (simp only: two(1)) (auto simp: disjoint_intervals_def region_in_device_def
              mk_interval_def interval_sectors_def word_less_nat_alt)
      qed
    qed
    then show ?thesis
      by (rule regions_ok_reorder) (simp only: rs' mset_concat_two)
  qed
qed

lemma candidate_regions_ok:
  assumes ok: "alloc_ok b" and hint: "disjoint_intervals hint"
    and res: "candidate_regions store b p hint = Inr rs"
  shows "regions_ok b rs"
proof -
  from GetFreeRegions_ok[OF ok] obtain free where f: "GetFreeRegions b = Inr free" "regions_ok b free"
    by blast
  let ?fr = "if hint \<noteq> [] then IntersectLists free hint else free"
  have fr: "regions_ok b ?fr" using f(2) hint regions_ok_IntersectLists by simp
  show ?thesis
    using res fr PrioritizeSecondHalfOfSuper_ok[OF fr]
    by (auto simp: candidate_regions_def f(1) Let_def simp del: if_split_asm split: if_splits)
qed

section \<open>The allocation loop\<close>

text \<open>A linear extent cut from the front of a region.\<close>

definition piece_of :: "Interval \<Rightarrow> Extent \<Rightarrow> bool" where
  "piece_of r e \<longleftrightarrow> is_linear e \<and> device_index e = iv_device_index r \<and>
     0 < unat (num_sectors e) \<and> iv_start r \<le> physical_sector e \<and>
     unat (physical_sector e) + unat (num_sectors e) \<le> unat (iv_end r)"

lemma piece_of_sectors: "piece_of r e \<Longrightarrow> extent_sectors e \<subseteq> interval_sectors r"
  by (cases e) (auto simp: piece_of_def interval_sectors_def word_le_nat_alt)

lemma distinct_phys_single: "distinct (phys [e])"
  by (cases e) (auto simp: distinct_map inj_on_def)

lemma phys_Cons: "phys (e # es) = phys [e] @ phys es"
  by (metis append_Cons append_Nil phys_simps(2))

lemma unat_iv_length: "iv_start r \<le> iv_end r \<Longrightarrow> unat (iv_length r) = unat (iv_end r) - unat (iv_start r)"
  unfolding iv_length_def by (intro unat_sub_small) (simp add: word_le_nat_alt)

text \<open>Rounding a region down to whole blocks.\<close>

lemma nat_add_le_of_le_diff: "q \<le> l \<Longrightarrow> l = e - s \<Longrightarrow> s < e \<Longrightarrow> s + q \<le> (e::nat)"
  by simp

lemma trimmed_region:
  assumes "iv_start r < iv_end r" "spb \<noteq> 0"
  defines "r' \<equiv> r\<lparr>iv_end := iv_start r + iv_length r div spb * spb\<rparr>"
  shows "iv_length r' = iv_length r div spb * spb" "iv_start r' \<le> iv_end r'"
    "unat (iv_end r') \<le> unat (iv_end r)" "iv_start r' = iv_start r"
    "iv_device_index r' = iv_device_index r"
proof -
  let ?l = "iv_length r"
  have ul: "unat ?l = unat (iv_end r) - unat (iv_start r)"
    using assms(1) by (intro unat_iv_length) simp
  have le: "unat ?l div unat spb * unat spb \<le> unat ?l" by simp
  have ut: "unat (?l div spb * spb) = unat ?l div unat spb * unat spb"
    using le_less_trans[OF le unat_less_exp[of ?l]]
    by (subst unat_mult_small) (simp_all add: unat_div)
  have sum: "unat (iv_start r) + unat (?l div spb * spb) \<le> unat (iv_end r)"
    by (rule nat_add_le_of_le_diff[OF _ ul]) (use le ut assms(1) in \<open>simp_all only: word_less_nat_alt\<close>)
  then have ue: "unat (iv_start r + ?l div spb * spb) = unat (iv_start r) + unat (?l div spb * spb)"
    using unat_less_exp[of "iv_end r"] by (intro unat_add_small) linarith
  show "iv_length r' = ?l div spb * spb" by (simp add: r'_def iv_length_def)
  show "iv_start r' \<le> iv_end r'" by (simp add: r'_def word_le_nat_alt ue)
  show "unat (iv_end r') \<le> unat (iv_end r)" using sum by (simp add: r'_def ue)
  show "iv_start r' = iv_start r" "iv_device_index r' = iv_device_index r" by (simp_all add: r'_def)
qed

lemma grow_loop_spec:
  assumes "\<forall>r\<in>set rs. iv_start r < iv_end r" "spb \<noteq> 0" "disjoint_intervals rs"
    and "grow_loop spb rs need acc = Inr (rem, out)"
  shows "\<exists>news. out = acc @ news \<and> unat need = unat rem + total_sectors news \<and>
    (\<forall>e\<in>set news. \<exists>r\<in>set rs. piece_of r e) \<and> distinct (phys news)"
  using assms
proof (induction rs arbitrary: need acc)
  case Nil
  then show ?case by simp
next
  case (Cons r rs)
  show ?case
  proof (cases "need = 0")
    case True
    with Cons.prems show ?thesis by simp
  next
    case nz: False
    let ?bad = "misaligned_region spb r"
    let ?r' = "trim_region spb r"
    have rlt: "iv_start r < iv_end r" using Cons.prems(1) by simp
    have r': "iv_start ?r' \<le> iv_end ?r'" "unat (iv_end ?r') \<le> unat (iv_end r)"
      "iv_start ?r' = iv_start r" "iv_device_index ?r' = iv_device_index r"
      using trimmed_region[OF rlt Cons.prems(2)] rlt by (auto simp: trim_region_def)
    show ?thesis
    proof (cases "?bad \<and> iv_length ?r' = 0")
      case True
      then have "grow_loop spb rs need acc = Inr (rem, out)"
        using Cons.prems(4) nz by (simp add: Let_def)
      with Cons.prems(1-3) obtain news where "out = acc @ news"
        "unat need = unat rem + total_sectors news" "\<forall>e\<in>set news. \<exists>r\<in>set rs. piece_of r e"
        "distinct (phys news)"
        using Cons.IH[of need acc] by (auto simp: disjoint_intervals_def)
      then show ?thesis by auto
    next
      case False
      let ?s = "min need (iv_length ?r')"
      let ?e = "LinearExtent ?s (iv_device_index ?r') (iv_start ?r')"
      have ul: "unat (iv_length ?r') = unat (iv_end ?r') - unat (iv_start ?r')"
        by (rule unat_iv_length[OF r'(1)])
      have pos: "0 < unat (iv_length ?r')"
      proof (cases ?bad)
        case True
        with False have "iv_length ?r' \<noteq> 0" by simp
        then show ?thesis by (simp add: unat_gt_0)
      next
        case ok: False
        then have "?r' = r" by (simp add: trim_region_def)
        then show ?thesis using rlt ul by (simp add: word_less_nat_alt)
      qed
      have us: "unat ?s = min (unat need) (unat (iv_length ?r'))"
        by (simp add: min_def word_le_nat_alt)
      have piece: "piece_of r ?e"
        using us pos nz r' ul by (simp add: piece_of_def unat_gt_0)
      have step: "grow_loop spb rs (need - ?s) (acc @ [?e]) = Inr (rem, out)"
        using Cons.prems(4) nz False by (simp add: Let_def check_eq_Inr_iff del: if_split)
      from Cons.IH[OF _ Cons.prems(2) _ step] Cons.prems(1,3) obtain news where n:
        "out = acc @ ?e # news" "unat (need - ?s) = unat rem + total_sectors news"
        "\<forall>e\<in>set news. \<exists>r\<in>set rs. piece_of r e" "distinct (phys news)"
        by (auto simp: disjoint_intervals_def)
      have "unat (need - ?s) = unat need - unat ?s"
        by (rule unat_sub_small) (simp add: us)
      then have cnt: "unat need = unat rem + total_sectors (?e # news)"
        using n(2) us by simp
      have "set (phys [?e]) \<subseteq> interval_sectors r"
        using piece_of_sectors[OF piece] unfolding set_phys by auto
      moreover have "set (phys news) \<subseteq> (\<Union>r\<in>set rs. interval_sectors r)"
        unfolding set_phys using n(3) piece_of_sectors by blast
      moreover have "\<forall>x\<in>set rs. interval_sectors r \<inter> interval_sectors x = {}"
        using Cons.prems(3) by (simp add: disjoint_intervals_def)
      ultimately have "set (phys [?e]) \<inter> set (phys news) = {}" by blast
      then have "distinct (phys (?e # news))"
        unfolding phys_Cons[of ?e news] using n(4) distinct_phys_single[of ?e] by simp
      then show ?thesis
        using n(1,3) cnt piece
        by (intro exI[of _ "?e # news"]) auto
    qed
  qed
qed

section \<open>Extending the last extent\<close>

text \<open>
  \<open>ExtendFinalExtent\<close> takes the sectors between the end of the last extent and the next aligned
  sector. They are inside the device when the last sector of the device is itself aligned.
\<close>

definition device_end_aligned :: "LpMetadataBlockDevice \<Rightarrow> bool" where
  "device_end_aligned d \<longleftrightarrow>
     AlignSector d (bd_size d div LP_SECTOR_SIZE) = Some (bd_size d div LP_SECTOR_SIZE)"

lemma AlignSector_SomeD:
  assumes "AlignSector d s = Some v" "unat s < 2 ^ 55"
  shows "unat v = round_up (round_up (unat s * 512) (unat (bd_alignment d))) 512 div 512"
proof -
  from assms(1) obtain a o' where a: "align_to (s * LP_SECTOR_SIZE) (bd_alignment d) = Some a"
    and o: "align_to a 512 = Some o'" and v: "v = o' div LP_SECTOR_SIZE"
    by (auto simp: AlignSector_def Let_def split: option.splits)
  show ?thesis
    using align_to_u64_SomeD[OF a] align_to_u64_SomeD[OF o] unat_sectors_bytes[OF assms(2)]
    by (simp add: v unat_div LP_SECTOR_SIZE_def)
qed

lemma AlignSector_mono:
  assumes "AlignSector d s = Some v" "AlignSector d t = Some w"
    and "unat t < 2 ^ 55" "unat s \<le> unat t"
  shows "unat v \<le> unat w"
proof -
  have "unat s < 2 ^ 55" using assms(3,4) by simp
  from AlignSector_SomeD[OF assms(1) this] AlignSector_SomeD[OF assms(2,3)]
  show ?thesis
    using assms(4) by (simp only:) (intro div_le_mono round_up_mono mult_le_mono1)
qed

lemma AlignSector_lt: "AlignSector d s = Some v \<Longrightarrow> unat v < 2 ^ 55"
proof -
  assume "AlignSector d s = Some v"
  then obtain o' :: u64 where "v = o' div LP_SECTOR_SIZE"
    by (auto simp: AlignSector_def Let_def split: option.splits)
  then show "unat v < 2 ^ 55"
    using unat_u64_lt[of o']
    by (simp add: unat_div LP_SECTOR_SIZE_def div_less_iff_less_mult del: unat_u64_lt)
qed

lemma OverlapsWith_sectors:
  assumes "\<not> OverlapsWith a e" "addressable a" "addressable e" "is_linear a" "is_linear e"
  shows "extent_sectors a \<inter> extent_sectors e = {}"
proof -
  obtain n d p n' d' p' where "a = LinearExtent n d p" "e = LinearExtent n' d' p'"
    using assms(4,5) by (cases a; cases e) auto
  then show ?thesis
    using assms(1) unat_end_sector[OF assms(2,4)] unat_end_sector[OF assms(3,5)]
    by (auto simp: OverlapsWith_def word_less_nat_alt)
qed

lemma OverlapsWithInterval_sectors:
  assumes "\<not> OverlapsWithInterval e r" "addressable e" "is_linear e"
  shows "interval_sectors r \<inter> extent_sectors e = {}"
proof -
  obtain n d p where "e = LinearExtent n d p" using assms(3) by (cases e) auto
  then show ?thesis
    using assms(1) unat_end_sector[OF assms(2,3)]
    by (auto simp: OverlapsWithInterval_def interval_sectors_def word_less_nat_alt)
qed

lemma ExtendFinalExtent_spec:
  assumes ok: "alloc_ok b" and p: "p \<in> set (b_partitions b)" and regs: "regions_ok b rs"
    and aligned: "list_all device_end_aligned (b_block_devices b)"
    and need: "need \<noteq> 0" and res: "ExtendFinalExtent b p rs need = Inr (Some e)"
  shows "extent_in_device (b_block_devices b) e" "is_linear e"
    "num_sectors e \<le> need" "extent_sectors e \<inter> set (disk b) = {}"
    "\<forall>r\<in>set rs. interval_sectors r \<inter> extent_sectors e = {}"
proof -
  let ?devs = "b_block_devices b"
  define l where "l = last (pt_extents p)"
  from res obtain v where ne: "pt_extents p \<noteq> []" and lin: "is_linear l"
    and di: "unat (device_index l) < length ?devs"
    and al: "AlignSector (?devs ! unat (device_index l)) (end_sector l) = Some v"
    and nv: "end_sector l \<noteq> v"
    and e: "e = LinearExtent (min (v - end_sector l) need) (device_index l) (end_sector l)"
    and na: "\<not> IsAnyRegionAllocated b e" and nc: "\<not> IsAnyRegionCovered rs e"
    by (auto simp: ExtendFinalExtent_def Let_def l_def bind_run_eq_Inr_iff vec_at_eq_Inr_iff
        split: option.splits if_splits)
  let ?d = "?devs ! unat (device_index l)"
  have "l \<in> set (pt_extents p)" using ne by (simp add: l_def)
  with ok p have lin_dev: "extent_in_device ?devs l"
    by (auto simp: alloc_ok_def list_all_iff)
  then have add_l: "addressable l" by (rule extent_in_device_addressable)
  have ue: "unat (end_sector l) = unat (physical_sector l) + unat (num_sectors l)"
    by (rule unat_end_sector[OF add_l lin])
  have last: "unat (bd_size ?d div LP_SECTOR_SIZE) = device_last_sector ?d"
    by (simp add: device_last_sector_def unat_div LP_SECTOR_SIZE_def)
  have ule: "unat (end_sector l) \<le> device_last_sector ?d"
    using lin_dev lin ue by (simp add: extent_in_device_def)
  have s55: "unat (end_sector l) < 2 ^ 55"
    using le_less_trans[OF ule device_last_sector_lt] by simp
  have "device_end_aligned ?d" using aligned di by (simp add: list_all_length)
  then have "AlignSector ?d (bd_size ?d div LP_SECTOR_SIZE) = Some (bd_size ?d div LP_SECTOR_SIZE)"
    by (simp only: device_end_aligned_def)
  from AlignSector_mono[OF al this, unfolded last] ule device_last_sector_lt[of ?d]
  have "unat v \<le> device_last_sector ?d" by simp
  moreover have vge: "unat (end_sector l) \<le> unat v"
    using AlignSector_ge[OF al s55] by (simp add: word_le_nat_alt)
  moreover have "unat (v - end_sector l) = unat v - unat (end_sector l)"
    by (rule unat_sub_small[OF vge])
  moreover have n: "unat (num_sectors e) = min (unat (v - end_sector l)) (unat need)"
    by (simp add: e min_def word_le_nat_alt)
  moreover have "unat v \<noteq> unat (end_sector l)" using nv by (metis word_unat_eq_iff)
  moreover have "0 < unat need" using need by (simp add: unat_gt_0)
  ultimately have pos: "0 < unat (num_sectors e)"
    "unat (end_sector l) + unat (num_sectors e) \<le> device_last_sector ?d" by auto
  show lin_e: "is_linear e" by (simp add: e)
  show "num_sectors e \<le> need" by (simp add: e)
  show in_dev: "extent_in_device ?devs e"
    using pos di lin_dev lin ue by (simp add: extent_in_device_def e)
  have add_e: "addressable e" by (rule extent_in_device_addressable[OF in_dev])
  have "extent_sectors a \<inter> extent_sectors e = {}" if "a \<in> set (linear_extents b)" for a
    using that na linear_extents_in_device[OF ok that] add_e lin_e
    by (intro OverlapsWith_sectors) (auto simp: IsAnyRegionAllocated_def list_ex_iff)
  then show "extent_sectors e \<inter> set (disk b) = {}"
    by (auto simp: disk_linear_extents)
  show "\<forall>r\<in>set rs. interval_sectors r \<inter> extent_sectors e = {}"
    using nc add_e lin_e
    by (auto simp: IsAnyRegionCovered_def list_ex_iff dest!: OverlapsWithInterval_sectors)
qed

section \<open>The builder after a resize\<close>

lemma append_extent_in_device:
  assumes "list_all (extent_in_device devs) es" "extent_in_device devs e"
  shows "list_all (extent_in_device devs) (append_extent es e)"
proof (cases "is_linear e \<and> es \<noteq> [] \<and> is_linear (last es) \<and>
         end_sector (last es) = physical_sector e \<and> device_index (last es) = device_index e")
  case True
  have l: "extent_in_device devs (last es)" using True assms(1) by (simp add: list_all_iff)
  note add = extent_in_device_addressable[OF l] extent_in_device_addressable[OF assms(2)]
  have "unat (physical_sector e) = unat (physical_sector (last es)) + unat (num_sectors (last es))"
    using unat_end_sector[OF add(1)] True by simp
  moreover from this add(2) True
  have "unat (num_sectors (last es) + num_sectors e) =
      unat (num_sectors (last es)) + unat (num_sectors e)"
    by (intro unat_add_small) (simp add: addressable_def)
  ultimately have "extent_in_device devs (LinearExtent (num_sectors (last es) + num_sectors e)
      (device_index (last es)) (physical_sector (last es)))"
    using l assms(2) True by (simp add: extent_in_device_def)
  then show ?thesis
    using True assms(1) by (auto simp: append_extent_def list_all_iff dest: in_set_butlastD)
next
  case False
  then show ?thesis using assms unfolding append_extent_def if_not_P[OF False] by simp
qed

lemma foldl_AddExtent_in_device:
  assumes "list_all (extent_in_device devs) (pt_extents p)" "list_all (extent_in_device devs) es"
  shows "list_all (extent_in_device devs) (pt_extents (foldl AddExtent p es))"
  using assms by (induction es arbitrary: p) (simp_all add: append_extent_in_device)

lemma update_partition_fields [simp]:
  "b_partitions (update_partition b i p) = (b_partitions b)[i := p]"
  "b_block_devices (update_partition b i p) = b_block_devices b"
  "b_groups (update_partition b i p) = b_groups b"
  "b_geometry (update_partition b i p) = b_geometry b"
  "b_header (update_partition b i p) = b_header b"
  "b_auto_slot_suffixing (update_partition b i p) = b_auto_slot_suffixing b"
  by (simp_all add: update_partition_def)

lemma concat_map_split:
  assumes "i < length ps"
  shows "concat (map g ps) = concat (map g (take i ps)) @ g (ps ! i) @ concat (map g (drop (Suc i) ps))"
proof -
  have "concat (map g (take i ps @ ps ! i # drop (Suc i) ps)) =
      concat (map g (take i ps)) @ g (ps ! i) @ concat (map g (drop (Suc i) ps))"
    by simp
  then show ?thesis by (simp only: id_take_nth_drop[OF assms, symmetric])
qed

lemma disk_split:
  assumes "i < length (b_partitions b)"
  shows "\<exists>xs ys. disk b = xs @ phys (pt_extents (b_partitions b ! i)) @ ys \<and>
     (\<forall>p. disk (update_partition b i p) = xs @ phys (pt_extents p) @ ys)"
proof -
  let ?f = "\<lambda>ps. concat (map (\<lambda>p. phys (pt_extents p)) ps)"
  have "disk b = ?f (take i (b_partitions b)) @ phys (pt_extents (b_partitions b ! i))
      @ ?f (drop (Suc i) (b_partitions b))"
    unfolding disk_def by (rule concat_map_split[OF assms])
  moreover have "disk (update_partition b i p) = ?f (take i (b_partitions b)) @ phys (pt_extents p)
      @ ?f (drop (Suc i) (b_partitions b))" for p
    using assms by (simp add: disk_def upd_conv_take_nth_drop)
  ultimately show ?thesis by blast
qed

text \<open>Replacing one partition by one with more, fresh, sectors, or with fewer.\<close>

lemma alloc_ok_update:
  assumes "alloc_ok b" "i < length (b_partitions b)" "partition_ok p'"
    "list_all (extent_in_device (b_block_devices b)) (pt_extents p')"
    and "distinct (disk (update_partition b i p'))"
  shows "alloc_ok (update_partition b i p')"
  using assms by (simp add: alloc_ok_def list_all_length nth_list_update)

lemma alloc_ok_grow:
  assumes ok: "alloc_ok b" and i: "i < length (b_partitions b)"
    and p': "partition_ok p'" "list_all (extent_in_device (b_block_devices b)) (pt_extents p')"
    and ph: "phys (pt_extents p') = phys (pt_extents (b_partitions b ! i)) @ fresh"
    and fresh: "distinct fresh" "set fresh \<inter> set (disk b) = {}"
  shows "alloc_ok (update_partition b i p')"
proof -
  from disk_split[OF i] obtain xs ys where d:
    "disk b = xs @ phys (pt_extents (b_partitions b ! i)) @ ys"
    "disk (update_partition b i p') = xs @ phys (pt_extents p') @ ys" by blast
  have "distinct (disk b)" using ok by (simp add: alloc_ok_def)
  then have "distinct (disk (update_partition b i p'))"
    using fresh unfolding d ph by auto
  then show ?thesis using ok i p' by (intro alloc_ok_update)
qed

lemma alloc_ok_cut:
  assumes ok: "alloc_ok b" and i: "i < length (b_partitions b)"
    and p': "partition_ok p'" "list_all (extent_in_device (b_block_devices b)) (pt_extents p')"
    and ph: "phys (pt_extents (b_partitions b ! i)) = phys (pt_extents p') @ rest"
  shows "alloc_ok (update_partition b i p')"
proof -
  from disk_split[OF i] obtain xs ys where d:
    "disk b = xs @ phys (pt_extents (b_partitions b ! i)) @ ys"
    "disk (update_partition b i p') = xs @ phys (pt_extents p') @ ys" by blast
  have "distinct (disk b)" using ok by (simp add: alloc_ok_def)
  then have "distinct (disk (update_partition b i p'))"
    unfolding d ph by auto
  then show ?thesis using ok i p' by (intro alloc_ok_update)
qed

section \<open>Growing\<close>

definition geometry_ok :: "LpMetadataGeometry \<Rightarrow> bool" where
  "geometry_ok g \<longleftrightarrow> g_logical_block_size g \<noteq> 0 \<and> 512 dvd unat (g_logical_block_size g)"

lemma piece_in_device:
  assumes "regions_ok b rs" "r \<in> set rs" "piece_of r e"
  shows "extent_in_device (b_block_devices b) e"
proof -
  have "region_in_device (b_block_devices b) r"
    using assms(1,2) by (auto simp: regions_ok_def list_all_iff)
  with assms(3) show ?thesis
    by (auto simp: piece_of_def region_in_device_def extent_in_device_def word_le_nat_alt)
qed

text \<open>
  The extents a successful \<open>GrowPartition\<close> adds: as many sectors as were missing, in device,
  distinct, and on no sector in use.
\<close>

lemma allocation_spec:
  assumes ok: "alloc_ok b" and p: "p \<in> set (b_partitions b)" and regs: "regions_ok b rs"
    and aligned: "list_all device_end_aligned (b_block_devices b)" and spb: "spb \<noteq> 0"
    and need: "need \<noteq> 0" and final: "ExtendFinalExtent b p rs need = Inr final"
    and loop: "grow_loop spb rs
      (case final of None \<Rightarrow> need | Some e \<Rightarrow> need - num_sectors e)
      (case final of None \<Rightarrow> [] | Some e \<Rightarrow> [e]) = Inr (0, out)"
  shows "total_sectors out = unat need" "list_all (extent_in_device (b_block_devices b)) out"
    "distinct (phys out)" "set (phys out) \<inter> set (disk b) = {}"
proof -
  have reg_lt: "\<forall>r\<in>set rs. iv_start r < iv_end r" and dis: "disjoint_intervals rs"
    and free: "\<forall>r\<in>set rs. interval_sectors r \<inter> set (disk b) = {}"
    using regs by (auto simp: regions_ok_def list_all_iff region_in_device_def)
  have pieces: "extent_in_device (b_block_devices b) e \<and> extent_sectors e \<inter> set (disk b) = {}"
    if "\<exists>r\<in>set rs. piece_of r e" for e
    using that piece_in_device[OF regs] piece_of_sectors free by blast
  have "total_sectors out = unat need \<and> list_all (extent_in_device (b_block_devices b)) out \<and>
    distinct (phys out) \<and> set (phys out) \<inter> set (disk b) = {}"
  proof (cases final)
    case None
    from grow_loop_spec[OF reg_lt spb dis] loop obtain news where
      "out = news" "unat need = total_sectors news" "\<forall>e\<in>set news. \<exists>r\<in>set rs. piece_of r e"
      "distinct (phys news)"
      by (fastforce simp: None)
    then show ?thesis
      using pieces by (fastforce simp: list_all_iff set_phys)
  next
    case (Some e)
    from final[unfolded Some] have e: "extent_in_device (b_block_devices b) e" "is_linear e"
      "num_sectors e \<le> need" "extent_sectors e \<inter> set (disk b) = {}"
      "\<forall>r\<in>set rs. interval_sectors r \<inter> extent_sectors e = {}"
      using ExtendFinalExtent_spec[OF ok p regs aligned need] by blast+
    have un: "unat (need - num_sectors e) = unat need - unat (num_sectors e)"
      using e(3) by (intro unat_sub_small) (simp add: word_le_nat_alt)
    from grow_loop_spec[OF reg_lt spb dis] loop obtain news where n:
      "out = e # news" "unat (need - num_sectors e) = total_sectors news"
      "\<forall>e\<in>set news. \<exists>r\<in>set rs. piece_of r e" "distinct (phys news)"
      by (fastforce simp: Some)
    have "set (phys news) \<subseteq> (\<Union>r\<in>set rs. interval_sectors r)"
      using n(3) piece_of_sectors by (fastforce simp: set_phys)
    with e(5) have "extent_sectors e \<inter> set (phys news) = {}" by blast
    then have "distinct (phys out)"
      using n(4) distinct_phys_single[of e] unfolding n(1) phys_Cons[of e news]
      by (simp add: set_phys)
    then show ?thesis
      using pieces n(1-3) e un by (fastforce simp: list_all_iff set_phys word_le_nat_alt)
  qed
  then show "total_sectors out = unat need" "list_all (extent_in_device (b_block_devices b)) out"
    "distinct (phys out)" "set (phys out) \<inter> set (disk b) = {}" by blast+
qed

lemma GrowPartition_cases:
  assumes "GrowPartition store b i sz hint = Inr (True, b')"
  obtains rs final out where
    "candidate_regions store b (b_partitions b ! i) hint = Inr rs"
    "ucast (g_logical_block_size (b_geometry b)) div LP_SECTOR_SIZE \<noteq> (0 :: u64)"
    "ExtendFinalExtent b (b_partitions b ! i) rs
       ((sz - pt_size (b_partitions b ! i)) div LP_SECTOR_SIZE) = Inr final"
    "grow_loop (ucast (g_logical_block_size (b_geometry b)) div LP_SECTOR_SIZE) rs
       (case final of None \<Rightarrow> (sz - pt_size (b_partitions b ! i)) div LP_SECTOR_SIZE
        | Some e \<Rightarrow> (sz - pt_size (b_partitions b ! i)) div LP_SECTOR_SIZE - num_sectors e)
       (case final of None \<Rightarrow> [] | Some e \<Rightarrow> [e]) = Inr (0, out)"
    "b' = update_partition b i (foldl AddExtent (b_partitions b ! i) out)"
proof -
  let ?need = "(sz - pt_size (b_partitions b ! i)) div LP_SECTOR_SIZE"
  from assms obtain rs final where
    rs: "candidate_regions store b (b_partitions b ! i) hint = Inr rs"
    "ucast (g_logical_block_size (b_geometry b)) div LP_SECTOR_SIZE \<noteq> (0 :: u64)"
    and final: "ExtendFinalExtent b (b_partitions b ! i) rs ?need = Inr final"
    and rest: "(let (needed, new_extents) = (case final of None \<Rightarrow> (?need, [])
              | Some e \<Rightarrow> (?need - num_sectors e, [e]))
           in bind_run (grow_loop (ucast (g_logical_block_size (b_geometry b)) div LP_SECTOR_SIZE)
                rs needed new_extents)
                (\<lambda>(remaining, extents).
                   if remaining \<noteq> 0 then Inr (False, b)
                   else Inr (True, update_partition b i (foldl AddExtent (b_partitions b ! i) extents))))
           = Inr (True, b')"
    unfolding GrowPartition_def Let_def[of "b_partitions b ! i"] bind_run_eq_Inr_iff check_eq_Inr_iff
      Let_def
    by blast
  show thesis
  proof (cases final)
    case None
    with rest that[OF rs final] show thesis
      by (auto simp: run_simps split: if_splits)
  next
    case (Some e)
    with rest that[OF rs final] show thesis
      by (auto simp: run_simps split: if_splits)
  qed
qed

lemma GrowPartition_spec:
  assumes ok: "alloc_ok b" and i: "i < length (b_partitions b)" and hint: "disjoint_intervals hint"
    and aligned: "list_all device_end_aligned (b_block_devices b)"
    and grow: "pt_size (b_partitions b ! i) < sz" and dvd: "512 dvd unat sz"
    and res: "GrowPartition store b i sz hint = Inr (True, b')"
  shows "\<exists>p' news. b' = update_partition b i p' \<and> alloc_ok b' \<and> pt_size p' = sz \<and>
    layout (pt_extents p') = layout (pt_extents (b_partitions b ! i)) @ layout news \<and>
    pt_name p' = pt_name (b_partitions b ! i) \<and>
    pt_group_name p' = pt_group_name (b_partitions b ! i) \<and>
    pt_attributes p' = pt_attributes (b_partitions b ! i)"
proof -
  let ?p = "b_partitions b ! i"
  let ?need = "(sz - pt_size ?p) div LP_SECTOR_SIZE"
  let ?spb = "ucast (g_logical_block_size (b_geometry b)) div LP_SECTOR_SIZE :: u64"
  have p: "?p \<in> set (b_partitions b)" using i by simp
  have pok: "partition_ok ?p" and pdev: "list_all (extent_in_device (b_block_devices b)) (pt_extents ?p)"
    using ok p by (auto simp: alloc_ok_def list_all_iff)
  from res obtain rs final out where
    rs: "candidate_regions store b ?p hint = Inr rs" and spb: "?spb \<noteq> 0"
    and final: "ExtendFinalExtent b ?p rs ?need = Inr final"
    and loop: "grow_loop ?spb rs (case final of None \<Rightarrow> ?need | Some e \<Rightarrow> ?need - num_sectors e)
      (case final of None \<Rightarrow> [] | Some e \<Rightarrow> [e]) = Inr (0, out)"
    and b': "b' = update_partition b i (foldl AddExtent ?p out)"
    by (rule GrowPartition_cases)
  obtain k where k: "unat sz = 512 * k" using dvd by blast
  let ?t = "total_sectors (pt_extents ?p)"
  have psz: "unat (pt_size ?p) = ?t * 512" using pok by (simp add: partition_ok_def)
  have tk: "?t < k" using grow k psz by (simp add: word_less_nat_alt)
  have un: "unat ?need = k - ?t"
    using grow k psz by (simp add: unat_div LP_SECTOR_SIZE_def unat_sub_small word_less_nat_alt)
  then have need: "?need \<noteq> 0" using tk by (metis unat_0 zero_less_diff less_irrefl)
  note alloc = allocation_spec[OF ok p candidate_regions_ok[OF ok hint rs] aligned spb need final loop]
  have "list_all addressable out"
    using alloc(2) extent_in_device_addressable by (auto simp: list_all_iff)
  moreover have k55: "k < 2 ^ 55" using unat_u64_lt[of sz] k by (simp del: unat_u64_lt)
  ultimately have f: "partition_ok (foldl AddExtent ?p out)"
    "layout (pt_extents (foldl AddExtent ?p out)) = layout (pt_extents ?p) @ layout out"
    "pt_name (foldl AddExtent ?p out) = pt_name ?p"
    "pt_group_name (foldl AddExtent ?p out) = pt_group_name ?p"
    "pt_attributes (foldl AddExtent ?p out) = pt_attributes ?p"
    using foldl_AddExtent[OF pok, of out] alloc(1) un tk by auto
  have "total_sectors (pt_extents (foldl AddExtent ?p out)) = k"
    using f(2) alloc(1) un tk by (metis length_layout length_append add_diff_inverse_nat less_imp_not_less)
  then have "unat (pt_size (foldl AddExtent ?p out)) = unat sz"
    using f(1) k by (simp add: partition_ok_def)
  then have szeq: "pt_size (foldl AddExtent ?p out) = sz" by (simp add: word_unat_eq_iff)
  have "alloc_ok b'"
    unfolding b' using alloc(2-4) f(1) pdev phys_layout_append[OF f(2)]
    by (intro alloc_ok_grow[OF ok i]) (auto intro: foldl_AddExtent_in_device)
  with b' szeq f show ?thesis by blast
qed

end
