(* ===== verification/LpDemo.thy ===== *)
theory LpDemo imports LpAllocSafe begin

text \<open>
  A small super partition with two partitions, 256 KiB large and 8 KiB aligned, on which the
  allocation theorems are instantiated.
\<close>

definition demo_partition :: Partition where
  "demo_partition = (new_partition ''system_a'' ''default'' 1)
     \<lparr>pt_extents := [LinearExtent 8 0 96], pt_size := 4096\<rparr>"

definition demo_builder :: MetadataBuilder where
  "demo_builder = empty_builder\<lparr>
     b_geometry := (b_geometry empty_builder)\<lparr>g_metadata_max_size := 4096,
       g_metadata_slot_count := 2, g_logical_block_size := 4096\<rparr>,
     b_partitions := [demo_partition,
        (new_partition ''vendor_a'' ''default'' 1)
          \<lparr>pt_extents := [LinearExtent 16 0 112], pt_size := 8192\<rparr>],
     b_groups := [\<lparr>pg_name = ''default'', pg_maximum_size = 0\<rparr>],
     b_block_devices := [\<lparr>bd_first_logical_sector = 64, bd_alignment = 8192,
       bd_alignment_offset = 0, bd_size = 262144,
       bd_partition_name = strncpy sizeof_name ''super'', bd_flags = 0\<rparr>]\<rparr>"

definition demo_regions :: "Interval list" where
  "demo_regions = [mk_interval 0 64 96, mk_interval 0 128 512]"

definition demo_grown :: "Extent list" where
  "demo_grown = [LinearExtent 8 0 104, LinearExtent 32 0 64, LinearExtent 32 0 128]"

definition demo_bigger :: MetadataBuilder where
  "demo_bigger = update_partition demo_builder 0 (foldl AddExtent demo_partition demo_grown)"

abbreviation no_props :: props where "no_props \<equiv> \<lambda>_. []"

lemma demo_alloc_ok: "alloc_ok demo_builder" by code_simp

lemma demo_geometry_ok: "geometry_ok (b_geometry demo_builder)" by code_simp

lemma demo_aligned: "list_all device_end_aligned (b_block_devices demo_builder)" by code_simp

lemma demo_partition_0:
  "vec_at (b_partitions demo_builder) 0 = Inr demo_partition"
  "b_partitions demo_builder ! 0 = demo_partition"
  "pt_size demo_partition = 4096"
  "g_logical_block_size (b_geometry demo_builder) = 4096"
  by (simp_all add: demo_builder_def demo_partition_def)

lemma demo_align:
  "align_to 40000 (4096 :: u32) = Some (40960 :: u64)" by code_simp

lemma demo_align_big:
  "align_to 400000 (4096 :: u32) = Some (401408 :: u64)" by code_simp

lemma demo_size_change:
  "ValidatePartitionSizeChange demo_builder demo_partition 4096 40960 False = Inr True"
  by code_simp

lemma demo_size_change_big:
  "ValidatePartitionSizeChange demo_builder demo_partition 4096 401408 False = Inr True"
  by code_simp

lemma demo_free: "GetFreeRegions demo_builder = Inr demo_regions" by code_simp

lemma demo_candidates: "candidate_regions no_props demo_builder demo_partition [] = Inr demo_regions"
  by code_simp

lemma demo_final:
  "ExtendFinalExtent demo_builder demo_partition demo_regions 72 = Inr (Some (LinearExtent 8 0 104))"
  by code_simp

lemma demo_final_big:
  "ExtendFinalExtent demo_builder demo_partition demo_regions 776 = Inr (Some (LinearExtent 8 0 104))"
  by code_simp

lemma demo_loop: "grow_loop 8 demo_regions 64 [LinearExtent 8 0 104] = Inr (0, demo_grown)"
  by code_simp

lemma demo_loop_big:
  "map_sum (\<lambda>x. x) fst (grow_loop 8 demo_regions 768 [LinearExtent 8 0 104]) = Inr 352"
  by code_simp

lemmas demo_steps = demo_partition_0 demo_align demo_align_big demo_size_change
  demo_size_change_big demo_free demo_candidates demo_final demo_final_big demo_loop

lemma demo_resize: "ResizePartition no_props demo_builder 0 40000 [] = Inr (True, demo_bigger)"
  by (simp add: ResizePartition_def GrowPartition_def demo_steps Let_def LP_SECTOR_SIZE_def
      demo_bigger_def)

lemma demo_resize_big: "ResizePartition no_props demo_builder 0 400000 [] = Inr (False, demo_builder)"
proof -
  obtain out where "grow_loop 8 demo_regions 768 [LinearExtent 8 0 104] = Inr (352, out)"
    using demo_loop_big by (cases "grow_loop 8 demo_regions 768 [LinearExtent 8 0 104]") auto
  then show ?thesis
    by (simp add: ResizePartition_def GrowPartition_def demo_steps Let_def LP_SECTOR_SIZE_def)
qed

lemma no_hint: "disjoint_intervals []" by (simp add: disjoint_intervals_def)

end
