(* ===== verification/LpResize.thy ===== *)
theory LpResize imports LpDemo begin

text \<open>
  The contract of \<open>MetadataBuilder::ResizePartition\<close>: what a successful resize does to the
  partition and to the disk, that a refused one changes nothing, and when it refuses.
\<close>

section \<open>Shrinking\<close>

lemma extent_in_device_cut:
  "extent_in_device devs e \<Longrightarrow> 0 < k \<Longrightarrow> k < num_sectors e \<Longrightarrow>
   extent_in_device devs (set_num_sectors k e)"
  by (cases e) (auto simp: extent_in_device_def word_less_nat_alt)

lemma cut_back_in_device:
  assumes "cut_back es es'" "list_all (extent_in_device devs) es"
  shows "list_all (extent_in_device devs) es'"
  using cut_back_mem[OF assms(1)] assms(2) extent_in_device_cut
  unfolding list_all_iff by metis

lemma ShrinkPartition_spec:
  assumes ok: "alloc_ok b" and i: "i < length (b_partitions b)"
    and shrink: "sz \<le> pt_size (b_partitions b ! i)" and dvd: "512 dvd unat sz"
  shows "\<exists>p'. ShrinkPartition b i sz = Inr (update_partition b i p') \<and>
    alloc_ok (update_partition b i p') \<and> pt_size p' = sz \<and>
    layout (pt_extents p') = take (unat sz div 512) (layout (pt_extents (b_partitions b ! i))) \<and>
    cut_back (rev (pt_extents (b_partitions b ! i))) (rev (pt_extents p')) \<and>
    pt_name p' = pt_name (b_partitions b ! i) \<and>
    pt_group_name p' = pt_group_name (b_partitions b ! i) \<and>
    pt_attributes p' = pt_attributes (b_partitions b ! i)"
proof -
  let ?p = "b_partitions b ! i"
  have pok: "partition_ok ?p" and pdev: "list_all (extent_in_device (b_block_devices b)) (pt_extents ?p)"
    using ok i by (auto simp: alloc_ok_def list_all_length)
  from ShrinkTo_spec[OF pok shrink dvd] obtain p' where p':
    "ShrinkTo ?p sz = Inr p'"
    "layout (pt_extents p') = take (unat sz div 512) (layout (pt_extents ?p))" "pt_size p' = sz"
    "cut_back (rev (pt_extents ?p)) (rev (pt_extents p'))"
    "pt_name p' = pt_name ?p" "pt_group_name p' = pt_group_name ?p"
    "pt_attributes p' = pt_attributes ?p" by blast
  have dev: "list_all (extent_in_device (b_block_devices b)) (pt_extents p')"
    using cut_back_in_device[OF p'(4)] pdev by (simp add: list_all_iff)
  have "total_sectors (pt_extents p') = min (total_sectors (pt_extents ?p)) (unat sz div 512)"
    using arg_cong[OF p'(2), of length] by simp
  moreover have "unat sz \<le> total_sectors (pt_extents ?p) * 512" "total_sectors (pt_extents ?p) < 2 ^ 55"
    using shrink pok by (auto simp: partition_ok_def word_le_nat_alt)
  moreover have "unat sz = unat sz div 512 * 512" using dvd by simp
  ultimately have "partition_ok p'"
    using dev extent_in_device_addressable p'(3)
    by (auto simp: partition_ok_def list_all_iff)
  moreover from phys_take_prefix[OF p'(2)] obtain rest
    where "phys (pt_extents ?p) = phys (pt_extents p') @ rest" by blast
  ultimately have "alloc_ok (update_partition b i p')"
    using dev by (intro alloc_ok_cut[OF ok i]) auto
  with p' show ?thesis by (intro exI[of _ p']) (simp add: ShrinkPartition_def)
qed

section \<open>The contract of a successful resize\<close>

definition resized :: "MetadataBuilder \<Rightarrow> nat \<Rightarrow> nat \<Rightarrow> MetadataBuilder \<Rightarrow> bool" where
  "resized b i new_size b' \<longleftrightarrow>
     (let p = b_partitions b ! i; p' = b_partitions b' ! i;
          kept = min (total_sectors (pt_extents p)) (total_sectors (pt_extents p'))
      in b' = update_partition b i p' \<and> unat (pt_size p') = new_size \<and>
         take kept (layout (pt_extents p')) = take kept (layout (pt_extents p)) \<and>
         pt_name p' = pt_name p \<and> pt_group_name p' = pt_group_name p \<and>
         pt_attributes p' = pt_attributes p)"

lemma align_block_dvd:
  assumes "geometry_ok g" "align_to (n :: u64) (g_logical_block_size g) = Some v"
  shows "512 dvd unat v" "unat v = round_up (unat n) (unat (g_logical_block_size g))"
proof -
  show v: "unat v = round_up (unat n) (unat (g_logical_block_size g))"
    by (rule align_to_u64_SomeD[OF assms(2)])
  have "unat (g_logical_block_size g) \<noteq> 0"
    using assms(1) by (simp add: geometry_ok_def unat_eq_zero)
  from round_up_dvd[OF this, of "unat n"] assms(1)
  show "512 dvd unat v" unfolding v geometry_ok_def by (blast intro: dvd_trans)
qed

lemma ResizePartition_spec:
  assumes ok: "alloc_ok b" and geo: "geometry_ok (b_geometry b)" and hint: "disjoint_intervals hint"
    and aligned: "list_all device_end_aligned (b_block_devices b)"
    and res: "ResizePartition store b i requested hint = Inr (True, b')"
  shows "alloc_ok b' \<and>
    resized b i (round_up (unat requested) (unat (g_logical_block_size (b_geometry b)))) b'"
proof -
  let ?p = "b_partitions b ! i"
  from res obtain v where i: "i < length (b_partitions b)"
    and v: "align_to requested (g_logical_block_size (b_geometry b)) = Some v"
    by (auto simp: ResizePartition_def run_simps split: option.splits)
  note al = align_block_dvd[OF geo v]
  from i v res have step: "(if v > pt_size ?p then GrowPartition store b i v hint
      else if v < pt_size ?p then bind_run (ShrinkPartition b i v) (\<lambda>b'. Inr (True, b'))
      else Inr (True, b)) = Inr (True, b')"
    by (auto simp: ResizePartition_def run_simps Let_def split: if_splits)
  consider "pt_size ?p < v" | "v < pt_size ?p" | "v = pt_size ?p" by fastforce
  then show ?thesis
  proof cases
    case 1
    with step have "GrowPartition store b i v hint = Inr (True, b')" by simp
    from GrowPartition_spec[OF ok i hint aligned 1 al(1) this] show ?thesis
      using i al(2) by (auto simp: resized_def Let_def)
  next
    case 2
    from 2 have "v \<le> pt_size ?p" "\<not> pt_size ?p < v" by auto
    with ShrinkPartition_spec[OF ok i _ al(1)] 2 step obtain p' where p':
      "b' = update_partition b i p'" "alloc_ok b'" "pt_size p' = v"
      "layout (pt_extents p') = take (unat v div 512) (layout (pt_extents ?p))"
      "pt_name p' = pt_name ?p" "pt_group_name p' = pt_group_name ?p"
      "pt_attributes p' = pt_attributes ?p"
      by fastforce
    have "total_sectors (pt_extents p') = min (total_sectors (pt_extents ?p)) (unat v div 512)"
      using arg_cong[OF p'(4), of length] by simp
    then show ?thesis using p' i al(2) by (simp add: resized_def Let_def)
  next
    case 3
    with step have "b' = b" by simp
    moreover have "update_partition b i ?p = b" by (simp add: update_partition_def)
    ultimately show ?thesis using ok 3 al(2) by (simp add: resized_def)
  qed
qed



section \<open>When a resize is refused\<close>

text \<open>The sectors of the regions that the allocation loop can use: whole blocks only.\<close>

definition usable_sectors :: "u64 \<Rightarrow> Interval list \<Rightarrow> nat" where
  "usable_sectors spb rs =
     sum_list (map (\<lambda>r. unat (iv_length r) div unat spb * unat spb) rs)"

lemma unat_trim_region:
  assumes "iv_start r < iv_end r" "spb \<noteq> 0"
  shows "unat (iv_length (trim_region spb r)) = unat (iv_length r) div unat spb * unat spb"
proof (cases "misaligned_region spb r")
  case True
  have le: "unat (iv_length r) div unat spb * unat spb \<le> unat (iv_length r)" by simp
  have "unat (iv_length r div spb * spb) = unat (iv_length r) div unat spb * unat spb"
    using le_less_trans[OF le unat_less_exp[of "iv_length r"]]
    by (subst unat_mult_small) (simp_all add: unat_div)
  with True trimmed_region(1)[OF assms] show ?thesis by (simp add: trim_region_def)
next
  case False
  then have "unat spb dvd unat (iv_length r)"
    by (simp add: misaligned_region_def word_unat_eq_iff unat_mod dvd_eq_mod_eq_0)
  with False show ?thesis by (simp add: trim_region_def)
qed

lemma grow_loop_short:
  assumes "\<forall>r\<in>set rs. iv_start r < iv_end r" "spb \<noteq> 0"
    and "grow_loop spb rs need acc = Inr (left, out)" "left \<noteq> 0"
  shows "usable_sectors spb rs < unat need"
  using assms
proof (induction rs arbitrary: need acc)
  case Nil
  then show ?case by (simp add: usable_sectors_def unat_gt_0)
next
  case (Cons r rs)
  let ?r' = "trim_region spb r"
  have r: "iv_start r < iv_end r" using Cons.prems(1) by simp
  note ut = unat_trim_region[OF r Cons.prems(2)]
  have us: "usable_sectors spb (r # rs) = unat (iv_length ?r') + usable_sectors spb rs"
    by (simp add: usable_sectors_def ut)
  have nz: "need \<noteq> 0" using Cons.prems(3,4) by auto
  show ?case
  proof (cases "misaligned_region spb r \<and> iv_length ?r' = 0")
    case True
    then have "grow_loop spb rs need acc = Inr (left, out)"
      using Cons.prems(3) nz by (simp add: Let_def)
    from Cons.IH[OF _ Cons.prems(2) this Cons.prems(4)] Cons.prems(1) us True
    show ?thesis by simp
  next
    case False
    let ?s = "min need (iv_length ?r')"
    have "grow_loop spb rs (need - ?s) (acc @ [LinearExtent ?s (iv_device_index ?r') (iv_start ?r')])
        = Inr (left, out)"
      using Cons.prems(3) nz False by (simp add: Let_def check_eq_Inr_iff del: if_split)
    from Cons.IH[OF _ Cons.prems(2) this Cons.prems(4)] Cons.prems(1)
    have "usable_sectors spb rs < unat (need - ?s)" by simp
    moreover have "unat (need - ?s) = unat need - unat ?s"
      by (rule unat_sub_small) (simp add: min_def word_le_nat_alt)
    moreover have "unat ?s = min (unat need) (unat (iv_length ?r'))"
      by (simp add: min_def word_le_nat_alt)
    ultimately show ?thesis using us by simp
  qed
qed

definition sectors_missing :: "MetadataBuilder \<Rightarrow> nat \<Rightarrow> u64 \<Rightarrow> u64" where
  "sectors_missing b i sz = (sz - pt_size (b_partitions b ! i)) div LP_SECTOR_SIZE"

definition block_sectors :: "MetadataBuilder \<Rightarrow> u64" where
  "block_sectors b = ucast (g_logical_block_size (b_geometry b)) div LP_SECTOR_SIZE"

lemma ExtendFinalExtent_le:
  "ExtendFinalExtent b p rs need = Inr (Some e) \<Longrightarrow> num_sectors e \<le> need"
  by (auto simp: ExtendFinalExtent_def Let_def run_simps split: option.splits if_splits)

lemma GrowPartition_refused:
  assumes ok: "alloc_ok b" and hint: "disjoint_intervals hint"
    and res: "GrowPartition store b i sz hint = Inr (False, b')"
  shows "b' = b \<and> (\<exists>rs. candidate_regions store b (b_partitions b ! i) hint = Inr rs \<and>
     usable_sectors (block_sectors b) rs < unat (sectors_missing b i sz))"
proof -
  let ?need = "sectors_missing b i sz"
  from res obtain rs final where
    rs: "candidate_regions store b (b_partitions b ! i) hint = Inr rs" "block_sectors b \<noteq> 0"
    and final: "ExtendFinalExtent b (b_partitions b ! i) rs ?need = Inr final"
    and rest: "(let (needed, new_extents) = (case final of None \<Rightarrow> (?need, [])
              | Some e \<Rightarrow> (?need - num_sectors e, [e]))
           in bind_run (grow_loop (block_sectors b) rs needed new_extents)
                (\<lambda>(remaining, extents).
                   if remaining \<noteq> 0 then Inr (False, b)
                   else Inr (True, update_partition b i (foldl AddExtent (b_partitions b ! i) extents))))
           = Inr (False, b')"
    unfolding GrowPartition_def Let_def bind_run_eq_Inr_iff check_eq_Inr_iff
      sectors_missing_def block_sectors_def
    by blast
  have lt: "\<forall>r\<in>set rs. iv_start r < iv_end r"
    using candidate_regions_ok[OF ok hint rs(1)]
    by (auto simp: regions_ok_def list_all_iff region_in_device_def)
  show ?thesis
  proof (cases final)
    case None
    with rest grow_loop_short[OF lt rs(2)] rs(1) show ?thesis
      by (auto simp: run_simps split: if_splits)
  next
    case (Some e)
    have "unat (?need - num_sectors e) \<le> unat ?need"
      using ExtendFinalExtent_le[OF final[unfolded Some]]
      by (simp add: unat_sub_small word_le_nat_alt)
    with Some rest grow_loop_short[OF lt rs(2)] rs(1) show ?thesis
      by (fastforce simp: run_simps split: if_splits)
  qed
qed

text \<open>The three reasons for which \<open>ResizePartition\<close> returns \<open>false\<close>.\<close>

definition refusal :: "props \<Rightarrow> MetadataBuilder \<Rightarrow> nat \<Rightarrow> u64 \<Rightarrow> Interval list \<Rightarrow> bool" where
  "refusal store b i requested hint \<longleftrightarrow>
     (case align_to requested (g_logical_block_size (b_geometry b)) of
        None \<Rightarrow> True
      | Some v \<Rightarrow>
          ValidatePartitionSizeChange b (b_partitions b ! i) (pt_size (b_partitions b ! i)) v False
            = Inr False \<or>
          (case candidate_regions store b (b_partitions b ! i) hint of
             Inl _ \<Rightarrow> False
           | Inr rs \<Rightarrow> pt_size (b_partitions b ! i) < v \<and>
               usable_sectors (block_sectors b) rs < unat (sectors_missing b i v)))"

lemma ResizePartition_refused:
  assumes ok: "alloc_ok b" and hint: "disjoint_intervals hint"
    and res: "ResizePartition store b i requested hint = Inr (False, b')"
  shows "b' = b \<and> refusal store b i requested hint"
proof (cases "align_to requested (g_logical_block_size (b_geometry b))")
  case None
  with res show ?thesis by (auto simp: ResizePartition_def refusal_def run_simps)
next
  case (Some v)
  let ?p = "b_partitions b ! i"
  from res Some obtain c where
    c: "ValidatePartitionSizeChange b ?p (pt_size ?p) v False = Inr c"
    and rest: "(if \<not> c then Inr (False, b) else if v > pt_size ?p then GrowPartition store b i v hint
      else if v < pt_size ?p then bind_run (ShrinkPartition b i v) (\<lambda>b'. Inr (True, b'))
      else Inr (True, b)) = Inr (False, b')"
    by (auto simp: ResizePartition_def run_simps Let_def)
  show ?thesis
  proof (cases c)
    case False
    with c rest Some show ?thesis by (simp add: refusal_def)
  next
    case True
    with rest have "pt_size ?p < v" "GrowPartition store b i v hint = Inr (False, b')"
      by (auto simp: run_simps split: if_splits)
    with GrowPartition_refused[OF ok hint this(2)] Some show ?thesis
      by (auto simp: refusal_def)
  qed
qed



end
