(* ===== verification/LpBlocks.thy ===== *)
theory LpBlocks imports LpResize begin

text \<open>
  \<open>GrowPartition\<close> works in whole logical blocks and enforces it with \<open>CHECK\<close> macros, which abort
  the process. This theory states the configuration under which no \<open>CHECK\<close> can fire
  (\<open>blocks_ok\<close>: alignments and extents are multiples of the logical block size) and that resizing
  preserves it.
\<close>

section \<open>Block-aligned builders\<close>

definition block_extent :: "nat \<Rightarrow> LpMetadataBlockDevice list \<Rightarrow> Extent \<Rightarrow> bool" where
  "block_extent spb devs e \<longleftrightarrow> spb dvd unat (num_sectors e) \<and>
     (is_linear e \<longrightarrow> bd_alignment (devs ! unat (device_index e)) \<noteq> 0 \<longrightarrow>
        spb dvd unat (physical_sector e))"

definition blocks_ok :: "MetadataBuilder \<Rightarrow> bool" where
  "blocks_ok b \<longleftrightarrow> geometry_ok (b_geometry b) \<and> b_block_devices b \<noteq> [] \<and>
     list_all (\<lambda>d. unat (g_logical_block_size (b_geometry b)) dvd unat (bd_alignment d))
       (b_block_devices b) \<and>
     list_all (\<lambda>p. list_all (block_extent (unat (block_sectors b)) (b_block_devices b)) (pt_extents p)
       \<and> FindGroup b (pt_group_name p) \<noteq> None) (b_partitions b)"

lemma block_sectors_props:
  assumes "geometry_ok (b_geometry b)"
  shows "unat (g_logical_block_size (b_geometry b)) = unat (block_sectors b) * 512"
    and "block_sectors b \<noteq> 0" "unat (block_sectors b) \<noteq> 0"
proof -
  let ?l = "g_logical_block_size (b_geometry b)"
  have u: "unat (block_sectors b) = unat ?l div 512"
    by (simp add: block_sectors_def unat_div LP_SECTOR_SIZE_def)
  have "unat ?l \<noteq> 0" "512 dvd unat ?l" using assms by (auto simp: geometry_ok_def unat_eq_zero)
  then show "unat ?l = unat (block_sectors b) * 512" "unat (block_sectors b) \<noteq> 0"
    using u by auto
  then show "block_sectors b \<noteq> 0" by auto
qed

lemma AlignSector_dvd:
  assumes "AlignSector d s = Some v" "spb * 512 dvd unat (bd_alignment d)" "bd_alignment d \<noteq> 0"
  shows "spb dvd unat v"
proof -
  from assms(1) obtain a o' where a: "align_to (s * LP_SECTOR_SIZE) (bd_alignment d) = Some a"
    and o: "align_to a 512 = Some o'" and v: "v = o' div LP_SECTOR_SIZE"
    by (auto simp: AlignSector_def Let_def split: option.splits)
  have "unat (bd_alignment d) \<noteq> 0" using assms(3) by (simp add: unat_eq_zero)
  from round_up_dvd[OF this] have "unat (bd_alignment d) dvd unat a"
    using align_to_u64_SomeD[OF a] by simp
  with assms(2) have dvd: "spb * 512 dvd unat a" by (rule dvd_trans)
  then have "512 dvd unat a" by (rule dvd_mult_right)
  then have "unat o' = unat a" using align_to_u64_SomeD[OF o] by (simp add: round_up_eq_self)
  moreover from dvd obtain q where "unat a = spb * 512 * q" by (rule dvdE)
  ultimately have "unat o' = 512 * (spb * q)" by simp
  then show ?thesis by (simp add: v unat_div LP_SECTOR_SIZE_def)
qed

section \<open>Region starts\<close>

definition region_aligned :: "MetadataBuilder \<Rightarrow> Interval \<Rightarrow> bool" where
  "region_aligned b r \<longleftrightarrow>
     (bd_alignment (b_block_devices b ! unat (iv_device_index r)) \<noteq> 0 \<longrightarrow>
        unat (block_sectors b) dvd unat (iv_start r))"

lemma ExtentsToFreeList_start:
  "r \<in> set (ExtentsToFreeList devs xs) \<Longrightarrow>
   \<exists>s. AlignSector (devs ! unat (iv_device_index r)) s = Some (iv_start r)"
proof (induction devs xs rule: ExtentsToFreeList.induct)
  case (1 devs previous current rest)
  let ?al = "AlignSector (devs ! unat (iv_device_index current)) (iv_end previous)"
  show ?case
  proof (cases ?al)
    case None
    with 1 show ?thesis by auto
  next
    case (Some aligned)
    show ?thesis
    proof (cases "aligned \<ge> iv_start current")
      case True
      with 1 Some show ?thesis by auto
    next
      case False
      from "1.prems" Some False consider
        "r = mk_interval (iv_device_index current) aligned (iv_start current)"
        | "r \<in> set (ExtentsToFreeList devs (current # rest))" by auto
      then show ?thesis
      proof cases
        case 1
        with Some show ?thesis by (auto simp: mk_interval_def)
      next
        case 2
        with "1.IH"(3)[OF Some False] show ?thesis by blast
      qed
    qed
  qed
qed auto

lemma GetFreeRegions_aligned:
  assumes blk: "blocks_ok b" and ok: "alloc_ok b" and res: "GetFreeRegions b = Inr rs"
  shows "\<forall>r\<in>set rs. region_aligned b r"
proof
  fix r assume r: "r \<in> set rs"
  from res have "rs = concat (map (\<lambda>i. ExtentsToFreeList (b_block_devices b) (device_intervals b i))
                       [0..<length (b_block_devices b)])"
    by (simp add: GetFreeRegions_def check_eq_Inr_iff)
  with r obtain i where "r \<in> set (ExtentsToFreeList (b_block_devices b) (device_intervals b i))"
    by auto
  from ExtentsToFreeList_start[OF this] obtain s where
    s: "AlignSector (b_block_devices b ! unat (iv_device_index r)) s = Some (iv_start r)" by blast
  from GetFreeRegions_ok[OF ok] res have "regions_ok b rs" by simp
  with r have "unat (iv_device_index r) < length (b_block_devices b)"
    by (auto simp: regions_ok_def list_all_iff region_in_device_def)
  with blk have "unat (g_logical_block_size (b_geometry b)) dvd
      unat (bd_alignment (b_block_devices b ! unat (iv_device_index r)))" "geometry_ok (b_geometry b)"
    by (auto simp: blocks_ok_def list_all_length)
  with AlignSector_dvd[OF s] show "region_aligned b r"
    by (auto simp: region_aligned_def block_sectors_props(1))
qed

lemma PrioritizeSecondHalfOfSuper_aligned:
  assumes blk: "blocks_ok b" and rs: "\<forall>r\<in>set rs. region_aligned b r"
  shows "\<exists>rs'. PrioritizeSecondHalfOfSuper b rs = Inr rs' \<and> (\<forall>r\<in>set rs'. region_aligned b r)"
proof -
  let ?super = "b_block_devices b ! 0"
  have ne: "0 < length (b_block_devices b)" using blk by (simp add: blocks_ok_def)
  then have "unat (g_logical_block_size (b_geometry b)) dvd unat (bd_alignment ?super)"
    "geometry_ok (b_geometry b)"
    using blk by (auto simp: blocks_ok_def list_all_length)
  then have dvd: "unat (block_sectors b) * 512 dvd unat (bd_alignment ?super)"
    by (simp add: block_sectors_props(1))
  show ?thesis
  proof (cases "AlignSector ?super (bd_first_logical_sector ?super +
      (bd_size ?super div LP_SECTOR_SIZE - bd_first_logical_sector ?super) div 2)")
    case None
    with ne rs show ?thesis by (simp add: PrioritizeSecondHalfOfSuper_def Let_def)
  next
    case (Some m)
    have "bd_alignment ?super \<noteq> 0 \<longrightarrow> unat (block_sectors b) dvd unat m"
      using AlignSector_dvd[OF Some dvd] by blast
    with Some ne rs show ?thesis
      by (auto simp: PrioritizeSecondHalfOfSuper_def Let_def region_aligned_def mk_interval_def
          split: if_splits)
  qed
qed

lemma candidate_regions_aligned:
  assumes blk: "blocks_ok b" and ok: "alloc_ok b"
  shows "\<exists>rs. candidate_regions store b p [] = Inr rs \<and> (\<forall>r\<in>set rs. region_aligned b r)"
proof -
  from GetFreeRegions_ok[OF ok] obtain free where f: "GetFreeRegions b = Inr free" by blast
  note al = GetFreeRegions_aligned[OF blk ok f]
  from PrioritizeSecondHalfOfSuper_aligned[OF blk al] al f show ?thesis
    by (auto simp: candidate_regions_def)
qed

section \<open>No check fires\<close>

lemma ExtendFinalExtent_blocks:
  assumes blk: "blocks_ok b" and ok: "alloc_ok b" and p: "p \<in> set (b_partitions b)"
    and need: "unat (block_sectors b) dvd unat need"
  shows "\<exists>final. ExtendFinalExtent b p rs need = Inr final \<and>
    (\<forall>e. final = Some e \<longrightarrow> block_extent (unat (block_sectors b)) (b_block_devices b) e)"
proof (cases "pt_extents p = [] \<or> \<not> is_linear (last (pt_extents p))")
  case True
  then show ?thesis by (auto simp: ExtendFinalExtent_def)
next
  case False
  let ?l = "last (pt_extents p)"
  let ?spb = "unat (block_sectors b)"
  have l: "?l \<in> set (pt_extents p)" "is_linear ?l" using False by auto
  with ok p have dev: "extent_in_device (b_block_devices b) ?l"
    by (auto simp: alloc_ok_def list_all_iff)
  then have i: "unat (device_index ?l) < length (b_block_devices b)"
    using l(2) by (simp add: extent_in_device_def)
  let ?d = "b_block_devices b ! unat (device_index ?l)"
  have bl: "block_extent ?spb (b_block_devices b) ?l"
    using blk p l(1) by (auto simp: blocks_ok_def list_all_iff)
  have geo: "geometry_ok (b_geometry b)" using blk by (simp add: blocks_ok_def)
  have "unat (g_logical_block_size (b_geometry b)) dvd unat (bd_alignment ?d)"
    using blk i by (auto simp: blocks_ok_def list_all_length)
  then have al: "?spb * 512 dvd unat (bd_alignment ?d)" using block_sectors_props(1)[OF geo] by simp
  note add = extent_in_device_addressable[OF dev]
  have ue: "unat (end_sector ?l) = unat (physical_sector ?l) + unat (num_sectors ?l)"
    by (rule unat_end_sector[OF add l(2)])
  have e55: "unat (end_sector ?l) < 2 ^ 55"
    using add l(2) ue by (simp add: addressable_def)
  have run: "\<exists>final. ExtendFinalExtent b p rs need = Inr final"
    using i False by (auto simp: ExtendFinalExtent_def Let_def split: option.splits)
  moreover have "block_extent ?spb (b_block_devices b) e"
    if res: "ExtendFinalExtent b p rs need = Inr (Some e)" for e
  proof -
    from res i False obtain v where
      al': "AlignSector ?d (end_sector ?l) = Some v" and nv: "end_sector ?l \<noteq> v"
      and e: "e = LinearExtent (min (v - end_sector ?l) need) (device_index ?l) (end_sector ?l)"
      by (auto simp: ExtendFinalExtent_def Let_def split: option.splits if_splits)
    have nz: "bd_alignment ?d \<noteq> 0"
    proof
      assume z: "bd_alignment ?d = 0"
      have "unat v = unat (end_sector ?l)"
        using AlignSector_SomeD[OF al' e55] z by (simp add: round_up_eq_self)
      with nv show False by (metis word_unat_eq_iff)
    qed
    have "?spb dvd unat (end_sector ?l)"
      using bl l(2) nz ue by (simp add: block_extent_def)
    moreover have "?spb dvd unat v" by (rule AlignSector_dvd[OF al' al nz])
    moreover have "unat (end_sector ?l) \<le> unat v"
      using AlignSector_ge[OF al' e55] by (simp add: word_le_nat_alt)
    ultimately show ?thesis
      using need by (auto simp: block_extent_def e min_def unat_sub_small)
  qed
  ultimately show ?thesis by blast
qed

lemma grow_loop_blocks:
  assumes "\<forall>r\<in>set rs. region_aligned b r \<and> iv_start r < iv_end r"
    and "block_sectors b \<noteq> 0" "unat (block_sectors b) dvd unat need"
    and "list_all (block_extent (unat (block_sectors b)) (b_block_devices b)) acc"
  shows "\<exists>left out. grow_loop (block_sectors b) rs need acc = Inr (left, out) \<and>
    list_all (block_extent (unat (block_sectors b)) (b_block_devices b)) out"
  using assms
proof (induction rs arbitrary: need acc)
  case Nil
  then show ?case by simp
next
  case (Cons r rs)
  let ?spb = "block_sectors b"
  let ?r' = "trim_region ?spb r"
  let ?s = "min need (iv_length ?r')"
  have r: "iv_start r < iv_end r" "region_aligned b r" using Cons.prems(1) by auto
  have us: "unat ?s = min (unat need) (unat (iv_length ?r'))"
    by (simp add: min_def word_le_nat_alt)
  have sd: "unat ?spb dvd unat ?s"
    using Cons.prems(3) unat_trim_region[OF r(1) Cons.prems(2)] by (simp add: us min_def)
  then have s0: "?s mod ?spb = 0" by (simp add: word_unat_eq_iff unat_mod dvd_eq_mod_eq_0)
  have "unat (need - ?s) = unat need - unat ?s" by (rule unat_sub_small) (simp add: us)
  then have nd: "unat ?spb dvd unat (need - ?s)" using sd Cons.prems(3) by simp
  have "iv_start ?r' = iv_start r" "iv_device_index ?r' = iv_device_index r"
    by (simp_all add: trim_region_def)
  then have "block_extent (unat ?spb) (b_block_devices b)
      (LinearExtent ?s (iv_device_index ?r') (iv_start ?r'))"
    using sd r(2) by (simp add: block_extent_def region_aligned_def)
  with Cons.IH[OF _ Cons.prems(2) nd, of "acc @ [LinearExtent ?s (iv_device_index ?r') (iv_start ?r')]"]
    Cons.IH[OF _ Cons.prems(2-4)] Cons.prems(1,4) s0
  show ?case by (auto simp: Let_def simp del: mod_0_imp_dvd)
qed

section \<open>Resizing returns, and keeps the blocks aligned\<close>

lemma append_extent_blocks:
  assumes "list_all (block_extent spb devs) es" "block_extent spb devs e"
    and "total_sectors es + unat (num_sectors e) < 2 ^ 55"
  shows "list_all (block_extent spb devs) (append_extent es e)"
proof (cases "is_linear e \<and> es \<noteq> [] \<and> is_linear (last es) \<and>
         end_sector (last es) = physical_sector e \<and> device_index (last es) = device_index e")
  case True
  then have split: "es = butlast es @ [last es]" by simp
  have "unat (num_sectors (last es)) \<le> total_sectors es"
    by (subst split) (simp del: append_butlast_last_id)
  with assms(3) have "unat (num_sectors (last es) + num_sectors e) =
      unat (num_sectors (last es)) + unat (num_sectors e)"
    by (intro unat_add_small) simp
  moreover have "block_extent spb devs (last es)" using True assms(1) by (simp add: list_all_iff)
  ultimately have "block_extent spb devs (LinearExtent (num_sectors (last es) + num_sectors e)
      (device_index (last es)) (physical_sector (last es)))"
    using assms(2) True by (simp add: block_extent_def)
  then show ?thesis
    using True assms(1) by (auto simp: append_extent_def list_all_iff dest: in_set_butlastD)
next
  case False
  then show ?thesis using assms unfolding append_extent_def if_not_P[OF False] by simp
qed

lemma foldl_AddExtent_blocks:
  assumes "partition_ok p" "list_all addressable es" "list_all (block_extent spb devs) (pt_extents p)"
    "list_all (block_extent spb devs) es" "total_sectors (pt_extents p) + total_sectors es < 2 ^ 55"
  shows "list_all (block_extent spb devs) (pt_extents (foldl AddExtent p es))"
  using assms
proof (induction es arbitrary: p)
  case (Cons e es)
  have lt: "total_sectors (pt_extents p) + unat (num_sectors e) < 2 ^ 55"
    using Cons.prems(5) by simp
  have "total_sectors (pt_extents (AddExtent p e)) = total_sectors (pt_extents p) + unat (num_sectors e)"
    using Cons.prems(1) lt by (simp add: append_extent_total partition_ok_def)
  with Cons.prems lt show ?case
    by (simp only: foldl_Cons, intro Cons.IH partition_ok_AddExtent)
      (simp_all add: append_extent_blocks)
qed simp

lemma cut_back_blocks:
  assumes "cut_back es es'" "list_all (block_extent spb devs) es" "spb dvd total_sectors es'"
  shows "list_all (block_extent spb devs) es'"
  using assms
proof (induction)
  case (cut_part k e es)
  have rest: "list_all (block_extent spb devs) es" using cut_part by simp
  then have "spb dvd total_sectors es"
    by (induction es) (auto simp: block_extent_def)
  then have "spb dvd unat k"
    using cut_part.prems(2) by (simp add: dvd_add_left_iff)
  with cut_part show ?case by (cases e) (simp_all add: block_extent_def)
qed simp_all

lemma blocks_ok_update:
  assumes "blocks_ok b" "i < length (b_partitions b)"
    and "list_all (block_extent (unat (block_sectors b)) (b_block_devices b)) (pt_extents p')"
    and "pt_group_name p' = pt_group_name (b_partitions b ! i)"
  shows "blocks_ok (update_partition b i p')"
proof -
  have "block_sectors (update_partition b i p') = block_sectors b"
    by (simp add: block_sectors_def)
  moreover have "FindGroup (update_partition b i p') = FindGroup b"
    by (rule ext) (simp add: FindGroup_def)
  ultimately show ?thesis
    using assms by (simp add: blocks_ok_def list_all_length nth_list_update)
qed

lemma total_sectors_blocks:
  "list_all (block_extent spb devs) es \<Longrightarrow> spb dvd total_sectors es"
  by (induction es) (auto simp: block_extent_def)

lemma GrowPartition_returns:
  assumes ok: "alloc_ok b" and blk: "blocks_ok b" and i: "i < length (b_partitions b)"
    and aligned: "list_all device_end_aligned (b_block_devices b)"
    and grow: "pt_size (b_partitions b ! i) < sz"
    and dvd: "unat (g_logical_block_size (b_geometry b)) dvd unat sz"
  shows "\<exists>c b'. GrowPartition store b i sz [] = Inr (c, b') \<and> blocks_ok b'"
proof -
  let ?p = "b_partitions b ! i"
  let ?need = "sectors_missing b i sz"
  let ?spb = "block_sectors b"
  have geo: "geometry_ok (b_geometry b)" using blk by (simp add: blocks_ok_def)
  have p: "?p \<in> set (b_partitions b)" using i by simp
  have pok: "partition_ok ?p" using ok p by (auto simp: alloc_ok_def list_all_iff)
  have pblk: "list_all (block_extent (unat ?spb) (b_block_devices b)) (pt_extents ?p)"
    using blk p by (auto simp: blocks_ok_def list_all_iff)
  note bs = block_sectors_props[OF geo]
  obtain k where k: "unat sz = unat ?spb * 512 * k" using dvd bs(1) by auto
  let ?t = "total_sectors (pt_extents ?p)"
  have psz: "unat (pt_size ?p) = ?t * 512" using pok by (simp add: partition_ok_def)
  have "unat sz = 512 * (unat ?spb * k)" using k by simp
  then have un: "unat ?need = unat ?spb * k - ?t"
    using grow psz by (simp add: sectors_missing_def unat_div LP_SECTOR_SIZE_def unat_sub_small
        word_less_nat_alt)
  have nd: "unat ?spb dvd unat ?need"
    unfolding un using total_sectors_blocks[OF pblk] by (intro dvd_diff_nat) simp_all
  have "?t * 512 < 512 * (unat ?spb * k)"
    using grow psz k by (simp add: word_less_nat_alt)
  then have tk: "?t < unat ?spb * k" by simp
  then have need: "?need \<noteq> 0" using un by auto
  from candidate_regions_aligned[OF blk ok] obtain rs where
    rs: "candidate_regions store b ?p [] = Inr rs" and ral: "\<forall>r\<in>set rs. region_aligned b r" by blast
  have dis: "disjoint_intervals []" by (simp add: disjoint_intervals_def)
  note regs = candidate_regions_ok[OF ok dis rs]
  have rlt: "\<forall>r\<in>set rs. region_aligned b r \<and> iv_start r < iv_end r"
    using ral regs by (auto simp: regions_ok_def list_all_iff region_in_device_def)
  from ExtendFinalExtent_blocks[OF blk ok p nd] obtain final where
    final: "ExtendFinalExtent b ?p rs ?need = Inr final"
    and fb: "\<And>e. final = Some e \<Longrightarrow> block_extent (unat ?spb) (b_block_devices b) e" by blast
  let ?need' = "case final of None \<Rightarrow> ?need | Some e \<Rightarrow> ?need - num_sectors e"
  let ?acc = "case final of None \<Rightarrow> [] | Some e \<Rightarrow> [e]"
  have "unat (?need - num_sectors e) = unat ?need - unat (num_sectors e)"
    if "final = Some e" for e
    using ExtendFinalExtent_le[OF final[unfolded that]]
    by (intro unat_sub_small) (simp add: word_le_nat_alt)
  then have nd': "unat ?spb dvd unat ?need'"
    using nd fb by (auto simp: block_extent_def split: option.splits)
  have acc: "list_all (block_extent (unat ?spb) (b_block_devices b)) ?acc"
    using fb by (auto split: option.splits)
  from grow_loop_blocks[OF rlt bs(2) nd' acc] obtain left out where
    loop: "grow_loop ?spb rs ?need' ?acc = Inr (left, out)"
    and ob: "list_all (block_extent (unat ?spb) (b_block_devices b)) out" by blast
  obtain free where free: "GetFreeRegions b = Inr free" using GetFreeRegions_ok[OF ok] by blast
  have nm: "?need mod ?spb = 0" using nd by (simp add: word_unat_eq_iff unat_mod dvd_eq_mod_eq_0)
  have eq: "GrowPartition store b i sz [] = Inr (if left \<noteq> 0 then (False, b)
      else (True, update_partition b i (foldl AddExtent ?p out)))"
    using free rs final loop nm bs(2)
    by (cases final) (simp_all add: GrowPartition_def Let_def sectors_missing_def block_sectors_def
        del: mod_0_imp_dvd)
  show ?thesis
  proof (cases "left = 0")
    case False
    with eq blk show ?thesis by (intro exI[of _ False] exI[of _ b]) simp
  next
    case True
    note alloc = allocation_spec[OF ok p regs aligned bs(2) need final loop[unfolded True]]
    have add: "list_all addressable out"
      using alloc(2) extent_in_device_addressable by (auto simp: list_all_iff)
    have "?t + total_sectors out < 2 ^ 55"
      using unat_u64_lt[of sz] tk alloc(1) un k by (simp add: ac_simps del: unat_u64_lt)
    then have "list_all (block_extent (unat ?spb) (b_block_devices b))
        (pt_extents (foldl AddExtent ?p out))"
      by (rule foldl_AddExtent_blocks[OF pok add pblk ob])
    moreover have "pt_group_name (foldl AddExtent ?p out) = pt_group_name ?p"
      by (induction out arbitrary: b rule: rev_induct) simp_all
    ultimately have "blocks_ok (update_partition b i (foldl AddExtent ?p out))"
      by (rule blocks_ok_update[OF blk i])
    with eq True show ?thesis by (intro exI[of _ True] exI) simp
  qed
qed

lemma ResizePartition_returns:
  assumes ok: "alloc_ok b" and blk: "blocks_ok b" and i: "i < length (b_partitions b)"
    and aligned: "list_all device_end_aligned (b_block_devices b)"
  shows "\<exists>c b'. ResizePartition store b i requested [] = Inr (c, b') \<and> blocks_ok b'"
proof (cases "align_to requested (g_logical_block_size (b_geometry b))")
  case None
  with i blk show ?thesis by (intro exI[of _ False] exI[of _ b]) (simp add: ResizePartition_def)
next
  case (Some v)
  let ?p = "b_partitions b ! i"
  have geo: "geometry_ok (b_geometry b)" using blk by (simp add: blocks_ok_def)
  note al = align_block_dvd[OF geo Some] and bs = block_sectors_props[OF geo]
  have lbs: "unat (g_logical_block_size (b_geometry b)) dvd unat v"
    unfolding al(2) using bs(1,3) by (intro round_up_dvd) simp
  have pblk: "list_all (block_extent (unat (block_sectors b)) (b_block_devices b)) (pt_extents ?p)"
    and grp: "FindGroup b (pt_group_name ?p) \<noteq> None"
    using blk i by (auto simp: blocks_ok_def list_all_length)
  from grp have "\<exists>c. ValidatePartitionSizeChange b ?p (pt_size ?p) v False = Inr c"
    by (auto simp: ValidatePartitionSizeChange_def Let_def)
  then obtain c where c: "ValidatePartitionSizeChange b ?p (pt_size ?p) v False = Inr c" by blast
  have eq: "ResizePartition store b i requested [] =
    (if \<not> c then Inr (False, b) else if v > pt_size ?p then GrowPartition store b i v []
      else if v < pt_size ?p then bind_run (ShrinkPartition b i v) (\<lambda>b'. Inr (True, b'))
      else Inr (True, b))"
    using i Some c by (simp add: ResizePartition_def Let_def)
  consider "\<not> c" | "c" "pt_size ?p < v" | "c" "v < pt_size ?p" | "c" "v = pt_size ?p" by fastforce
  then show ?thesis
  proof cases
    case 1
    with eq blk show ?thesis by (intro exI[of _ False] exI[of _ b]) simp
  next
    case 2
    with GrowPartition_returns[OF ok blk i aligned 2(2) lbs] eq show ?thesis by simp
  next
    case 3
    from 3(2) have "v \<le> pt_size ?p" by simp
    from ShrinkPartition_spec[OF ok i this al(1)] obtain p' where p':
      "ShrinkPartition b i v = Inr (update_partition b i p')"
      "layout (pt_extents p') = take (unat v div 512) (layout (pt_extents ?p))"
      "cut_back (rev (pt_extents ?p)) (rev (pt_extents p'))"
      "pt_group_name p' = pt_group_name ?p" by blast
    have "total_sectors (pt_extents p') = min (total_sectors (pt_extents ?p)) (unat v div 512)"
      using arg_cong[OF p'(2), of length] by simp
    moreover obtain q where "unat v = unat (block_sectors b) * 512 * q" using lbs bs(1) by auto
    then have "unat (block_sectors b) dvd unat v div 512" by (simp add: ac_simps)
    ultimately have "unat (block_sectors b) dvd total_sectors (pt_extents p')"
      using total_sectors_blocks[OF pblk] by (simp add: min_def)
    with cut_back_blocks[OF p'(3)] pblk
    have "list_all (block_extent (unat (block_sectors b)) (b_block_devices b)) (pt_extents p')"
      by (simp add: list_all_iff)
    from blocks_ok_update[OF blk i this p'(4)] p'(1) eq 3 show ?thesis
      by (intro exI[of _ True] exI) (auto simp: not_less_iff_gr_or_eq)
  next
    case 4
    with eq blk show ?thesis by (intro exI[of _ True] exI[of _ b]) simp
  qed
qed

text \<open>
  C6: with block-aligned alignments and extents, \<open>ResizePartition\<close> without a region hint always
  returns: no \<open>CHECK\<close> of \<open>GrowPartition\<close> fires, no vector is read out of range, and the block
  alignment is preserved, so the next call returns as well.
\<close>

theorem resize_returns:
  assumes ok: "alloc_ok b" and blk: "blocks_ok b" and i: "i < length (b_partitions b)"
    and aligned: "list_all device_end_aligned (b_block_devices b)"
  shows "\<exists>c b'. ResizePartition store b i requested [] = Inr (c, b') \<and> blocks_ok b'"
  using assms by (rule ResizePartition_returns)

theorem resize_returns_witness:
  "\<exists>c b'. ResizePartition no_props demo_builder 0 40000 [] = Inr (c, b') \<and> blocks_ok b'"
proof -
  have blk: "blocks_ok demo_builder" by code_simp
  have i: "0 < length (b_partitions demo_builder)" by (simp add: demo_builder_def)
  show ?thesis by (rule resize_returns[OF demo_alloc_ok blk i demo_aligned])
qed

end
