(* ===== verification/LpBuilderInv.thy ===== *)
theory LpBuilderInv imports LpBlocks begin

text \<open>
  The builder as a state machine: the objects that \<open>MetadataBuilder::New\<close> returns for a list of
  block devices and that its operations lead to. Every reachable builder satisfies
  \<open>builder_ok\<close>: names are unique, every partition's group exists, and the disk is allocated
  soundly.
\<close>

section \<open>Removing by name\<close>

lemma set_remove_first_subset: "set (remove_first P xs) \<subseteq> set xs"
  by (induction xs) auto

lemma remove_first_none: "\<forall>x\<in>set xs. \<not> P x \<Longrightarrow> remove_first P xs = xs"
  by (induction xs) auto

lemma remove_first_unique:
  "distinct (map f xs) \<Longrightarrow> remove_first (\<lambda>x. f x = k) xs = filter (\<lambda>x. f x \<noteq> k) xs"
proof (induction xs)
  case (Cons x xs)
  then show ?case
    by (auto intro!: filter_True[symmetric]) (metis (mono_tags) filter_True imageI)+
qed simp

lemma find_index_filter_other:
  "find_index P xs \<noteq> None \<longleftrightarrow> (\<exists>x\<in>set xs. P x)"
  by (metis find_index_None_iff)

section \<open>The invariant\<close>

definition names_ok :: "MetadataBuilder \<Rightarrow> bool" where
  "names_ok b \<longleftrightarrow> distinct (map pt_name (b_partitions b)) \<and> distinct (map pg_name (b_groups b)) \<and>
     list_all (\<lambda>p. pt_name p \<noteq> []) (b_partitions b)"

definition builder_ok :: "MetadataBuilder \<Rightarrow> bool" where
  "builder_ok b \<longleftrightarrow> names_ok b \<and> alloc_ok b \<and> blocks_ok b \<and>
     list_all device_end_aligned (b_block_devices b)"

lemma FindGroup_iff: "FindGroup b g \<noteq> None \<longleftrightarrow> g \<in> pg_name ` set (b_groups b)"
  unfolding FindGroup_def find_index_filter_other by auto

lemma FindPartitionB_iff: "FindPartitionB b n \<noteq> None \<longleftrightarrow> n \<in> pt_name ` set (b_partitions b)"
  unfolding FindPartitionB_def find_index_filter_other by auto

lemma builder_ok_iff:
  "builder_ok b \<longleftrightarrow>
     geometry_ok (b_geometry b) \<and> b_block_devices b \<noteq> [] \<and> devices_ok (b_block_devices b) \<and>
     list_all (\<lambda>d. unat (g_logical_block_size (b_geometry b)) dvd unat (bd_alignment d) \<and>
       device_end_aligned d) (b_block_devices b) \<and>
     distinct (map pt_name (b_partitions b)) \<and> distinct (map pg_name (b_groups b)) \<and>
     distinct (disk b) \<and>
     (\<forall>p\<in>set (b_partitions b). pt_name p \<noteq> [] \<and> partition_ok p \<and>
        list_all (extent_in_device (b_block_devices b)) (pt_extents p) \<and>
        list_all (block_extent (unat (block_sectors b)) (b_block_devices b)) (pt_extents p) \<and>
        pt_group_name p \<in> pg_name ` set (b_groups b))"
  by (auto simp: builder_ok_def names_ok_def alloc_ok_def blocks_ok_def list_all_iff FindGroup_iff
      simp del: not_None_eq)

text \<open>
  An operation that only drops partitions, or appends empty ones, and keeps the devices and
  the geometry.
\<close>

lemma builder_ok_filter:
  assumes ok: "builder_ok b" and parts: "b_partitions b' = filter P (b_partitions b)"
    and same: "b_geometry b' = b_geometry b" "b_block_devices b' = b_block_devices b"
    and groups: "distinct (map pg_name (b_groups b'))"
      "\<forall>p\<in>set (b_partitions b'). pt_group_name p \<in> pg_name ` set (b_groups b')"
  shows "builder_ok b'"
proof -
  have "distinct (concat (map (\<lambda>p. phys (pt_extents p)) ps)) \<Longrightarrow>
      distinct (concat (map (\<lambda>p. phys (pt_extents p)) (filter P ps)))" for ps
    by (induction ps) auto
  then have "distinct (disk b')" using ok by (auto simp: builder_ok_iff disk_def parts)
  moreover have "block_sectors b' = block_sectors b" by (simp add: block_sectors_def same)
  ultimately show ?thesis
    using ok groups by (auto simp: builder_ok_iff parts same distinct_map_filter)
qed

lemma builder_ok_AddGroup:
  assumes "builder_ok b" "AddGroup b n m = Some b'"
  shows "builder_ok b'"
proof -
  have nf: "n \<notin> pg_name ` set (b_groups b)"
    and b': "b' = b\<lparr>b_groups := b_groups b @ [\<lparr>pg_name = n, pg_maximum_size = m\<rparr>]\<rparr>"
    using assms(2) FindGroup_iff[of b n] by (auto simp: AddGroup_def split: if_splits)
  show ?thesis
  proof (rule builder_ok_filter[OF assms(1), where P = "\<lambda>_. True"])
    show "distinct (map pg_name (b_groups b'))"
      using assms(1) nf by (auto simp: b' builder_ok_iff)
    show "\<forall>p\<in>set (b_partitions b'). pt_group_name p \<in> pg_name ` set (b_groups b')"
      using assms(1) by (auto simp: b' builder_ok_iff)
  qed (simp_all add: b')
qed

lemma builder_ok_AddPartition:
  assumes "builder_ok b" "AddPartition b n g a = Some (b', i)"
  shows "builder_ok b'"
proof -
  have ne: "n \<noteq> []" and nf: "n \<notin> pt_name ` set (b_partitions b)"
    and gf: "g \<in> pg_name ` set (b_groups b)"
    and b': "b' = b\<lparr>b_partitions := b_partitions b @ [new_partition n g a]\<rparr>"
    using assms(2) FindPartitionB_iff[of b n] FindGroup_iff[of b g]
    by (auto simp: AddPartition_def split: if_splits)
  have "block_sectors b' = block_sectors b" "disk b' = disk b"
    by (simp_all add: block_sectors_def disk_def b' new_partition_def)
  moreover have "partition_ok (new_partition n g a)"
    by (simp add: partition_ok_def new_partition_def)
  ultimately show ?thesis
    using assms(1) ne nf gf by (auto simp: builder_ok_iff b') (simp_all add: new_partition_def)
qed

lemma RemovePartition_filter:
  assumes "distinct (map pt_name (b_partitions b))"
  shows "RemovePartition b n = b\<lparr>b_partitions := filter (\<lambda>p. pt_name p \<noteq> n) (b_partitions b)\<rparr>"
  using assms by (simp add: RemovePartition_def remove_first_unique)

lemma foldl_RemovePartition:
  assumes "distinct (map pt_name (b_partitions b))"
  shows "foldl RemovePartition b ns =
    b\<lparr>b_partitions := filter (\<lambda>p. pt_name p \<notin> set ns) (b_partitions b)\<rparr>"
  using assms
proof (induction ns arbitrary: b)
  case (Cons n ns)
  have "distinct (map pt_name (filter (\<lambda>p. pt_name p \<noteq> n) (b_partitions b)))"
    using Cons.prems by (rule distinct_map_filter)
  with Cons show ?case
    by (simp add: RemovePartition_filter conj_commute)
qed simp

text \<open>\<open>RemoveGroupAndPartitions\<close> drops exactly the group and the partitions in it.\<close>

lemma RemoveGroupAndPartitions_filter:
  assumes "names_ok b" "g \<noteq> kDefaultGroup"
  shows "RemoveGroupAndPartitions b g = b\<lparr>
    b_partitions := filter (\<lambda>p. pt_group_name p \<noteq> g) (b_partitions b),
    b_groups := filter (\<lambda>x. pg_name x \<noteq> g) (b_groups b)\<rparr>"
proof -
  let ?ns = "map pt_name (filter (\<lambda>p. pt_group_name p = g) (b_partitions b))"
  have d: "distinct (map pt_name (b_partitions b))" "distinct (map pg_name (b_groups b))"
    using assms(1) by (auto simp: names_ok_def)
  have "filter (\<lambda>p. pt_name p \<notin> set ?ns) (b_partitions b) =
      filter (\<lambda>p. pt_group_name p \<noteq> g) (b_partitions b)"
    using d(1) by (intro filter_cong) (auto simp: distinct_map inj_on_def)
  with assms(2) d show ?thesis
    by (simp add: RemoveGroupAndPartitions_def foldl_RemovePartition remove_first_unique Let_def)
qed

lemma builder_ok_RemovePartition:
  assumes "builder_ok b"
  shows "builder_ok (RemovePartition b n)"
proof -
  have d: "distinct (map pt_name (b_partitions b))" using assms by (simp add: builder_ok_iff)
  show ?thesis unfolding RemovePartition_filter[OF d]
    by (rule builder_ok_filter[OF assms]) (use assms in \<open>auto simp: builder_ok_iff\<close>)
qed

lemma builder_ok_RemoveGroupAndPartitions:
  assumes "builder_ok b"
  shows "builder_ok (RemoveGroupAndPartitions b g)"
proof (cases "g = kDefaultGroup")
  case True
  with assms show ?thesis by (simp add: RemoveGroupAndPartitions_def)
next
  case False
  have n: "names_ok b" using assms by (simp add: builder_ok_def)
  show ?thesis unfolding RemoveGroupAndPartitions_filter[OF n False]
    by (rule builder_ok_filter[OF assms])
      (use assms in \<open>auto simp: builder_ok_iff distinct_map_filter\<close>)
qed

lemma update_partition_names:
  assumes "i < length (b_partitions b)" "pt_name p = pt_name (b_partitions b ! i)"
  shows "map pt_name (b_partitions (update_partition b i p)) = map pt_name (b_partitions b)"
  using assms by (simp add: map_update list_update_same_conv)

lemma builder_ok_update:
  assumes ok: "builder_ok b" and i: "i < length (b_partitions b)"
    and p: "pt_name p = pt_name (b_partitions b ! i)" "partition_ok p"
      "list_all (extent_in_device (b_block_devices b)) (pt_extents p)"
      "list_all (block_extent (unat (block_sectors b)) (b_block_devices b)) (pt_extents p)"
      "pt_group_name p \<in> pg_name ` set (b_groups b)"
    and d: "distinct (disk (update_partition b i p))"
  shows "builder_ok (update_partition b i p)"
proof -
  have "block_sectors (update_partition b i p) = block_sectors b" by (simp add: block_sectors_def)
  moreover have "pt_name p \<noteq> []" using ok i p(1) by (simp add: builder_ok_iff)
  moreover have "distinct (map pt_name ((b_partitions b)[i := p]))"
    using update_partition_names[OF i p(1)] ok by (simp add: builder_ok_iff)
  moreover have "q = p \<or> q \<in> set (b_partitions b)" if "q \<in> set ((b_partitions b)[i := p])" for q
    using set_update_subset_insert[THEN subsetD, OF that] by simp
  ultimately show ?thesis
    using ok p(2-) d unfolding builder_ok_iff update_partition_fields by metis
qed

lemma builder_ok_ChangePartitionGroup:
  assumes ok: "builder_ok b" and res: "ChangePartitionGroup b i g = Inr (c, b')"
  shows "builder_ok b'"
proof (cases "FindGroup b g = None")
  case True
  with assms show ?thesis by (simp add: ChangePartitionGroup_def)
next
  case False
  let ?p = "(b_partitions b ! i)\<lparr>pt_group_name := g\<rparr>"
  from False res have i: "i < length (b_partitions b)"
    and b': "b' = update_partition b i ?p"
    by (auto simp: ChangePartitionGroup_def run_simps update_partition_def)
  have g: "g \<in> pg_name ` set (b_groups b)" using False FindGroup_iff by blast
  from disk_split[OF i] obtain xs ys where
    "disk b = xs @ phys (pt_extents (b_partitions b ! i)) @ ys"
    "disk b' = xs @ phys (pt_extents ?p) @ ys" unfolding b' by blast
  then have "disk b' = disk b" by simp
  then have "distinct (disk b')" using ok by (simp add: builder_ok_iff)
  moreover have "b_partitions b ! i \<in> set (b_partitions b)" using i by simp
  ultimately show ?thesis
    unfolding b' using ok g by (intro builder_ok_update[OF ok i]) (auto simp: builder_ok_iff partition_ok_def)
qed

lemma builder_ok_same:
  assumes "builder_ok b" "b_partitions b' = b_partitions b" "b_geometry b' = b_geometry b"
    "b_block_devices b' = b_block_devices b" "map pg_name (b_groups b') = map pg_name (b_groups b)"
  shows "builder_ok b'"
proof (rule builder_ok_filter[OF assms(1), where P = "\<lambda>_. True"])
  have "pg_name ` set (b_groups b') = pg_name ` set (b_groups b)"
    using arg_cong[OF assms(5), of set] by (simp only: list.set_map)
  then show "\<forall>p\<in>set (b_partitions b'). pt_group_name p \<in> pg_name ` set (b_groups b')"
    using assms(1) by (simp add: builder_ok_iff assms(2))
  show "distinct (map pg_name (b_groups b'))"
    using assms(1) by (simp add: builder_ok_iff assms(5))
qed (simp_all add: assms)

lemma builder_ok_ChangeGroupSize: "builder_ok b \<Longrightarrow> builder_ok (snd (ChangeGroupSize b g m))"
  by (erule builder_ok_same)
    (auto simp: ChangeGroupSize_def FindGroup_def map_update split: option.splits
      dest!: find_index_SomeD intro!: list_update_same_conv[THEN iffD2])

lemma builder_ok_flags:
  assumes "builder_ok b"
  shows "builder_ok (RequireExpandedMetadataHeader b)" "builder_ok (SetAutoSlotSuffixing b)"
    "builder_ok (SetVirtualABDeviceFlag b)" "builder_ok (SetOverlaysActiveFlag b flag)"
  by (rule builder_ok_same[OF assms];
      simp add: RequireExpandedMetadataHeader_def SetAutoSlotSuffixing_def SetVirtualABDeviceFlag_def
        SetOverlaysActiveFlag_def Let_def)+


lemma builder_ok_ResizePartition:
  assumes ok: "builder_ok b" and res: "ResizePartition store b i n [] = Inr (c, b')"
  shows "builder_ok b'"
proof (cases c)
  case False
  with ok res ResizePartition_refused[OF _ no_hint, of b store i n b'] show ?thesis
    by (simp add: builder_ok_def)
next
  case True
  have parts: "alloc_ok b" "blocks_ok b" "list_all device_end_aligned (b_block_devices b)" "names_ok b"
    using ok by (auto simp: builder_ok_def)
  have geo: "geometry_ok (b_geometry b)" using parts(2) by (simp add: blocks_ok_def)
  from res have i: "i < length (b_partitions b)" by (auto simp: ResizePartition_def run_simps)
  from ResizePartition_spec[OF parts(1) geo no_hint parts(3) res[unfolded eqTrueI[OF True]]]
  have al: "alloc_ok b'" and b': "b' = update_partition b i (b_partitions b' ! i)"
    and name: "pt_name (b_partitions b' ! i) = pt_name (b_partitions b ! i)"
    by (auto simp: resized_def Let_def)
  from ResizePartition_returns[OF parts(1,2) i parts(3), of store n] res have "blocks_ok b'" by simp
  moreover have "list_all device_end_aligned (b_block_devices b')"
    using parts(3) by (subst b') simp
  moreover have "names_ok b'"
  proof -
    have m: "map pt_name (b_partitions b') = map pt_name (b_partitions b)"
      using update_partition_names[OF i name] b' by metis
    have "b_groups b' = b_groups b" by (subst b') simp
    moreover have "(\<forall>p\<in>set (b_partitions b'). pt_name p \<noteq> []) \<longleftrightarrow>
        (\<forall>p\<in>set (b_partitions b). pt_name p \<noteq> [])"
      using arg_cong[OF m, of "\<lambda>ns. \<forall>n\<in>set ns. n \<noteq> []"] by simp
    ultimately show ?thesis using parts(4) m by (simp add: names_ok_def list_all_iff)
  qed
  ultimately show ?thesis using al by (simp add: builder_ok_def)
qed

section \<open>Initialisation\<close>

text \<open>
  What \<open>Init\<close> does not check: the alignment is a multiple of the logical block size, and the device
  a multiple of its alignment.
\<close>

definition aligned_info :: "BlockDeviceInfo \<Rightarrow> bool" where
  "aligned_info info \<longleftrightarrow>
     unat (di_logical_block_size info) dvd unat (di_alignment info) \<and>
     (di_alignment info \<noteq> 0 \<longrightarrow> unat (di_alignment info) dvd unat (di_size info))"

lemma device_end_alignedI:
  assumes "512 dvd unat (bd_size d)"
    and "bd_alignment d \<noteq> 0 \<longrightarrow> unat (bd_alignment d) dvd unat (bd_size d)"
  shows "device_end_aligned d"
proof -
  let ?s = "bd_size d div LP_SECTOR_SIZE"
  have us: "unat ?s = unat (bd_size d) div 512" by (simp add: unat_div LP_SECTOR_SIZE_def)
  have u: "unat (?s * LP_SECTOR_SIZE) = unat (bd_size d)"
    using assms(1) unat_u64_lt[of "bd_size d"]
    by (subst unat_sectors_bytes) (simp_all add: us div_less_iff_less_mult del: unat_u64_lt)
  then have eq: "?s * LP_SECTOR_SIZE = bd_size d" by (simp add: word_unat_eq_iff)
  have r1: "round_up (unat (bd_size d)) (unat (bd_alignment d)) = unat (bd_size d)"
    using assms(2) by (cases "bd_alignment d = 0") (simp_all add: round_up_eq_self)
  have r2: "round_up (unat (bd_size d)) 512 = unat (bd_size d)"
    by (rule round_up_eq_self[OF assms(1)])
  show ?thesis
    by (simp add: device_end_aligned_def AlignSector_def eq align_to_u64 r1 r2)
qed

lemma free_area_sector_bound:
  assumes "free_area_sector start al lbs = Some v" "unat start < 4294967296"
  shows "unat (v * LP_SECTOR_SIZE + ucast (lbs :: u32)) = unat v * 512 + unat lbs"
proof -
  from assms(1) obtain w k where w: "align_to start k = Some w" and v: "v = w div LP_SECTOR_SIZE"
    by (auto simp: free_area_sector_def split: if_splits)
  have "unat w = round_up (unat start) (unat k)" by (rule align_to_u64_SomeD[OF w])
  also have "\<dots> < 4294967296 + 4294967296"
    using round_up_less[of "unat k" "unat start"] assms(2) unat_u32_lt[of k]
    by (cases "unat k = 0") (auto simp del: unat_u32_lt)
  finally have "unat w < 8589934592" by simp
  moreover have "unat v * 512 \<le> unat w"
    by (simp add: v unat_div LP_SECTOR_SIZE_def)
  ultimately have "unat v * 512 < 8589934592" by simp
  then have "unat (v * LP_SECTOR_SIZE) = unat v * 512" "unat v * 512 < 8589934592"
    by (simp_all add: unat_sectors_bytes)
  then show ?thesis
    using unat_u32_lt[of lbs] by (subst unat_add_small) (simp_all del: unat_u32_lt)
qed

lemma device_room:
  assumes "free_area_sector start al lbs = Some v" "unat start < 4294967296"
    and "\<not> sz < v * LP_SECTOR_SIZE + ucast lbs"
  shows "unat v \<le> unat sz div 512"
proof -
  have "unat v * 512 + unat lbs \<le> unat sz"
    using assms(3) unfolding word_less_nat_alt free_area_sector_bound[OF assms(1,2)] by simp
  then show ?thesis by simp
qed

definition device_init_ok :: "u32 \<Rightarrow> LpMetadataBlockDevice \<Rightarrow> bool" where
  "device_init_ok lbs d \<longleftrightarrow> unat (bd_first_logical_sector d) \<le> device_last_sector d \<and>
     unat lbs dvd unat (bd_alignment d) \<and> device_end_aligned d"

lemma VerifyDeviceProperties_dvd:
  assumes "VerifyDeviceProperties info"
  shows "di_logical_block_size info \<noteq> 0 \<and> 512 dvd unat (di_logical_block_size info) \<and>
    unat (di_logical_block_size info) dvd unat (di_size info)"
proof -
  have "di_logical_block_size info \<noteq> 0" "di_logical_block_size info mod 512 = 0"
    "di_size info mod ucast (di_logical_block_size info) = 0"
    using assms by (auto simp: VerifyDeviceProperties_def)
  from this(1) arg_cong[OF this(2), of unat] arg_cong[OF this(3), of unat] show ?thesis
    by (simp add: unat_mod dvd_eq_mod_eq_0)
qed

lemma init_device_ok:
  assumes "VerifyDeviceProperties info" "aligned_info info" "init_device (di_logical_block_size info) info = Some d"
  shows "device_init_ok (di_logical_block_size info) d"
proof -
  let ?lbs = "di_logical_block_size info"
  from assms(3) obtain v where v: "free_area_sector LP_SECTOR_SIZE (di_alignment info) ?lbs = Some v"
    and room: "\<not> di_size info < v * LP_SECTOR_SIZE + ucast ?lbs"
    and d: "bd_first_logical_sector d = v" "bd_alignment d = di_alignment info" "bd_size d = di_size info"
    by (auto simp: init_device_def Let_def split: option.splits if_splits)
  have "512 dvd unat ?lbs" "unat ?lbs dvd unat (di_size info)"
    using VerifyDeviceProperties_dvd[OF assms(1)] by auto
  then have "512 dvd unat (di_size info)" by (rule dvd_trans)
  then have "device_end_aligned d"
    using assms(2) d by (intro device_end_alignedI) (auto simp: aligned_info_def)
  moreover have "unat (bd_first_logical_sector d) \<le> device_last_sector d"
    using device_room[OF v _ room] d by (simp add: device_last_sector_def LP_SECTOR_SIZE_def)
  ultimately show ?thesis using assms(2) d by (simp add: device_init_ok_def aligned_info_def)
qed

lemma init_devices_ok:
  assumes "init_devices super lbs devs infos = Some (lbs', devs')" "list_all aligned_info infos"
    and "list_all (device_init_ok lbs) devs" "lbs = 0 \<longrightarrow> devs = []"
  shows "list_all (device_init_ok lbs') devs' \<and> length devs' = length devs + length infos \<and>
    (infos \<noteq> [] \<longrightarrow> geometry_ok ((b_geometry empty_builder)\<lparr>g_logical_block_size := lbs'\<rparr>))"
  using assms
proof (induction infos arbitrary: lbs devs)
  case (Cons info infos)
  let ?lbs = "di_logical_block_size info"
  from Cons.prems(1) obtain d where ver: "VerifyDeviceProperties info"
    and lbs: "lbs = 0 \<or> lbs = ?lbs" and d: "init_device ?lbs info = Some d"
    and rest: "init_devices super ?lbs (if di_partition_name info = super then d # devs else devs @ [d]) infos
        = Some (lbs', devs')"
    by (auto simp: Let_def split: if_splits option.splits)
  have l0: "?lbs \<noteq> 0" "512 dvd unat ?lbs"
    using VerifyDeviceProperties_dvd[OF ver] by auto
  have d': "device_init_ok ?lbs d"
    using init_device_ok[OF ver _ d] Cons.prems(2) by simp
  have devs: "list_all (device_init_ok ?lbs) (if di_partition_name info = super then d # devs else devs @ [d])"
    using Cons.prems(3,4) lbs d' by auto
  from Cons.IH[OF rest _ devs] Cons.prems(2) l0(1) have
    "list_all (device_init_ok lbs') devs' \<and> length devs' = Suc (length devs + length infos) \<and>
     (infos \<noteq> [] \<longrightarrow> geometry_ok ((b_geometry empty_builder)\<lparr>g_logical_block_size := lbs'\<rparr>))"
    by (auto split: if_splits)
  moreover have "infos = [] \<Longrightarrow> lbs' = ?lbs" using rest by simp
  ultimately show ?case using l0 by (cases "infos = []") (auto simp: geometry_ok_def)
qed simp

lemma GetTotalMetadataSize_lt: "unat (GetTotalMetadataSize m n) < 4294967296"
  unfolding GetTotalMetadataSize_def unat_ucast_u32_u64 by (rule unat_u32_lt)

lemma builder_ok_InitDevices:
  assumes init: "InitDevices infos super max_size slots = Some b"
    and al: "list_all aligned_info infos" and len: "length infos < 4294967296"
  shows "builder_ok b"
proof -
  from init obtain ms lbs sup rest first where
    devs: "init_devices super 0 [] infos = Some (lbs, sup # rest)" and ne: "infos \<noteq> []"
    and first: "free_area_sector (GetTotalMetadataSize ms slots) (bd_alignment sup) lbs = Some first"
    and room: "\<not> bd_size sup < first * LP_SECTOR_SIZE + ucast lbs"
    and b: "AddGroup (empty_builder\<lparr>
        b_block_devices := sup\<lparr>bd_first_logical_sector := first\<rparr> # rest,
        b_geometry := (b_geometry empty_builder)\<lparr>g_metadata_max_size := ms,
          g_metadata_slot_count := slots, g_logical_block_size := lbs\<rparr>\<rparr>) kDefaultGroup 0 = Some b"
    by (auto simp: InitDevices_def Let_def split: if_splits option.splits list.splits)
  let ?b = "empty_builder\<lparr>b_block_devices := sup\<lparr>bd_first_logical_sector := first\<rparr> # rest,
        b_geometry := (b_geometry empty_builder)\<lparr>g_metadata_max_size := ms,
          g_metadata_slot_count := slots, g_logical_block_size := lbs\<rparr>\<rparr>"
  from init_devices_ok[OF devs al] ne have d: "list_all (device_init_ok lbs) (sup # rest)"
    "length (sup # rest) = length infos" and g: "geometry_ok (b_geometry ?b)"
    by (auto simp: geometry_ok_def)
  have "unat first \<le> unat (bd_size sup) div 512"
    by (rule device_room[OF first GetTotalMetadataSize_lt room])
  then have "devices_ok (b_block_devices ?b)"
    using d len by (auto simp: devices_ok_def device_init_ok_def list_all_iff device_last_sector_def)
  moreover have "list_all (\<lambda>d. unat lbs dvd unat (bd_alignment d) \<and> device_end_aligned d)
      (b_block_devices ?b)"
    using d by (auto simp: device_init_ok_def list_all_iff device_end_aligned_def AlignSector_def)
  ultimately have "builder_ok ?b"
    using g by (simp add: builder_ok_iff disk_def empty_builder_def)
  from builder_ok_AddGroup[OF this b] show ?thesis .
qed

section \<open>Reachable builders\<close>

text \<open>
  The steps of a client of the class: every public operation that changes groups, partitions or
  header flags, with resizes without a region hint.
\<close>

inductive builder_step :: "props \<Rightarrow> MetadataBuilder \<Rightarrow> MetadataBuilder \<Rightarrow> bool" for store where
  step_add_group: "AddGroup b name maximum_size = Some b' \<Longrightarrow> builder_step store b b'"
| step_add_partition: "AddPartition b name group_name attributes = Some (b', i) \<Longrightarrow> builder_step store b b'"
| step_remove_partition: "builder_step store b (RemovePartition b name)"
| step_remove_group: "builder_step store b (RemoveGroupAndPartitions b group_name)"
| step_change_partition_group: "ChangePartitionGroup b i group_name = Inr (c, b') \<Longrightarrow> builder_step store b b'"
| step_change_group_size: "builder_step store b (snd (ChangeGroupSize b group_name maximum_size))"
| step_resize: "ResizePartition store b i requested [] = Inr (c, b') \<Longrightarrow> builder_step store b b'"
| step_auto_suffix: "builder_step store b (SetAutoSlotSuffixing b)"
| step_expanded_header: "builder_step store b (RequireExpandedMetadataHeader b)"
| step_virtual_ab: "builder_step store b (SetVirtualABDeviceFlag b)"
| step_overlays: "builder_step store b (SetOverlaysActiveFlag b flag)"

inductive reachable :: "props \<Rightarrow> BlockDeviceInfo list \<Rightarrow> string \<Rightarrow> u32 \<Rightarrow> u32 \<Rightarrow> MetadataBuilder \<Rightarrow> bool"
  for store infos super max_size slots where
  reach_init: "InitDevices infos super max_size slots = Some b \<Longrightarrow>
     reachable store infos super max_size slots b"
| reach_step: "reachable store infos super max_size slots b \<Longrightarrow> builder_step store b b' \<Longrightarrow>
     reachable store infos super max_size slots b'"

lemma builder_ok_step: "builder_step store b b' \<Longrightarrow> builder_ok b \<Longrightarrow> builder_ok b'"
  by (induction rule: builder_step.induct)
    (auto intro: builder_ok_AddGroup builder_ok_AddPartition builder_ok_RemovePartition
      builder_ok_RemoveGroupAndPartitions builder_ok_ChangePartitionGroup builder_ok_ChangeGroupSize
      builder_ok_ResizePartition builder_ok_flags)

lemma reachable_builder_ok:
  assumes "reachable store infos super max_size slots b"
    and "list_all aligned_info infos" "length infos < 4294967296"
  shows "builder_ok b"
  using assms by (induction) (auto intro: builder_ok_InitDevices builder_ok_step)


definition demo_info :: BlockDeviceInfo where
  "demo_info = \<lparr>di_size = 262144, di_alignment = 8192, di_alignment_offset = 0,
     di_logical_block_size = 4096, di_partition_name = ''super''\<rparr>"


end
