(* ===== verification/LpExport.thy ===== *)
theory LpExport imports LpBuilderInv begin

text \<open>
  \<open>MetadataBuilder::Export\<close>, which flattens the builder's objects into the tables of an
  \<open>LpMetadata\<close>, and its inverse, \<open>Init(const LpMetadata&)\<close>.
\<close>

section \<open>Export\<close>

definition export_device :: "bool \<Rightarrow> LpMetadataBlockDevice \<Rightarrow> LpMetadataBlockDevice" where
  "export_device auto_slot_suffixing d =
     (if auto_slot_suffixing then d\<lparr>bd_flags := or (bd_flags d) LP_BLOCK_DEVICE_SLOT_SUFFIXED\<rparr> else d)"

definition export_group :: "bool \<Rightarrow> PartitionGroup \<Rightarrow> LpMetadataPartitionGroup option" where
  "export_group auto_slot_suffixing g =
     (if length (pg_name g) > sizeof_name then None
      else Some \<lparr>gr_name = strncpy sizeof_name (pg_name g),
                 gr_flags = (if auto_slot_suffixing \<and> pg_name g \<noteq> kDefaultGroup
                             then LP_GROUP_SLOT_SUFFIXED else 0),
                 gr_maximum_size = pg_maximum_size g\<rparr>)"

text \<open>The loop over the groups, with the map from names to indices it fills.\<close>

fun export_groups :: "bool \<Rightarrow> PartitionGroup list \<Rightarrow> (string \<rightharpoonup> nat) \<Rightarrow> LpMetadataPartitionGroup list
    \<Rightarrow> ((string \<rightharpoonup> nat) \<times> LpMetadataPartitionGroup list) option" where
  "export_groups sfx [] group_indices groups = Some (group_indices, groups)"
| "export_groups sfx (g # gs) group_indices groups =
     (case export_group sfx g of
        None \<Rightarrow> None
      | Some out \<Rightarrow> export_groups sfx gs (group_indices(pg_name g \<mapsto> length groups)) (groups @ [out]))"

fun export_extents :: "Extent list \<Rightarrow> LpMetadata \<Rightarrow> LpMetadata option" where
  "export_extents [] metadata = Some metadata"
| "export_extents (e # es) metadata =
     (case AddTo e metadata of None \<Rightarrow> None | Some metadata' \<Rightarrow> export_extents es metadata')"

text \<open>The body of the loop over the partitions.\<close>

definition export_partition ::
  "bool \<Rightarrow> (string \<rightharpoonup> nat) \<Rightarrow> Partition \<Rightarrow> LpMetadata \<Rightarrow> LpMetadata option" where
  "export_partition auto_slot_suffixing group_indices p metadata =
     (if length (pt_name p) > sizeof_name then None
      else if and (pt_attributes p) (not LP_PARTITION_ATTRIBUTE_MASK) \<noteq> 0 then None
      else
        let metadata1 = (if and (pt_attributes p) LP_PARTITION_ATTRIBUTE_MASK_V1 \<noteq> 0
              then metadata\<lparr>m_header := (m_header metadata)\<lparr>h_minor_version :=
                     max (h_minor_version (m_header metadata)) LP_METADATA_VERSION_FOR_UPDATED_ATTR\<rparr>\<rparr>
              else metadata)
        in case group_indices (pt_group_name p) of
             None \<Rightarrow> None
           | Some k \<Rightarrow>
               let part = \<lparr>p_name = strncpy sizeof_name (pt_name p),
                     p_attributes = (if auto_slot_suffixing
                       then or (pt_attributes p) LP_PARTITION_ATTR_SLOT_SUFFIXED else pt_attributes p),
                     p_first_extent_index = of_nat (length (m_extents metadata1)),
                     p_num_extents = of_nat (length (pt_extents p)),
                     p_group_index = of_nat k\<rparr>
               in map_option (\<lambda>m. m\<lparr>m_partitions := m_partitions m @ [part]\<rparr>)
                    (export_extents (pt_extents p) metadata1))"

fun export_partitions ::
  "bool \<Rightarrow> (string \<rightharpoonup> nat) \<Rightarrow> Partition list \<Rightarrow> LpMetadata \<Rightarrow> LpMetadata option" where
  "export_partitions sfx group_indices [] metadata = Some metadata"
| "export_partitions sfx group_indices (p # ps) metadata =
     (case export_partition sfx group_indices p metadata of
        None \<Rightarrow> None | Some metadata' \<Rightarrow> export_partitions sfx group_indices ps metadata')"

definition set_num_entries :: "LpMetadata \<Rightarrow> LpMetadata" where
  "set_num_entries m =
     m\<lparr>m_header := (m_header m)\<lparr>
         h_partitions := (h_partitions (m_header m))\<lparr>td_num_entries := of_nat (length (m_partitions m))\<rparr>,
         h_extents := (h_extents (m_header m))\<lparr>td_num_entries := of_nat (length (m_extents m))\<rparr>,
         h_groups := (h_groups (m_header m))\<lparr>td_num_entries := of_nat (length (m_groups m))\<rparr>,
         h_block_devices := (h_block_devices (m_header m))\<lparr>td_num_entries := of_nat (length (m_block_devices m))\<rparr>\<rparr>\<rparr>"

definition Export :: "MetadataBuilder \<Rightarrow> LpMetadata option" where
  "Export b =
     (if \<not> ValidatePartitionGroups b then None
      else case export_groups (b_auto_slot_suffixing b) (b_groups b) Map.empty [] of
        None \<Rightarrow> None
      | Some (group_indices, groups) \<Rightarrow>
          map_option set_num_entries
            (export_partitions (b_auto_slot_suffixing b) group_indices (b_partitions b)
               \<lparr>m_geometry = b_geometry b, m_header = b_header b, m_partitions = [], m_extents = [],
                m_groups = groups,
                m_block_devices = map (export_device (b_auto_slot_suffixing b)) (b_block_devices b)\<rparr>))"

section \<open>The tables that Export produces\<close>

fun extent_entry :: "Extent \<Rightarrow> LpMetadataExtent" where
  "extent_entry (LinearExtent n d p) =
     \<lparr>e_num_sectors = n, e_target_type = LP_TARGET_TYPE_LINEAR, e_target_data = p, e_target_source = d\<rparr>"
| "extent_entry (ZeroExtent n) =
     \<lparr>e_num_sectors = n, e_target_type = LP_TARGET_TYPE_ZERO, e_target_data = 0, e_target_source = 0\<rparr>"

definition extent_storable :: "nat \<Rightarrow> Extent \<Rightarrow> bool" where
  "extent_storable n_devices e \<longleftrightarrow> (is_linear e \<longrightarrow> unat (device_index e) < n_devices)"

lemma AddTo_storable:
  "extent_storable (length (m_block_devices m)) e \<Longrightarrow>
   AddTo e m = Some (m\<lparr>m_extents := m_extents m @ [extent_entry e]\<rparr>)"
  by (cases e) (simp_all add: AddTo_def extent_storable_def)

lemma export_extents_eq:
  "list_all (extent_storable (length (m_block_devices m))) es \<Longrightarrow>
   export_extents es m = Some (m\<lparr>m_extents := m_extents m @ map extent_entry es\<rparr>)"
  by (induction es arbitrary: m) (simp_all add: AddTo_storable)

lemma export_extents_None:
  "\<not> list_all (extent_storable (length (m_block_devices m))) es \<Longrightarrow> export_extents es m = None"
proof (induction es arbitrary: m)
  case (Cons e es)
  show ?case
  proof (cases "extent_storable (length (m_block_devices m)) e")
    case True
    with Cons show ?thesis by (simp add: AddTo_storable)
  next
    case False
    then show ?thesis by (cases e) (simp_all add: AddTo_def extent_storable_def)
  qed
qed simp

definition group_entry :: "PartitionGroup \<Rightarrow> LpMetadataPartitionGroup" where
  "group_entry g = \<lparr>gr_name = strncpy sizeof_name (pg_name g), gr_flags = 0,
     gr_maximum_size = pg_maximum_size g\<rparr>"

lemma export_groups_eq:
  assumes "list_all (\<lambda>g. length (pg_name g) \<le> sizeof_name) gs" "distinct (map pg_name gs)"
    and "\<forall>g\<in>set gs. idx (pg_name g) = None"
  shows "\<exists>idx'. export_groups False gs idx out = Some (idx', out @ map group_entry gs) \<and>
    (\<forall>j<length gs. idx' (pg_name (gs ! j)) = Some (length out + j)) \<and>
    (\<forall>n. n \<notin> pg_name ` set gs \<longrightarrow> idx' n = idx n)"
  using assms
proof (induction gs arbitrary: idx out)
  case (Cons g gs)
  have g: "export_group False g = Some (group_entry g)"
    using Cons.prems(1) by (simp add: export_group_def group_entry_def)
  have "\<forall>ga\<in>set gs. (idx(pg_name g \<mapsto> length out)) (pg_name ga) = None"
    using Cons.prems(2,3) by (auto simp: image_iff)
  with Cons.IH[of "idx(pg_name g \<mapsto> length out)" "out @ [group_entry g]"] Cons.prems(1,2)
  obtain idx' where i: "export_groups False gs (idx(pg_name g \<mapsto> length out)) (out @ [group_entry g])
      = Some (idx', (out @ [group_entry g]) @ map group_entry gs)"
    "\<forall>j<length gs. idx' (pg_name (gs ! j)) = Some (length (out @ [group_entry g]) + j)"
    "\<forall>n. n \<notin> pg_name ` set gs \<longrightarrow> idx' n = (idx(pg_name g \<mapsto> length out)) n"
    by (auto simp del: fun_upd_apply)
  have "idx' (pg_name ((g # gs) ! j)) = Some (length out + j)" if "j < length (g # gs)" for j
    using that i(2,3) Cons.prems(2) by (cases j) auto
  then show ?case using g i by auto
qed simp

definition partition_entry :: "(string \<rightharpoonup> nat) \<Rightarrow> nat \<Rightarrow> Partition \<Rightarrow> LpMetadataPartition" where
  "partition_entry idx first p =
     \<lparr>p_name = strncpy sizeof_name (pt_name p), p_attributes = pt_attributes p,
      p_first_extent_index = of_nat first, p_num_extents = of_nat (length (pt_extents p)),
      p_group_index = of_nat (the (idx (pt_group_name p)))\<rparr>"

fun partition_entries :: "(string \<rightharpoonup> nat) \<Rightarrow> nat \<Rightarrow> Partition list \<Rightarrow> LpMetadataPartition list" where
  "partition_entries idx first [] = []"
| "partition_entries idx first (p # ps) =
     partition_entry idx first p # partition_entries idx (first + length (pt_extents p)) ps"

definition all_extents :: "Partition list \<Rightarrow> LpMetadataExtent list" where
  "all_extents ps = concat (map (\<lambda>p. map extent_entry (pt_extents p)) ps)"

text \<open>What \<open>Export\<close> requires of a partition.\<close>

definition partition_storable :: "nat \<Rightarrow> (string \<rightharpoonup> nat) \<Rightarrow> Partition \<Rightarrow> bool" where
  "partition_storable n_devices idx p \<longleftrightarrow> length (pt_name p) \<le> sizeof_name \<and>
     and (pt_attributes p) (not LP_PARTITION_ATTRIBUTE_MASK) = 0 \<and>
     idx (pt_group_name p) \<noteq> None \<and> list_all (extent_storable n_devices) (pt_extents p)"

definition needs_v1 :: "Partition \<Rightarrow> bool" where
  "needs_v1 p \<longleftrightarrow> and (pt_attributes p) LP_PARTITION_ATTRIBUTE_MASK_V1 \<noteq> 0"

definition bump_minor :: "bool \<Rightarrow> LpMetadataHeader \<Rightarrow> LpMetadataHeader" where
  "bump_minor c h = (if c then h\<lparr>h_minor_version :=
     max (h_minor_version h) LP_METADATA_VERSION_FOR_UPDATED_ATTR\<rparr> else h)"

lemma bump_minor_simps [simp]:
  "bump_minor False h = h" "bump_minor c (bump_minor d h) = bump_minor (c \<or> d) h"
  by (simp_all add: bump_minor_def)

lemma export_partition_eq:
  assumes "partition_storable (length (m_block_devices m)) idx p"
  shows "export_partition False idx p m = Some (m\<lparr>
    m_header := bump_minor (needs_v1 p) (m_header m),
    m_partitions := m_partitions m @ [partition_entry idx (length (m_extents m)) p],
    m_extents := m_extents m @ map extent_entry (pt_extents p)\<rparr>)"
proof -
  obtain k where k: "idx (pt_group_name p) = Some k"
    using assms by (auto simp: partition_storable_def)
  let ?m1 = "if needs_v1 p
    then m\<lparr>m_header := (m_header m)\<lparr>h_minor_version :=
      max (h_minor_version (m_header m)) LP_METADATA_VERSION_FOR_UPDATED_ATTR\<rparr>\<rparr> else m"
  have m1: "?m1 = m\<lparr>m_header := bump_minor (needs_v1 p) (m_header m)\<rparr>"
    by (simp add: bump_minor_def)
  have "export_extents (pt_extents p) (m\<lparr>m_header := bump_minor (needs_v1 p) (m_header m)\<rparr>) =
    Some (m\<lparr>m_header := bump_minor (needs_v1 p) (m_header m),
      m_extents := m_extents m @ map extent_entry (pt_extents p)\<rparr>)"
    using assms by (subst export_extents_eq) (simp_all add: partition_storable_def)
  then show ?thesis
    using assms k m1
    by (simp add: export_partition_def partition_storable_def partition_entry_def
        needs_v1_def Let_def)
qed

lemma export_partitions_eq:
  assumes "list_all (partition_storable (length (m_block_devices m)) idx) ps"
  shows "export_partitions False idx ps m = Some (m\<lparr>
    m_header := bump_minor (list_ex needs_v1 ps) (m_header m),
    m_partitions := m_partitions m @ partition_entries idx (length (m_extents m)) ps,
    m_extents := m_extents m @ all_extents ps\<rparr>)"
  using assms
proof (induction ps arbitrary: m)
  case Nil
  then show ?case by (simp add: all_extents_def)
next
  case (Cons p ps)
  then show ?case
    by (simp add: export_partition_eq all_extents_def disj_commute)
qed

section \<open>Reading the tables back\<close>

lemma append_extent_merged:
  assumes "merged (es @ [e])"
  shows "append_extent es e = es @ [e]"
proof (cases "es = []")
  case False
  have "\<not> mergeable ((es @ [e]) ! (length es - 1)) ((es @ [e]) ! Suc (length es - 1))"
    using False by (intro assms[unfolded merged_def, rule_format]) simp
  then have "\<not> mergeable (last es) e"
    using False by (simp add: nth_append last_conv_nth)
  then show ?thesis by (auto simp: append_extent_def mergeable_def)
qed (simp add: append_extent_def)

lemma merged_butlast: "merged (es @ [e]) \<Longrightarrow> merged es"
  unfolding merged_def by (auto simp: nth_append split: if_splits)

lemma foldl_AddExtent_merged:
  assumes "merged es"
  shows "pt_extents (foldl AddExtent (new_partition n g a) es) = es"
  using assms
proof (induction es rule: rev_induct)
  case Nil
  then show ?case by (simp add: new_partition_def)
next
  case (snoc e es)
  then show ?case by (simp add: append_extent_merged merged_butlast)
qed

text \<open>Rebuilding a partition from its extents.\<close>

lemma foldl_AddExtent_rebuild:
  assumes "partition_ok p" "merged (pt_extents p)"
  shows "foldl AddExtent (new_partition (pt_name p) (pt_group_name p) (pt_attributes p)) (pt_extents p) = p"
proof -
  let ?n = "new_partition (pt_name p) (pt_group_name p) (pt_attributes p)"
  let ?q = "foldl AddExtent ?n (pt_extents p)"
  have n: "partition_ok ?n" by (simp add: new_partition_def partition_ok_def)
  have ext: "pt_extents ?q = pt_extents p" by (rule foldl_AddExtent_merged[OF assms(2)])
  from foldl_AddExtent[OF n, of "pt_extents p"] assms(1) have q: "partition_ok ?q"
    "pt_name ?q = pt_name p" "pt_group_name ?q = pt_group_name p" "pt_attributes ?q = pt_attributes p"
    by (auto simp: partition_ok_def new_partition_def)
  have "unat (pt_size ?q) = unat (pt_size p)"
    using q(1) assms(1) ext by (simp add: partition_ok_def)
  with q ext show ?thesis by (simp add: word_unat_eq_iff)
qed

lemma import_extents_eq:
  assumes "idx + length es \<le> length xs" "take (length es) (drop idx xs) = map extent_entry es"
  shows "import_extents xs idx (length es) dest = Inr (foldl AddExtent dest es)"
  using assms
proof (induction es arbitrary: idx dest)
  case (Cons e es)
  have lt: "idx < length xs" using Cons.prems(1) by simp
  then have "drop idx xs = xs ! idx # drop (Suc idx) xs" by (rule Cons_nth_drop_Suc[symmetric])
  with Cons.prems(2) have h: "xs ! idx = extent_entry e"
    "take (length es) (drop (Suc idx) xs) = map extent_entry es" by simp_all
  have "import_extents xs (Suc idx) (length es) (AddExtent dest e) = Inr (foldl AddExtent (AddExtent dest e) es)"
    using Cons.IH[of "Suc idx"] Cons.prems(1) h(2) by simp
  then show ?case
    using lt h(1)
    by (cases e) (simp_all add: LP_TARGET_TYPE_LINEAR_def LP_TARGET_TYPE_ZERO_def)
qed simp

lemma init_groups_eq:
  assumes "list_all (\<lambda>g. storable_name (pg_name g)) gs" "distinct (map pg_name (b_groups b @ gs))"
  shows "init_groups (map group_entry gs) b = Some (b\<lparr>b_groups := b_groups b @ gs\<rparr>)"
  using assms
proof (induction gs arbitrary: b)
  case (Cons g gs)
  have n: "GetPartitionGroupName (group_entry g) = pg_name g"
    using Cons.prems(1) by (simp add: GetPartitionGroupName_def group_entry_def)
  have "pg_name g \<notin> pg_name ` set (b_groups b)" using Cons.prems(2) by auto
  then have "FindGroup b (pg_name g) = None" using FindGroup_iff[of b "pg_name g"] by auto
  then have "AddGroup b (pg_name g) (gr_maximum_size (group_entry g)) =
      Some (b\<lparr>b_groups := b_groups b @ [g]\<rparr>)"
    by (simp add: AddGroup_def group_entry_def)
  with n Cons.IH[of "b\<lparr>b_groups := b_groups b @ [g]\<rparr>"] Cons.prems show ?case
    by simp
qed simp

definition importable :: "Partition \<Rightarrow> bool" where
  "importable p \<longleftrightarrow> storable_name (pt_name p) \<and> pt_name p \<noteq> [] \<and> partition_ok p \<and>
     merged (pt_extents p)"

lemma init_partitions_eq:
  assumes parts: "list_all importable ps" "distinct (map pt_name (b_partitions b @ ps))"
    and ext: "drop first (m_extents m) = all_extents ps @ post" "first \<le> length (m_extents m)"
      "length (m_extents m) < 4294967296"
    and groups: "m_groups m = map group_entry (b_groups b)" "length (b_groups b) < 4294967296"
      "list_all (\<lambda>g. storable_name (pg_name g)) (b_groups b)"
    and idx: "\<And>p. p \<in> set ps \<Longrightarrow> \<exists>k < length (b_groups b). idx (pt_group_name p) = Some k \<and>
      pg_name (b_groups b ! k) = pt_group_name p"
  shows "init_partitions m (partition_entries idx first ps) b = Inr (Some (b\<lparr>b_partitions := b_partitions b @ ps\<rparr>))"
  using parts ext(1,2) groups idx
proof (induction ps arbitrary: b first)
  case Nil
  then show ?case by simp
next
  case (Cons p ps)
  let ?e = "partition_entry idx first p"
  from Cons.prems(8)[of p] obtain k where k: "k < length (b_groups b)" "idx (pt_group_name p) = Some k"
    "pg_name (b_groups b ! k) = pt_group_name p" by auto
  have gi: "unat (p_group_index ?e) = k"
    using k Cons.prems(6) by (simp add: partition_entry_def unat_of_nat_small)
  have gn: "GetPartitionGroupName (m_groups m ! k) = pt_group_name p"
  proof -
    have "storable_name (pg_name (b_groups b ! k))"
      using Cons.prems(7) k(1) by (simp add: list_all_length)
    then show ?thesis
      using k(1) by (simp add: Cons.prems(5) GetPartitionGroupName_def group_entry_def k(3))
  qed
  have imp: "storable_name (pt_name p)" "pt_name p \<noteq> []" "partition_ok p" "merged (pt_extents p)"
    using Cons.prems(1) by (auto simp: importable_def)
  have pn: "GetPartitionName ?e = pt_name p"
    using imp(1) by (simp add: GetPartitionName_def partition_entry_def)
  have nf: "FindPartitionB b (pt_name p) = None"
    using Cons.prems(2) FindPartitionB_iff[of b "pt_name p"] by auto
  have fg: "FindGroup b (pt_group_name p) \<noteq> None"
    unfolding FindGroup_iff using k by (metis image_eqI nth_mem)
  let ?b' = "b\<lparr>b_partitions := b_partitions b @ [new_partition (pt_name p) (pt_group_name p) (pt_attributes p)]\<rparr>"
  have add: "AddPartition b (pt_name p) (pt_group_name p) (p_attributes ?e) = Some (?b', length (b_partitions b))"
    using imp(2) nf fg by (simp add: AddPartition_def partition_entry_def)
  have dl: "drop first (m_extents m) = map extent_entry (pt_extents p) @ all_extents ps @ post"
    using Cons.prems(3) by (simp add: all_extents_def)
  have len: "first + length (pt_extents p) \<le> length (m_extents m)"
    using arg_cong[OF dl, of length] Cons.prems(4) by simp
  have "first < 4294967296 \<or> pt_extents p = []" "length (pt_extents p) < 4294967296"
    using len ext(3) by auto
  then have u: "unat (p_num_extents ?e) = length (pt_extents p)"
    "pt_extents p \<noteq> [] \<longrightarrow> unat (p_first_extent_index ?e) = first"
    by (auto simp: partition_entry_def unat_of_nat_small)
  have "import_extents (m_extents m) first (length (pt_extents p))
      (new_partition (pt_name p) (pt_group_name p) (pt_attributes p)) = Inr p"
    using import_extents_eq[OF len] dl foldl_AddExtent_rebuild[OF imp(3,4)] by simp
  then have imp': "ImportExtents (new_partition (pt_name p) (pt_group_name p) (pt_attributes p)) m ?e = Inr p"
    using u foldl_AddExtent_rebuild[OF imp(3,4)] by (cases "pt_extents p = []") (auto simp: ImportExtents_def)
  let ?b'' = "b\<lparr>b_partitions := b_partitions b @ [p]\<rparr>"
  have "init_partitions m (partition_entries idx (first + length (pt_extents p)) ps) ?b'' =
      Inr (Some (?b''\<lparr>b_partitions := b_partitions ?b'' @ ps\<rparr>))"
  proof (rule Cons.IH)
    show "drop (first + length (pt_extents p)) (m_extents m) = all_extents ps @ post"
      using arg_cong[OF dl, of "drop (length (pt_extents p))"] by (simp add: add.commute)
    show "\<exists>k<length (b_groups ?b''). idx (pt_group_name q) = Some k \<and>
        pg_name (b_groups ?b'' ! k) = pt_group_name q" if "q \<in> set ps" for q
      using Cons.prems(8)[of q] that by simp
  qed (use Cons.prems(1,2,5,6,7) len in simp_all)
  then show ?case
    using gi gn pn add imp' k(1) Cons.prems(5) by simp
qed

section \<open>The round trip\<close>

text \<open>
  What a builder needs to be written and read back unchanged: no slot suffixing, a header as the
  constructor and the flag setters leave it, names that fit, no two neighbouring extents that
  \<open>AddExtent\<close> would merge, and tables whose indices fit 32 bits.
\<close>

definition plain_header :: "LpMetadataHeader \<Rightarrow> bool" where
  "plain_header h \<longleftrightarrow> h = b_header empty_builder \<or>
     h = (b_header empty_builder)\<lparr>h_minor_version := LP_METADATA_VERSION_FOR_EXPANDED_HEADER,
            h_header_size := of_nat sizeof_header, h_flags := h_flags h\<rparr>"

definition exportable :: "MetadataBuilder \<Rightarrow> bool" where
  "exportable b \<longleftrightarrow> \<not> b_auto_slot_suffixing b \<and> plain_header (b_header b) \<and> names_ok b \<and>
     list_all (\<lambda>g. storable_name (pg_name g)) (b_groups b) \<and>
     list_all (\<lambda>p. importable p \<and> and (pt_attributes p) (not LP_PARTITION_ATTRIBUTE_MASK) = 0 \<and>
       FindGroup b (pt_group_name p) \<noteq> None \<and>
       list_all (extent_storable (length (b_block_devices b))) (pt_extents p)) (b_partitions b) \<and>
     length (b_groups b) < 4294967296 \<and> length (all_extents (b_partitions b)) < 4294967296 \<and>
     ValidatePartitionGroups b"

text \<open>The header that \<open>Init\<close> rebuilds from an exported one.\<close>

definition import_header :: "LpMetadataHeader \<Rightarrow> LpMetadataHeader" where
  "import_header h =
     (if h_minor_version h \<ge> LP_METADATA_VERSION_FOR_EXPANDED_HEADER
      then (b_header empty_builder)\<lparr>h_minor_version := LP_METADATA_VERSION_FOR_EXPANDED_HEADER,
             h_header_size := of_nat sizeof_header, h_flags := h_flags h\<rparr>
      else b_header empty_builder)"

lemma InitMetadata_header:
  "InitMetadata m =
     (case init_groups (m_groups m) (empty_builder\<lparr>b_geometry := m_geometry m,
          b_block_devices := m_block_devices m, b_header := import_header (m_header m)\<rparr>) of
        None \<Rightarrow> Inr None | Some b \<Rightarrow> init_partitions m (m_partitions m) b)"
proof -
  have lt: "\<not> LP_METADATA_VERSION_FOR_EXPANDED_HEADER \<le> h_minor_version (b_header empty_builder)"
    by (simp add: empty_builder_def lp_version_defs)
  have "(if LP_METADATA_VERSION_FOR_EXPANDED_HEADER \<le> h_minor_version (m_header m)
      then let b' = RequireExpandedMetadataHeader (empty_builder\<lparr>b_geometry := m_geometry m,
             b_block_devices := m_block_devices m\<rparr>)
           in b'\<lparr>b_header := (b_header b')\<lparr>h_flags := h_flags (m_header m)\<rparr>\<rparr>
      else empty_builder\<lparr>b_geometry := m_geometry m, b_block_devices := m_block_devices m\<rparr>) =
    empty_builder\<lparr>b_geometry := m_geometry m, b_block_devices := m_block_devices m,
      b_header := import_header (m_header m)\<rparr>"
    using lt by (simp add: import_header_def RequireExpandedMetadataHeader_def Let_def)
  then show ?thesis by (simp only: InitMetadata_def Let_def)
qed

lemma import_header_bump:
  assumes "plain_header h" "h_minor_version h' = h_minor_version (bump_minor c h)" "h_flags h' = h_flags h"
  shows "import_header h' = h"
  using assms(1) unfolding plain_header_def
proof
  assume h: "h = b_header empty_builder"
  then have "h_minor_version h' = (if c then 1 else 0)"
    using assms(2) by (simp add: bump_minor_def empty_builder_def lp_version_defs)
  then show ?thesis by (simp add: import_header_def lp_version_defs h word_le_nat_alt)
next
  assume h: "h = (b_header empty_builder)\<lparr>h_minor_version := LP_METADATA_VERSION_FOR_EXPANDED_HEADER,
            h_header_size := of_nat sizeof_header, h_flags := h_flags h\<rparr>"
  then have m: "h_minor_version h = 2" by (metis LP_METADATA_VERSION_FOR_EXPANDED_HEADER_def
      LpMetadataHeader.select_convs(3) LpMetadataHeader.update_convs(3) LpMetadataHeader.surjective
      LpMetadataHeader.update_convs(4) LpMetadataHeader.update_convs(12))
  then have "h_minor_version h' = 2"
    using assms(2) by (simp add: bump_minor_def lp_version_defs)
  then have "import_header h' = (b_header empty_builder)\<lparr>h_minor_version := LP_METADATA_VERSION_FOR_EXPANDED_HEADER,
            h_header_size := of_nat sizeof_header, h_flags := h_flags h\<rparr>"
    using assms(3) by (simp add: import_header_def lp_version_defs)
  with h show ?thesis by simp
qed

lemma Export_eq:
  assumes "exportable b"
  shows "\<exists>idx. Export b = Some (set_num_entries
      \<lparr>m_geometry = b_geometry b, m_header = bump_minor (list_ex needs_v1 (b_partitions b)) (b_header b),
       m_partitions = partition_entries idx 0 (b_partitions b), m_extents = all_extents (b_partitions b),
       m_groups = map group_entry (b_groups b), m_block_devices = b_block_devices b\<rparr>) \<and>
    (\<forall>j<length (b_groups b). idx (pg_name (b_groups b ! j)) = Some j)"
proof -
  have sfx: "b_auto_slot_suffixing b = False" using assms by (simp add: exportable_def)
  have g: "list_all (\<lambda>g. length (pg_name g) \<le> sizeof_name) (b_groups b)"
    "distinct (map pg_name (b_groups b))"
    using assms by (auto simp: exportable_def names_ok_def storable_name_def list_all_iff)
  from export_groups_eq[OF g, of Map.empty "[]"] obtain idx where i:
    "export_groups False (b_groups b) Map.empty [] = Some (idx, map group_entry (b_groups b))"
    "\<forall>j<length (b_groups b). idx (pg_name (b_groups b ! j)) = Some j" by auto
  let ?m = "\<lparr>m_geometry = b_geometry b, m_header = b_header b, m_partitions = [], m_extents = [],
    m_groups = map group_entry (b_groups b), m_block_devices = b_block_devices b\<rparr>"
  have "list_all (partition_storable (length (m_block_devices ?m)) idx) (b_partitions b)"
  proof (unfold list_all_iff, intro ballI)
    fix p assume p: "p \<in> set (b_partitions b)"
    with assms have "FindGroup b (pt_group_name p) \<noteq> None" by (simp add: exportable_def list_all_iff)
    then obtain k where "k < length (b_groups b)" "pg_name (b_groups b ! k) = pt_group_name p"
      using FindGroup_iff by (metis imageE in_set_conv_nth)
    with i(2) have "idx (pt_group_name p) = Some k" by metis
    with assms p show "partition_storable (length (m_block_devices ?m)) idx p"
      by (simp add: partition_storable_def exportable_def importable_def storable_name_def list_all_iff)
  qed
  from export_partitions_eq[OF this] have
    "export_partitions False idx (b_partitions b) ?m = Some
      \<lparr>m_geometry = b_geometry b, m_header = bump_minor (list_ex needs_v1 (b_partitions b)) (b_header b),
       m_partitions = partition_entries idx 0 (b_partitions b), m_extents = all_extents (b_partitions b),
       m_groups = map group_entry (b_groups b), m_block_devices = b_block_devices b\<rparr>"
    by simp
  moreover have "map (export_device False) ds = ds" for ds
    by (simp add: export_device_def map_idI)
  moreover have "ValidatePartitionGroups b" using assms by (simp add: exportable_def)
  ultimately show ?thesis using i sfx by (intro exI[of _ idx]) (simp add: Export_def)
qed

text \<open>
  Any metadata with the exported tables is imported alike, whatever its geometry, checksums and
  table positions.
\<close>

definition same_tables :: "LpMetadata \<Rightarrow> LpMetadata \<Rightarrow> bool" where
  "same_tables m m' \<longleftrightarrow> m_partitions m' = m_partitions m \<and> m_extents m' = m_extents m \<and>
     m_groups m' = m_groups m \<and> m_block_devices m' = m_block_devices m \<and>
     h_minor_version (m_header m') = h_minor_version (m_header m) \<and>
     h_flags (m_header m') = h_flags (m_header m)"

lemma InitMetadata_exported:
  assumes "exportable b" "Export b = Some m0" "same_tables m0 m"
  shows "InitMetadata m = Inr (Some (b\<lparr>b_geometry := m_geometry m\<rparr>))"
proof -
  from Export_eq[OF assms(1)] assms(2) obtain idx where
    me: "m0 = set_num_entries \<lparr>m_geometry = b_geometry b,
       m_header = bump_minor (list_ex needs_v1 (b_partitions b)) (b_header b),
       m_partitions = partition_entries idx 0 (b_partitions b), m_extents = all_extents (b_partitions b),
       m_groups = map group_entry (b_groups b), m_block_devices = b_block_devices b\<rparr>"
    and idx: "\<forall>j<length (b_groups b). idx (pg_name (b_groups b ! j)) = Some j" by auto
  have f: "m_partitions m = partition_entries idx 0 (b_partitions b)"
    "m_extents m = all_extents (b_partitions b)" "m_groups m = map group_entry (b_groups b)"
    "m_block_devices m = b_block_devices b"
    using assms(3) by (simp_all add: me set_num_entries_def same_tables_def)
  have ex: "plain_header (b_header b)" "names_ok b" "\<not> b_auto_slot_suffixing b"
    "list_all (\<lambda>g. storable_name (pg_name g)) (b_groups b)" "list_all importable (b_partitions b)"
    "length (b_groups b) < 4294967296" "length (all_extents (b_partitions b)) < 4294967296"
    "\<forall>p\<in>set (b_partitions b). FindGroup b (pt_group_name p) \<noteq> None"
    using assms(1) by (auto simp: exportable_def list_all_iff)
  have h: "import_header (m_header m) = b_header b"
    using ex(1) by (rule import_header_bump[where c = "list_ex needs_v1 (b_partitions b)"])
      (use assms(3) in \<open>simp_all add: me set_num_entries_def bump_minor_def same_tables_def\<close>)
  let ?b0 = "empty_builder\<lparr>b_geometry := m_geometry m, b_block_devices := b_block_devices b,
    b_header := b_header b\<rparr>"
  have e0: "b_groups ?b0 = []" "b_partitions ?b0 = []" "b_auto_slot_suffixing ?b0 = False"
    by (simp_all add: empty_builder_def)
  have "init_groups (map group_entry (b_groups b)) ?b0 = Some (?b0\<lparr>b_groups := b_groups b\<rparr>)"
    using init_groups_eq[OF ex(4), of ?b0] ex(2) e0 by (simp add: names_ok_def)
  moreover have "init_partitions m (partition_entries idx 0 (b_partitions b)) (?b0\<lparr>b_groups := b_groups b\<rparr>) =
      Inr (Some (?b0\<lparr>b_groups := b_groups b, b_partitions := b_partitions b\<rparr>))"
  proof -
    have "\<exists>k<length (b_groups b). idx (pt_group_name p) = Some k \<and>
        pg_name (b_groups b ! k) = pt_group_name p" if "p \<in> set (b_partitions b)" for p
      using ex(8) that FindGroup_iff idx by (metis imageE in_set_conv_nth)
    then show ?thesis
      using init_partitions_eq[of "b_partitions b" "?b0\<lparr>b_groups := b_groups b\<rparr>" 0 m "[]" idx]
        ex e0 f by (simp add: names_ok_def)
  qed
  moreover have "?b0\<lparr>b_groups := b_groups b, b_partitions := b_partitions b\<rparr> = b\<lparr>b_geometry := m_geometry m\<rparr>"
    using ex(3) e0(3) by simp
  ultimately show ?thesis unfolding InitMetadata_header f h by simp
qed

text \<open>
  C7: a builder that is exported and then read with \<open>New(const LpMetadata&)\<close> comes back unchanged:
  its partitions with all their extents, groups, devices, geometry and header flags.
\<close>

theorem Export_Init_roundtrip:
  assumes "exportable b"
  shows "\<exists>m. Export b = Some m \<and> InitMetadata m = Inr (Some b)"
proof -
  from Export_eq[OF assms] obtain m where m: "Export b = Some m" "m_geometry m = b_geometry b"
    by (auto simp: set_num_entries_def)
  from InitMetadata_exported[OF assms m(1), of m] m show ?thesis by (auto simp: same_tables_def)
qed

theorem Export_Init_roundtrip_witness:
  "\<exists>m. Export demo_builder = Some m \<and> InitMetadata m = Inr (Some demo_builder)"
proof -
  have "exportable demo_builder" by code_simp
  then show ?thesis by (rule Export_Init_roundtrip)
qed

end
