(* ===== verification/LpDevice.thy ===== *)
theory LpDevice imports LpFlash LpExport begin

text \<open>
  From the builder to the device and back: what \<open>Export\<close> produces is accepted by the writer and
  the reader, so a builder that is exported, flashed, read from any slot and imported comes back.
\<close>

section \<open>Exported metadata are well formed\<close>

text \<open>
  A builder whose exported tables fit the device: sizes without wrap-around, device names as
  arrays, no slot suffixes left to apply.
\<close>

definition tables_size :: "MetadataBuilder \<Rightarrow> nat" where
  "tables_size b = length (b_partitions b) * sizeof_partition +
     length (all_extents (b_partitions b)) * sizeof_extent +
     length (b_groups b) * sizeof_group + length (b_block_devices b) * sizeof_block_device"

definition writable :: "MetadataBuilder \<Rightarrow> bool" where
  "writable b \<longleftrightarrow> exportable b \<and> geometry_fields_ok (b_geometry b) \<and>
     total_metadata_size (unat (g_metadata_max_size (b_geometry b)))
       (unat (g_metadata_slot_count (b_geometry b))) < 4294967296 \<and>
     sizeof_header + tables_size b < unat (g_metadata_max_size (b_geometry b)) \<and>
     list_all (\<lambda>d. fixed_name (bd_partition_name d) \<and>
       and (bd_flags d) LP_BLOCK_DEVICE_SLOT_SUFFIXED = 0) (b_block_devices b) \<and>
     list_all (\<lambda>p. and (pt_attributes p) LP_PARTITION_ATTR_SLOT_SUFFIXED = 0) (b_partitions b) \<and>
     (case b_block_devices b of [] \<Rightarrow> False
      | d # _ \<Rightarrow> \<not> GetTotalMetadataSize (g_metadata_max_size (b_geometry b))
            (g_metadata_slot_count (b_geometry b)) > bd_first_logical_sector d * LP_SECTOR_SIZE)"

lemma partition_entries_length [simp]: "length (partition_entries idx f ps) = length ps"
  by (induction ps arbitrary: f) simp_all

lemma all_extents_simps [simp]:
  "all_extents [] = []" "all_extents (p # ps) = map extent_entry (pt_extents p) @ all_extents ps"
  by (simp_all add: all_extents_def)

text \<open>Every entry's range of extents lies inside the table.\<close>

lemma partition_entries_range:
  assumes "q \<in> set (partition_entries idx f ps)"
  shows "\<exists>p\<in>set ps. \<exists>f'. q = partition_entry idx f' p \<and>
    f' + length (pt_extents p) \<le> f + length (all_extents ps)"
  using assms
proof (induction ps arbitrary: f)
  case (Cons p ps)
  from Cons.prems consider "q = partition_entry idx f p"
    | "q \<in> set (partition_entries idx (f + length (pt_extents p)) ps)" by auto
  then show ?case
  proof cases
    case 1
    then show ?thesis by (intro bexI[of _ p] exI[of _ f]) simp_all
  next
    case 2
    from Cons.IH[OF 2] show ?thesis by (fastforce simp: add.assoc)
  qed
qed simp

lemma valid_partition_entry:
  assumes "f + length (pt_extents p) \<le> n" "n < 4294967296"
    and "unat (td_num_entries (h_extents h)) = n" "unat (td_num_entries (h_groups h)) = k"
    and "the (idx (pt_group_name p)) < k"
    and "and (pt_attributes p) (not LP_PARTITION_ATTRIBUTE_MASK) = 0"
    and "needs_v1 p \<longrightarrow> h_minor_version h \<ge> LP_METADATA_VERSION_FOR_UPDATED_ATTR"
  shows "valid_partition h (partition_entry idx f p)"
proof -
  have "k < 4294967296" using assms(4) unat_u32_lt by metis
  then have g: "unat (of_nat (the (idx (pt_group_name p))) :: u32) = the (idx (pt_group_name p))"
    using assms(5) by (intro unat_of_nat_small) simp
  have u: "unat (of_nat f :: u32) = f" "unat (of_nat (length (pt_extents p)) :: u32) = length (pt_extents p)"
    using assms(1,2) by (auto intro!: unat_of_nat_small)
  have sum: "unat (of_nat f + of_nat (length (pt_extents p)) :: u32) = f + length (pt_extents p)"
    unfolding of_nat_add[symmetric] using assms(1,2) by (intro unat_of_nat_small) simp
  have mask: "and a (not 3) = 0" if "and a (not 15) = 0" "and a 12 = 0" for a :: u32
  proof -
    have e: "(not 3 :: u32) = or (not 15) 12" by simp
    show ?thesis unfolding e using that by (simp only: bit.conj_disj_distrib) simp
  qed
  have "and (pt_attributes p) (not (if h_minor_version h \<ge> LP_METADATA_VERSION_FOR_UPDATED_ATTR
         then or LP_PARTITION_ATTRIBUTE_MASK_V0 LP_PARTITION_ATTRIBUTE_MASK_V1
         else LP_PARTITION_ATTRIBUTE_MASK_V0)) = 0"
    using assms(6,7) mask[of "pt_attributes p"]
    by (cases "needs_v1 p") (auto simp: needs_v1_def lp_attr_defs)
  with assms u sum g show ?thesis
    by (simp add: valid_partition_def partition_entry_def Let_def word_less_nat_alt word_le_nat_alt not_less not_le)
qed

lemma plain_header_cases:
  assumes "plain_header h"
  shows "h_minor_version h = 0 \<and> h_header_size h = 128 \<and> h_flags h = 0 \<or>
    h_minor_version h = 2 \<and> h_header_size h = 256"
    "h_magic h = LP_METADATA_HEADER_MAGIC" "h_major_version h = LP_METADATA_MAJOR_VERSION"
    "h_reserved h = replicate 124 0"
    "td_entry_size (h_partitions h) = of_nat sizeof_partition" "td_entry_size (h_extents h) = of_nat sizeof_extent"
    "td_entry_size (h_groups h) = of_nat sizeof_group" "td_entry_size (h_block_devices h) = of_nat sizeof_block_device"
proof -
  obtain f where "h = b_header empty_builder \<or>
     h = (b_header empty_builder)\<lparr>h_minor_version := LP_METADATA_VERSION_FOR_EXPANDED_HEADER,
            h_header_size := of_nat sizeof_header, h_flags := f\<rparr>"
    using assms unfolding plain_header_def by blast
  then show "h_minor_version h = 0 \<and> h_header_size h = 128 \<and> h_flags h = 0 \<or>
    h_minor_version h = 2 \<and> h_header_size h = 256"
    "h_magic h = LP_METADATA_HEADER_MAGIC" "h_major_version h = LP_METADATA_MAJOR_VERSION"
    "h_reserved h = replicate 124 0"
    "td_entry_size (h_partitions h) = of_nat sizeof_partition" "td_entry_size (h_extents h) = of_nat sizeof_extent"
    "td_entry_size (h_groups h) = of_nat sizeof_group" "td_entry_size (h_block_devices h) = of_nat sizeof_block_device"
    by (auto simp: empty_builder_def table_desc_def lp_version_defs sizeof_defs)
qed

lemma Export_metadata_ok:
  assumes w: "writable b" and e: "Export b = Some m"
  shows "metadata_ok m \<and> m_geometry m = b_geometry b \<and>
    length (table_bytes m) = tables_size b \<and> h_header_size (m_header m) \<le> 256"
proof -
  have ex: "exportable b" using w by (simp add: writable_def)
  let ?ps = "b_partitions b" and ?h0 = "b_header b"
  from Export_eq[OF ex] e obtain idx where
    m: "m = set_num_entries \<lparr>m_geometry = b_geometry b,
       m_header = bump_minor (list_ex needs_v1 ?ps) ?h0,
       m_partitions = partition_entries idx 0 ?ps, m_extents = all_extents ?ps,
       m_groups = map group_entry (b_groups b), m_block_devices = b_block_devices b\<rparr>"
    and idx: "\<forall>j<length (b_groups b). idx (pg_name (b_groups b ! j)) = Some j" by auto
  have t: "m_geometry m = b_geometry b" "m_partitions m = partition_entries idx 0 ?ps"
    "m_extents m = all_extents ?ps" "m_groups m = map group_entry (b_groups b)"
    "m_block_devices m = b_block_devices b"
    by (simp_all add: m set_num_entries_def)
  note ph = plain_header_cases[of ?h0]
  have plain: "plain_header ?h0" using ex by (simp add: exportable_def)
  have tiny: "tables_size b < 4294967296"
  proof -
    have "sizeof_header + tables_size b < unat (g_metadata_max_size (b_geometry b))"
      using w by (simp add: writable_def)
    with unat_u32_lt[of "g_metadata_max_size (b_geometry b)"] show ?thesis by linarith
  qed
  have cnt: "length ?ps < 4294967296" "length (all_extents ?ps) < 4294967296"
    "length (b_groups b) < 4294967296" "length (b_block_devices b) < 4294967296"
    using tiny by (auto simp: tables_size_def sizeof_defs)
  have num: "unat (td_num_entries (h_partitions (m_header m))) = length ?ps"
    "unat (td_num_entries (h_extents (m_header m))) = length (all_extents ?ps)"
    "unat (td_num_entries (h_groups (m_header m))) = length (b_groups b)"
    "unat (td_num_entries (h_block_devices (m_header m))) = length (b_block_devices b)"
    using cnt by (simp_all add: m set_num_entries_def unat_of_nat_small)
  have minor: "h_minor_version (m_header m) = h_minor_version (bump_minor (list_ex needs_v1 ?ps) ?h0)"
    by (simp add: m set_num_entries_def)
  have hok: "header_fields_ok (m_header m) \<and> h_header_size (m_header m) \<le> 256"
    using ph[OF plain] by (auto simp: header_fields_ok_def m set_num_entries_def bump_minor_def
        lp_version_defs sizeof_defs max_def word_le_nat_alt word_less_nat_alt)
  have v1: "h_minor_version (m_header m) \<ge> LP_METADATA_VERSION_FOR_UPDATED_ATTR"
    if "p \<in> set ?ps" "needs_v1 p" for p
    using that ph(1)[OF plain] minor by (auto simp: bump_minor_def list_ex_iff lp_version_defs max_def)
  have parts: "fixed_name (p_name q) \<and> valid_partition (m_header m) q" if "q \<in> set (m_partitions m)" for q
  proof -
    from partition_entries_range[of q idx 0 ?ps] that t(2) obtain p f where
      p: "p \<in> set ?ps" "q = partition_entry idx f p" "f + length (pt_extents p) \<le> length (all_extents ?ps)"
      by auto
    from ex p(1) have pp: "FindGroup b (pt_group_name p) \<noteq> None"
      "and (pt_attributes p) (not LP_PARTITION_ATTRIBUTE_MASK) = 0"
      by (auto simp: exportable_def list_all_iff)
    then obtain k where "k < length (b_groups b)" "pg_name (b_groups b ! k) = pt_group_name p"
      using FindGroup_iff by (metis imageE in_set_conv_nth)
    with idx have k: "the (idx (pt_group_name p)) < length (b_groups b)" by (metis option.sel)
    have "valid_partition (m_header m) (partition_entry idx f p)"
      by (rule valid_partition_entry[where n = "length (all_extents ?ps)" and k = "length (b_groups b)"])
        (use p(3) cnt(2) num k pp(2) v1[OF p(1)] in simp_all)
    then show ?thesis by (simp add: p(2) partition_entry_def)
  qed
  have ext: "valid_extent (m_header m) x" if "x \<in> set (m_extents m)" for x
  proof -
    from that t(3) obtain p y where py: "p \<in> set ?ps" "y \<in> set (pt_extents p)" "x = extent_entry y"
      by (auto simp: all_extents_def)
    with ex have "extent_storable (length (b_block_devices b)) y" by (auto simp: exportable_def list_all_iff)
    with py(3) num(4) show ?thesis
      by (cases y) (auto simp: valid_extent_def extent_storable_def word_le_nat_alt
          LP_TARGET_TYPE_LINEAR_def LP_TARGET_TYPE_ZERO_def)
  qed
  have dev: "list_all (\<lambda>d. fixed_name (bd_partition_name d)) (m_block_devices m)"
    using w t(5) by (auto simp: writable_def list_all_iff)
  have "length (table_bytes m) = tables_size b"
  proof -
    have "length (partition_bytes m) = length ?ps * sizeof_partition"
      using parts t(2) lp_partition.table_length[of "m_partitions m"] by (simp add: partition_bytes_def)
    moreover have "length (extent_bytes m) = length (all_extents ?ps) * sizeof_extent"
      using t(3) lp_extent.table_length[of "m_extents m"] by (simp add: extent_bytes_def)
    moreover have "length (group_bytes m) = length (b_groups b) * sizeof_group"
      using t(4) lp_group.table_length[of "m_groups m"] by (auto simp: group_bytes_def group_entry_def)
    moreover have "length (block_device_bytes m) = length (b_block_devices b) * sizeof_block_device"
      using t(5) dev lp_device.table_length[of "m_block_devices m"]
      by (auto simp: block_device_bytes_def list_all_iff)
    ultimately show ?thesis by (simp add: table_bytes_def tables_size_def)
  qed
  moreover have "metadata_ok m"
    using hok num t parts ext dev w calculation
    by (auto simp: metadata_ok_def list_all_iff writable_def group_entry_def split: list.splits)
  ultimately show ?thesis using t(1) hok by simp
qed

text \<open>The exported metadata passes the writer's validation.\<close>

definition device_fits :: "MetadataBuilder \<Rightarrow> bool" where
  "device_fits b \<longleftrightarrow> list_all valid_first_sector (b_block_devices b) \<and>
     list_all (list_all (\<lambda>e. is_linear e \<longrightarrow>
       \<not> (physical_sector e < bd_first_logical_sector (hd (b_block_devices b)) \<or>
          end_sector e > bd_size (hd (b_block_devices b)) div LP_SECTOR_SIZE)) \<circ> pt_extents) (b_partitions b)"

lemma Export_tables:
  assumes "exportable b" "Export b = Some m"
  shows "m_geometry m = b_geometry b" "m_extents m = all_extents (b_partitions b)"
    "m_groups m = map group_entry (b_groups b)" "m_block_devices m = b_block_devices b"
    "\<exists>idx. m_partitions m = partition_entries idx 0 (b_partitions b)"
  using Export_eq[OF assms(1)] assms(2) by (auto simp: set_num_entries_def)

lemma small_sum_exact:
  assumes "total_metadata_size (unat a) (unat n) < 4294967296"
  shows "of_nat LP_PARTITION_RESERVED_BYTES + (of_nat LP_METADATA_GEOMETRY_SIZE + ucast a * ucast n) * 2 =
    GetTotalMetadataSize a n"
  using reserved_exact[of "undefined\<lparr>g_metadata_max_size := a, g_metadata_slot_count := n\<rparr>"]
    GetTotalMetadataSize_exact[OF assms] assms
  by (simp add: word_unat_eq_iff)

lemma Export_validates:
  assumes sha: "\<And>x. length (sha x) = 32" and w: "writable b" "device_fits b" and e: "Export b = Some m"
  shows "\<exists>blob. ValidateAndSerializeMetadata sha m suffix = Inr (Some blob) \<and>
    length blob < unat (g_metadata_max_size (m_geometry m))"
proof -
  have ex: "exportable b" using w(1) by (simp add: writable_def)
  note t = Export_tables[OF ex e]
  note ok = Export_metadata_ok[OF w(1) e]
  from metadata_roundtrip_lemma[of sha m, OF sha conjunct1[OF ok]] obtain blob where
    blob: "SerializeMetadata sha m = Inr blob"
    "length blob = unat (h_header_size (m_header m)) + length (table_bytes m)" by blast
  have hs: "unat (h_header_size (m_header m)) \<le> 256" using ok by (simp add: word_le_nat_alt)
  have sz: "sizeof_header + tables_size b < unat (g_metadata_max_size (b_geometry b))"
    using w(1) by (simp add: writable_def)
  have len: "length blob < unat (g_metadata_max_size (m_geometry m))"
    using blob(2) hs sz ok t(1) by (simp add: sizeof_header_def)
  obtain d ds where d: "b_block_devices b = d # ds" and
    region: "\<not> GetTotalMetadataSize (g_metadata_max_size (b_geometry b))
            (g_metadata_slot_count (b_geometry b)) > bd_first_logical_sector d * LP_SECTOR_SIZE"
    using w(1) by (auto simp: writable_def split: list.splits)
  have small: "total_metadata_size (unat (g_metadata_max_size (b_geometry b)))
       (unat (g_metadata_slot_count (b_geometry b))) < 4294967296" using w(1) by (simp add: writable_def)
  have cnt: "length (all_extents (b_partitions b)) < 4294967296" using ex by (simp add: exportable_def)
  have ranges: "\<not> unat (p_first_extent_index p + p_num_extents p) > length (m_extents m)"
    if "p \<in> set (m_partitions m)" for p
  proof -
    from t(5) that obtain idx where "p \<in> set (partition_entries idx 0 (b_partitions b))" by auto
    from partition_entries_range[OF this] obtain q f where
      "p = partition_entry idx f q" "f + length (pt_extents q) \<le> length (all_extents (b_partitions b))" by auto
    with cnt t(2) show ?thesis
      by (simp add: partition_entry_def unat_of_nat_small not_less flip: of_nat_add)
  qed
  have ext: "e_target_type x = LP_TARGET_TYPE_LINEAR \<longrightarrow>
      \<not> (e_target_data x < bd_first_logical_sector d \<or> e_target_data x + e_num_sectors x > bd_size d div LP_SECTOR_SIZE)"
    if "x \<in> set (m_extents m)" for x
  proof -
    from that t(2) obtain p y where py: "p \<in> set (b_partitions b)" "y \<in> set (pt_extents p)" "x = extent_entry y"
      by (auto simp: all_extents_def)
    with w(2) d have "is_linear y \<longrightarrow> \<not> (physical_sector y < bd_first_logical_sector d \<or>
          end_sector y > bd_size d div LP_SECTOR_SIZE)"
      by (auto simp: device_fits_def list_all_iff)
    with py(3) show ?thesis by (cases y) (auto simp: end_sector_def LP_TARGET_TYPE_LINEAR_def LP_TARGET_TYPE_ZERO_def)
  qed
  have devs: "list_all (\<lambda>d. (and (bd_flags d) LP_BLOCK_DEVICE_SLOT_SUFFIXED \<noteq> 0 \<longrightarrow> suffix \<noteq> [])
      \<and> valid_first_sector d) (m_block_devices m)"
    using w t(4) by (auto simp: writable_def device_fits_def list_all_iff)
  have "ValidateAndSerializeMetadata sha m suffix = Inr (Some blob)"
    using blob(1) len d region small_sum_exact[OF small] ranges ext devs t(1,4)
    by (simp add: ValidateAndSerializeMetadata_def Let_def GetMetadataSuperBlockDevice_def list_all_iff)
  with len show ?thesis by blast
qed

section \<open>Reading a slot back\<close>

lemma map_or_fail_id:
  "(\<And>x. x \<in> set xs \<Longrightarrow> f x = Some x) \<Longrightarrow> map_or_fail f xs = Some xs"
  by (induction xs) simp_all

definition no_suffixes :: "LpMetadata \<Rightarrow> bool" where
  "no_suffixes m \<longleftrightarrow>
     list_all (\<lambda>p. and (p_attributes p) LP_PARTITION_ATTR_SLOT_SUFFIXED = 0) (m_partitions m) \<and>
     list_all (\<lambda>d. and (bd_flags d) LP_BLOCK_DEVICE_SLOT_SUFFIXED = 0) (m_block_devices m) \<and>
     list_all (\<lambda>g. and (gr_flags g) LP_GROUP_SLOT_SUFFIXED = 0) (m_groups m)"

lemma AdjustMetadataForSlot_id:
  assumes "no_suffixes m" "slot = 0 \<or> slot = 1"
  shows "AdjustMetadataForSlot m slot = Inr (Some m)"
proof -
  have "map_or_fail (adjust_partition s) (m_partitions m) = Some (m_partitions m)"
    "map_or_fail (adjust_block_device s) (m_block_devices m) = Some (m_block_devices m)"
    "map_or_fail (adjust_group s) (m_groups m) = Some (m_groups m)" for s
    using assms(1) by (auto simp: no_suffixes_def list_all_iff adjust_partition_def adjust_block_device_def
        adjust_group_def intro!: map_or_fail_id)
  then show ?thesis using assms(2) by (auto simp: AdjustMetadataForSlot_def SlotSuffixForSlotNumber_def)
qed

lemma bump_minor_flags [simp]: "h_flags (bump_minor c h) = h_flags h"
  by (simp add: bump_minor_def)

lemma Export_no_suffixes:
  assumes "writable b" "Export b = Some m"
  shows "no_suffixes m"
proof -
  have ex: "exportable b" using assms(1) by (simp add: writable_def)
  note t = Export_tables[OF ex assms(2)]
  have "and (p_attributes q) LP_PARTITION_ATTR_SLOT_SUFFIXED = 0" if q: "q \<in> set (m_partitions m)" for q
  proof -
    from t(5) q obtain idx where "q \<in> set (partition_entries idx 0 (b_partitions b))" by auto
    from partition_entries_range[OF this] assms(1) show ?thesis
      by (auto simp: writable_def list_all_iff partition_entry_def)
  qed
  then show ?thesis
    using assms(1) t by (auto simp: no_suffixes_def list_all_iff writable_def group_entry_def)
qed

lemma same_tables_as_written: "same_tables m (as_written sha m)"
  by (simp add: same_tables_def as_written_def)

lemma Export_flash_read:
  assumes sha: "\<And>x. length (sha x) = 32" and w: "writable b" "device_fits b"
    and dev: "total_metadata_size (unat (g_metadata_max_size (b_geometry b)))
      (unat (g_metadata_slot_count (b_geometry b))) \<le> length dev"
    and slot: "unat slot < unat (g_metadata_slot_count (b_geometry b))" "slot = 0 \<or> slot = 1"
  shows "\<exists>m dev' m'. Export b = Some m \<and>
    FlashPartitionTable sha (Some dev) super_name m = Inr (True, Some dev') \<and>
    ReadMetadata sha (Some dev') slot = Inr (Some m') \<and>
    InitMetadata m' = Inr (Some (b\<lparr>b_geometry := sealed_geometry sha (b_geometry b)\<rparr>))"
proof -
  have ex: "exportable b" and geo: "geometry_fields_ok (b_geometry b)" and
    small: "total_metadata_size (unat (g_metadata_max_size (b_geometry b)))
      (unat (g_metadata_slot_count (b_geometry b))) < 4294967296"
    using w(1) by (simp_all add: writable_def)
  from Export_eq[OF ex] obtain m where m: "Export b = Some m" by auto
  note g = Export_tables(1)[OF ex m]
  from Export_validates[of sha, OF sha w m] obtain blob where
    v: "ValidateAndSerializeMetadata sha m (GetPartitionSlotSuffix super_name) = Inr (Some blob)"
    "length blob < unat (g_metadata_max_size (b_geometry b))" using g by auto
  let ?d = "flashed sha m blob dev"
  have fl: "FlashPartitionTable sha (Some dev) super_name m = Inr (True, Some ?d)"
    by (rule FlashPartitionTable_flashed[OF sha v(1) g[symmetric] v(2) small dev])
  have rd: "ReadMetadata sha (Some ?d) slot = AdjustMetadataForSlot (as_written sha m) slot"
    by (rule flashed_reads(3)[OF sha _ _ v(1) g[symmetric] v(2) small dev slot(1)])
      (use geo g Export_metadata_ok[OF w(1) m] in simp_all)
  have "no_suffixes (as_written sha m)"
    using Export_no_suffixes[OF w(1) m] by (simp add: no_suffixes_def as_written_def)
  with rd slot(2) have "ReadMetadata sha (Some ?d) slot = Inr (Some (as_written sha m))"
    by (simp add: AdjustMetadataForSlot_id)
  moreover have "InitMetadata (as_written sha m) = Inr (Some (b\<lparr>b_geometry := sealed_geometry sha (b_geometry b)\<rparr>))"
    using InitMetadata_exported[OF ex m same_tables_as_written] g by (simp add: as_written_def)
  ultimately show ?thesis using m fl by blast
qed

end
