(* ===== verification/LpSnapshot.thy ===== *)
theory LpSnapshot imports LpUtility begin

text \<open>
  The two functions of \<open>fs_mgr/liblp/utility.cpp\<close> that rewrite a whole metadata:
  \<open>UpdateMetadataForInPlaceSnapshot\<close>, which retargets a Virtual A/B metadata to the other
  slot, and \<open>SetMetadataHeaderV0\<close>, which removes what a version 10.0 reader does not know.
\<close>

section \<open>UpdateMetadataForInPlaceSnapshot\<close>

text \<open>
  The loop over the groups. The code keeps pointers to the groups it retains; here they are
  the positions in the old table, paired with the possibly renamed group.
\<close>

fun snapshot_groups :: "string \<Rightarrow> string \<Rightarrow> nat \<Rightarrow> LpMetadataPartitionGroup list
    \<Rightarrow> (nat \<times> LpMetadataPartitionGroup) list option" where
  "snapshot_groups source target i [] = Some []"
| "snapshot_groups source target i (g # gs) =
     (let group_name = GetPartitionGroupName g;
          slot_suffix = GetPartitionSlotSuffix group_name
      in if slot_suffix = target then snapshot_groups source target (Suc i) gs
         else if slot_suffix = source
         then (case UpdatePartitionGroupName g (retarget_name group_name slot_suffix target) of
                 None \<Rightarrow> None
               | Some g' \<Rightarrow> map_option ((#) (i, g')) (snapshot_groups source target (Suc i) gs))
         else map_option ((#) (i, g)) (snapshot_groups source target (Suc i) gs))"

text \<open>
  The loop over the partitions. \<open>metadata->groups[partition.group_index]\<close> is an access to
  the group vector, and the new index is the position of that pointer among the kept ones.
\<close>

fun snapshot_partitions :: "string \<Rightarrow> string \<Rightarrow> nat \<Rightarrow> nat list \<Rightarrow> LpMetadataPartition list
    \<Rightarrow> LpMetadataPartition list option run" where
  "snapshot_partitions source target n_groups kept [] = Inr (Some [])"
| "snapshot_partitions source target n_groups kept (p # ps) =
     (let partition_name = GetPartitionName p;
          slot_suffix = GetPartitionSlotSuffix partition_name
      in if slot_suffix = target then snapshot_partitions source target n_groups kept ps
         else case (if slot_suffix = source
                    then UpdatePartitionName p (retarget_name partition_name slot_suffix target)
                    else Some p) of
           None \<Rightarrow> Inr None
         | Some p' \<Rightarrow>
             if \<not> unat (p_group_index p) < n_groups then Inl OutOfRange
             else case find_index (\<lambda>k. k = unat (p_group_index p)) kept of
               None \<Rightarrow> snapshot_partitions source target n_groups kept ps
             | Some j \<Rightarrow>
                 bind_run (snapshot_partitions source target n_groups kept ps) (\<lambda>r.
                   Inr (map_option ((#) (p'\<lparr>p_attributes := or (p_attributes p') LP_PARTITION_ATTR_UPDATED,
                                           p_group_index := of_nat j\<rparr>)) r)))"

text \<open>
  \<open>None\<close> is the return value \<open>false\<close>; the callers then drop the metadata, which the code
  leaves half renamed.
\<close>

definition UpdateMetadataForInPlaceSnapshot ::
  "LpMetadata \<Rightarrow> u32 \<Rightarrow> u32 \<Rightarrow> LpMetadata option run" where
  "UpdateMetadataForInPlaceSnapshot metadata source_slot_number target_slot_number =
     bind_run (SlotSuffixForSlotNumber source_slot_number) (\<lambda>source.
     bind_run (SlotSuffixForSlotNumber target_slot_number) (\<lambda>target.
       case snapshot_groups source target 0 (m_groups metadata) of
         None \<Rightarrow> Inr None
       | Some groups \<Rightarrow>
           bind_run (snapshot_partitions source target (length (m_groups metadata))
                       (map fst groups) (m_partitions metadata)) (\<lambda>ps.
             Inr (map_option (\<lambda>partitions.
               metadata\<lparr>m_partitions := partitions, m_groups := map snd groups\<rparr>) ps))))"

text \<open>The specification: what happens to a name, and which names are dropped.\<close>

definition retargeted :: "string \<Rightarrow> string \<Rightarrow> string \<Rightarrow> string" where
  "retargeted source target name =
     (if GetPartitionSlotSuffix name = source then retarget_name name source target else name)"

definition not_on_slot :: "string \<Rightarrow> string \<Rightarrow> bool" where
  "not_on_slot target name \<longleftrightarrow> GetPartitionSlotSuffix name \<noteq> target"

lemma retargeted_suffix:
  assumes "source = ''_a'' \<or> source = ''_b''" "target = ''_a'' \<or> target = ''_b''" "source \<noteq> target"
  shows "GetPartitionSlotSuffix (retargeted source target name) \<noteq> source"
  using assms retarget_name_props(2)[of name source target] by (auto simp: retargeted_def)

lemma storable_retarget:
  assumes "storable_name name" "GetPartitionSlotSuffix name = source"
    and "source = ''_a'' \<or> source = ''_b''" "target = ''_a'' \<or> target = ''_b''"
  shows "storable_name (retarget_name name source target)"
proof -
  have "source \<noteq> []" using assms(3) by auto
  from retarget_name_props(1,3)[OF assms(2) this assms(4)] assms(1) show ?thesis
    by (simp add: storable_name_def)
qed

lemma snapshot_groups_spec:
  assumes "source = ''_a'' \<or> source = ''_b''" "target = ''_a'' \<or> target = ''_b''"
    and "\<forall>g\<in>set gs. storable_name (GetPartitionGroupName g)"
  shows "\<exists>kept. snapshot_groups source target i gs = Some kept
    \<and> map fst kept = filter (\<lambda>k. not_on_slot target (GetPartitionGroupName (gs ! (k - i))))
                        [i..<i + length gs]
    \<and> (\<forall>(k, g')\<in>set kept. i \<le> k \<and> k < i + length gs \<and>
          GetPartitionGroupName g' = retargeted source target (GetPartitionGroupName (gs ! (k - i))))"
  using assms(3)
proof (induction gs arbitrary: i)
  case Nil
  then show ?case by simp
next
  case (Cons g gs)
  let ?name = "GetPartitionGroupName g"
  let ?new = "retarget_name ?name source target"
  from Cons.IH[of "Suc i"] Cons.prems obtain kept where
    k: "snapshot_groups source target (Suc i) gs = Some kept"
       "map fst kept = filter (\<lambda>k. not_on_slot target (GetPartitionGroupName (gs ! (k - Suc i))))
          [Suc i..<Suc i + length gs]"
       "\<forall>(k, g')\<in>set kept. Suc i \<le> k \<and> k < Suc i + length gs \<and>
          GetPartitionGroupName g' = retargeted source target (GetPartitionGroupName (gs ! (k - Suc i)))"
    by auto
  have upt: "[i..<Suc (i + length gs)] = i # [Suc i..<Suc i + length gs]"
    by (subst upt_rec) (simp del: upt_Suc)
  have tail: "filter (\<lambda>k. not_on_slot target (GetPartitionGroupName ((g # gs) ! (k - i))))
      [Suc i..<Suc i + length gs] = map fst kept"
    unfolding k(2) by (rule filter_cong) (auto simp: nth_Cons')
  have kept': "\<forall>(k, g')\<in>set kept. i \<le> k \<and> k < i + length (g # gs) \<and>
      GetPartitionGroupName g' = retargeted source target (GetPartitionGroupName ((g # gs) ! (k - i)))"
    using k(3) by (auto simp: nth_Cons' dest!: bspec)
  consider (drop) "GetPartitionSlotSuffix ?name = target"
    | (rename) "GetPartitionSlotSuffix ?name \<noteq> target" "GetPartitionSlotSuffix ?name = source"
    | (keep) "GetPartitionSlotSuffix ?name \<noteq> target" "GetPartitionSlotSuffix ?name \<noteq> source"
    by blast
  then show ?case
  proof cases
    case drop
    then show ?thesis
      using k(1) kept' tail by (simp add: upt not_on_slot_def del: upt_Suc)
  next
    case rename
    have st: "storable_name ?new"
      using Cons.prems rename(2) assms(1,2) by (intro storable_retarget) auto
    then have up: "UpdatePartitionGroupName g ?new = Some (g\<lparr>gr_name := strncpy sizeof_name ?new\<rparr>)"
      by (simp add: UpdatePartitionGroupName_def storable_name_def)
    have nm: "GetPartitionGroupName (g\<lparr>gr_name := strncpy sizeof_name ?new\<rparr>) = ?new"
      using st by (simp add: GetPartitionGroupName_def)
    show ?thesis
      using k(1) kept' tail rename up nm
      by (simp add: upt not_on_slot_def Let_def retargeted_def del: upt_Suc)
  next
    case keep
    then show ?thesis
      using k(1) kept' tail by (simp add: upt not_on_slot_def Let_def retargeted_def del: upt_Suc)
  qed
qed

lemma snapshot_partitions_spec:
  assumes "source = ''_a'' \<or> source = ''_b''" "target = ''_a'' \<or> target = ''_b''"
    and "\<forall>p\<in>set ps. storable_name (GetPartitionName p) \<and> unat (p_group_index p) < n"
    and "length kept < 4294967296"
  shows "\<exists>out. snapshot_partitions source target n kept ps = Inr (Some out)
    \<and> map (\<lambda>q. (GetPartitionName q, kept ! unat (p_group_index q))) out
      = map (\<lambda>p. (retargeted source target (GetPartitionName p), unat (p_group_index p)))
          (filter (\<lambda>p. not_on_slot target (GetPartitionName p) \<and> unat (p_group_index p) \<in> set kept) ps)
    \<and> (\<forall>q\<in>set out. unat (p_group_index q) < length kept
          \<and> and (p_attributes q) LP_PARTITION_ATTR_UPDATED = LP_PARTITION_ATTR_UPDATED)"
  using assms(3)
proof (induction ps)
  case Nil
  then show ?case by simp
next
  case (Cons p ps)
  let ?name = "GetPartitionName p"
  let ?new = "retarget_name ?name source target"
  let ?upd = "if GetPartitionSlotSuffix ?name = source then UpdatePartitionName p
      (retarget_name ?name (GetPartitionSlotSuffix ?name) target) else Some p"
  from Cons obtain out where IH:
    "snapshot_partitions source target n kept ps = Inr (Some out)"
    "map (\<lambda>q. (GetPartitionName q, kept ! unat (p_group_index q))) out
      = map (\<lambda>p. (retargeted source target (GetPartitionName p), unat (p_group_index p)))
          (filter (\<lambda>p. not_on_slot target (GetPartitionName p) \<and> unat (p_group_index p) \<in> set kept) ps)"
    "\<forall>q\<in>set out. unat (p_group_index q) < length kept
          \<and> and (p_attributes q) LP_PARTITION_ATTR_UPDATED = LP_PARTITION_ATTR_UPDATED"
    by auto
  have name_upd: "GetPartitionName (q\<lparr>p_attributes := a, p_group_index := g\<rparr>) = GetPartitionName q"
    for q :: LpMetadataPartition and a g by (simp add: GetPartitionName_def)
  have upd: "\<exists>p'. ?upd = Some p' \<and> GetPartitionName p' = retargeted source target ?name"
  proof (cases "GetPartitionSlotSuffix ?name = source")
    case True
    have st: "storable_name ?new"
      using Cons.prems True assms(1,2) by (intro storable_retarget) auto
    then have "UpdatePartitionName p ?new = Some (p\<lparr>p_name := strncpy sizeof_name ?new\<rparr>)"
      by (simp add: UpdatePartitionName_def storable_name_def)
    moreover have "GetPartitionName (p\<lparr>p_name := strncpy sizeof_name ?new\<rparr>) = ?new"
      using st by (simp add: GetPartitionName_def)
    ultimately show ?thesis using True by (simp add: retargeted_def)
  next
    case False
    then show ?thesis by (simp add: retargeted_def)
  qed
  then obtain p' where p': "?upd = Some p'" "GetPartitionName p' = retargeted source target ?name"
    by blast
  show ?case
  proof (cases "GetPartitionSlotSuffix ?name = target")
    case True
    then show ?thesis using IH by (simp add: not_on_slot_def)
  next
    case False
    have step: "snapshot_partitions source target n kept (p # ps) =
        (if \<not> unat (p_group_index p) < n then Inl OutOfRange
         else case find_index (\<lambda>k. k = unat (p_group_index p)) kept of
           None \<Rightarrow> snapshot_partitions source target n kept ps
         | Some j \<Rightarrow>
             bind_run (snapshot_partitions source target n kept ps) (\<lambda>r.
               Inr (map_option ((#) (p'\<lparr>p_attributes := or (p_attributes p') LP_PARTITION_ATTR_UPDATED,
                                       p_group_index := of_nat j\<rparr>)) r)))"
      by (simp only: snapshot_partitions.simps Let_def False if_False p'(1) option.case)
    show ?thesis
    proof (cases "find_index (\<lambda>k. k = unat (p_group_index p)) kept")
      case None
      then have "unat (p_group_index p) \<notin> set kept" by (auto simp: find_index_None_iff)
      then show ?thesis
        using IH None False Cons.prems by (simp add: step not_on_slot_def del: snapshot_partitions.simps)
    next
      case (Some j)
      from find_index_SomeD[OF Some] have j: "j < length kept" "kept ! j = unat (p_group_index p)"
        by auto
      then have in_kept: "unat (p_group_index p) \<in> set kept" by (metis nth_mem)
      have uj: "unat (of_nat j :: u32) = j"
        using j(1) assms(4) by (intro unat_of_nat_small) simp
      have att: "and (or a b) b = b" for a b :: u32
        by (simp add: and.commute bit_eq_iff bit_and_iff bit_or_iff)
      show ?thesis
        using IH Some False p'(2) Cons.prems j in_kept
        by (simp add: step not_on_slot_def uj att name_upd del: snapshot_partitions.simps)
    qed
  qed
qed

text \<open>What the update does to the pairs of a partition's name and its group's name.\<close>

definition name_and_group :: "LpMetadata \<Rightarrow> LpMetadataPartition \<Rightarrow> string \<times> string" where
  "name_and_group m p =
     (GetPartitionName p, GetPartitionGroupName (m_groups m ! unat (p_group_index p)))"

definition snapshot_ready :: "LpMetadata \<Rightarrow> bool" where
  "snapshot_ready m \<longleftrightarrow>
     list_all (\<lambda>g. storable_name (GetPartitionGroupName g)) (m_groups m) \<and>
     list_all (\<lambda>p. storable_name (GetPartitionName p) \<and>
                   unat (p_group_index p) < length (m_groups m)) (m_partitions m) \<and>
     length (m_groups m) < 4294967296"

lemma in_place_snapshot_groups:
  assumes "SlotSuffixForSlotNumber s = Inr a" "SlotSuffixForSlotNumber t = Inr b"
    and "snapshot_ready m"
  obtains kept where "snapshot_groups a b 0 (m_groups m) = Some kept"
    "map fst kept = filter (\<lambda>k. not_on_slot b (GetPartitionGroupName (m_groups m ! k)))
       [0..<length (m_groups m)]"
    "\<And>j. j < length kept \<Longrightarrow> GetPartitionGroupName (snd (kept ! j)) =
        retargeted a b (GetPartitionGroupName (m_groups m ! (map fst kept ! j)))"
proof -
  have sl: "a = ''_a'' \<or> a = ''_b''" "b = ''_a'' \<or> b = ''_b''"
    using SlotSuffixForSlotNumber_cases[OF assms(1)] SlotSuffixForSlotNumber_cases[OF assms(2)]
    by auto
  have "\<forall>g\<in>set (m_groups m). storable_name (GetPartitionGroupName g)"
    using assms(3) by (auto simp: snapshot_ready_def list_all_iff)
  from snapshot_groups_spec[OF sl this, of 0] obtain kept where k:
    "snapshot_groups a b 0 (m_groups m) = Some kept"
    "map fst kept = filter (\<lambda>k. not_on_slot b (GetPartitionGroupName (m_groups m ! k)))
       [0..<length (m_groups m)]"
    "\<forall>(k, g')\<in>set kept. GetPartitionGroupName g' =
        retargeted a b (GetPartitionGroupName (m_groups m ! k))"
    by auto
  have "GetPartitionGroupName (snd (kept ! j)) =
      retargeted a b (GetPartitionGroupName (m_groups m ! (map fst kept ! j)))"
    if "j < length kept" for j
    using k(3) nth_mem[OF that] that by (auto simp: split_beta)
  with k(1,2) that show thesis by blast
qed

lemma in_place_snapshot_result:
  assumes slots: "SlotSuffixForSlotNumber s = Inr a" "SlotSuffixForSlotNumber t = Inr b"
    and ready: "snapshot_ready m"
  obtains m' where "UpdateMetadataForInPlaceSnapshot m s t = Inr (Some m')"
    "map GetPartitionGroupName (m_groups m') =
       map (retargeted a b) (filter (not_on_slot b) (map GetPartitionGroupName (m_groups m)))"
    "map (name_and_group m') (m_partitions m') =
       map (map_prod (retargeted a b) (retargeted a b))
         (filter (\<lambda>(n, g). not_on_slot b n \<and> not_on_slot b g)
           (map (name_and_group m) (m_partitions m)))"
    "\<forall>q\<in>set (m_partitions m'). unat (p_group_index q) < length (m_groups m')
       \<and> and (p_attributes q) LP_PARTITION_ATTR_UPDATED = LP_PARTITION_ATTR_UPDATED"
proof -
  from in_place_snapshot_groups[OF slots ready] obtain kept where k:
    "snapshot_groups a b 0 (m_groups m) = Some kept"
    "map fst kept = filter (\<lambda>k. not_on_slot b (GetPartitionGroupName (m_groups m ! k)))
       [0..<length (m_groups m)]"
    "\<And>j. j < length kept \<Longrightarrow> GetPartitionGroupName (snd (kept ! j)) =
        retargeted a b (GetPartitionGroupName (m_groups m ! (map fst kept ! j)))"
    by blast
  let ?ks = "map fst kept"
  have sl: "a = ''_a'' \<or> a = ''_b''" "b = ''_a'' \<or> b = ''_b''"
    using SlotSuffixForSlotNumber_cases[OF slots(1)] SlotSuffixForSlotNumber_cases[OF slots(2)]
    by auto
  have ps: "\<forall>p\<in>set (m_partitions m). storable_name (GetPartitionName p)
      \<and> unat (p_group_index p) < length (m_groups m)"
    and n: "length (m_groups m) < 4294967296"
    using ready by (auto simp: snapshot_ready_def list_all_iff)
  have "length ?ks \<le> length (m_groups m)"
    unfolding k(2) using length_filter_le[of _ "[0..<length (m_groups m)]"] by simp
  with n have len: "length ?ks < 4294967296" by simp
  from snapshot_partitions_spec[OF sl ps len] obtain out where o:
    "snapshot_partitions a b (length (m_groups m)) ?ks (m_partitions m) = Inr (Some out)"
    "map (\<lambda>q. (GetPartitionName q, ?ks ! unat (p_group_index q))) out
      = map (\<lambda>p. (retargeted a b (GetPartitionName p), unat (p_group_index p)))
          (filter (\<lambda>p. not_on_slot b (GetPartitionName p) \<and> unat (p_group_index p) \<in> set ?ks)
            (m_partitions m))"
    "\<forall>q\<in>set out. unat (p_group_index q) < length ?ks
          \<and> and (p_attributes q) LP_PARTITION_ATTR_UPDATED = LP_PARTITION_ATTR_UPDATED"
    by blast
  let ?m' = "m\<lparr>m_partitions := out, m_groups := map snd kept\<rparr>"
  have res: "UpdateMetadataForInPlaceSnapshot m s t = Inr (Some ?m')"
    using slots k(1) o(1) by (simp add: UpdateMetadataForInPlaceSnapshot_def)
  have kname: "GetPartitionGroupName (snd x) = retargeted a b (GetPartitionGroupName (m_groups m ! fst x))"
    if "x \<in> set kept" for x
    using that k(3) by (auto simp: in_set_conv_nth)
  have gnames: "map GetPartitionGroupName (map snd kept) =
      map (retargeted a b) (filter (not_on_slot b) (map GetPartitionGroupName (m_groups m)))"
  proof -
    have "map GetPartitionGroupName (map snd kept) =
        map (\<lambda>i. retargeted a b (GetPartitionGroupName (m_groups m ! i))) ?ks"
      using kname by simp
    also have "\<dots> = map (retargeted a b) (filter (not_on_slot b)
        (map (\<lambda>i. GetPartitionGroupName (m_groups m ! i)) [0..<length (m_groups m)]))"
      unfolding k(2) by (simp add: filter_map comp_def)
    also have "map (\<lambda>i. GetPartitionGroupName (m_groups m ! i)) [0..<length (m_groups m)] =
        map GetPartitionGroupName (m_groups m)"
      by (rule nth_equalityI) auto
    finally show ?thesis .
  qed
  have in_ks: "i \<in> set ?ks \<longleftrightarrow> i < length (m_groups m) \<and> not_on_slot b (GetPartitionGroupName (m_groups m ! i))"
    for i unfolding k(2) by auto
  have "map (name_and_group ?m') out = map (\<lambda>q. (GetPartitionName q,
      retargeted a b (GetPartitionGroupName (m_groups m ! (?ks ! unat (p_group_index q)))))) out"
    using o(3) k(3) by (simp add: name_and_group_def)
  also have "\<dots> = map (\<lambda>(n, i). (n, retargeted a b (GetPartitionGroupName (m_groups m ! i))))
      (map (\<lambda>q. (GetPartitionName q, ?ks ! unat (p_group_index q))) out)"
    by simp
  also have "\<dots> = map (\<lambda>p. (retargeted a b (GetPartitionName p),
        retargeted a b (GetPartitionGroupName (m_groups m ! unat (p_group_index p)))))
      (filter (\<lambda>p. not_on_slot b (GetPartitionName p) \<and> unat (p_group_index p) \<in> set ?ks)
        (m_partitions m))"
    unfolding o(2) by simp
  also have "\<dots> = map (\<lambda>p. map_prod (retargeted a b) (retargeted a b) (name_and_group m p))
      (filter (\<lambda>p. case name_and_group m p of (n, g) \<Rightarrow> not_on_slot b n \<and> not_on_slot b g)
        (m_partitions m))"
    using ps in_ks by (intro map_cong filter_cong) (auto simp: name_and_group_def)
  finally have pairs: "map (name_and_group ?m') out =
      map (map_prod (retargeted a b) (retargeted a b))
        (filter (\<lambda>(n, g). not_on_slot b n \<and> not_on_slot b g)
          (map (name_and_group m) (m_partitions m)))"
    by (simp add: filter_map comp_def split_beta)
  show thesis
    by (rule that[OF res]) (use gnames pairs o(3) in auto)
qed

section \<open>SetMetadataHeaderV0\<close>

definition SetMetadataHeaderV0 :: "LpMetadata \<Rightarrow> LpMetadata" where
  "SetMetadataHeaderV0 metadata =
     (if h_minor_version (m_header metadata) \<le> LP_METADATA_MINOR_VERSION_MIN then metadata
      else metadata\<lparr>
        m_header := (m_header metadata)\<lparr>
          h_minor_version := LP_METADATA_MINOR_VERSION_MIN,
          h_header_size := of_nat sizeof_header_v1_0,
          h_flags := 0,
          h_reserved := replicate 124 0\<rparr>,
        m_partitions := map (\<lambda>p. p\<lparr>p_attributes :=
            and (p_attributes p) LP_PARTITION_ATTRIBUTE_MASK_V0\<rparr>) (m_partitions metadata)\<rparr>)"

lemma SetMetadataHeaderV0_idem:
  "SetMetadataHeaderV0 (SetMetadataHeaderV0 m) = SetMetadataHeaderV0 m"
  by (simp add: SetMetadataHeaderV0_def)

lemma SetMetadataHeaderV0_minor: "h_minor_version (m_header (SetMetadataHeaderV0 m)) = 0"
  by (auto simp: SetMetadataHeaderV0_def LP_METADATA_MINOR_VERSION_MIN_def)

section \<open>The contract of the retargeting\<close>

text \<open>
  C8: \<open>UpdateMetadataForInPlaceSnapshot\<close> on a metadata with storable names succeeds; the groups
  and the partitions of the target slot are dropped, together with partitions whose group is
  dropped, those of the source slot are renamed to the target slot, order is kept, every kept
  partition still points at its own group, and carries the UPDATED attribute.
\<close>

theorem in_place_snapshot_contract:
  assumes "SlotSuffixForSlotNumber s = Inr a" "SlotSuffixForSlotNumber t = Inr b" "snapshot_ready m"
  shows "\<exists>m'. UpdateMetadataForInPlaceSnapshot m s t = Inr (Some m') \<and>
    map GetPartitionGroupName (m_groups m') =
       map (retargeted a b) (filter (not_on_slot b) (map GetPartitionGroupName (m_groups m))) \<and>
    map (name_and_group m') (m_partitions m') =
       map (map_prod (retargeted a b) (retargeted a b))
         (filter (\<lambda>(n, g). not_on_slot b n \<and> not_on_slot b g)
           (map (name_and_group m) (m_partitions m))) \<and>
    (\<forall>q\<in>set (m_partitions m'). unat (p_group_index q) < length (m_groups m')
       \<and> and (p_attributes q) LP_PARTITION_ATTR_UPDATED = LP_PARTITION_ATTR_UPDATED)"
  using in_place_snapshot_result[OF assms] by metis

definition demo_slot_metadata :: LpMetadata where
  "demo_slot_metadata =
     (let grp = (\<lambda>n. \<lparr>gr_name = strncpy sizeof_name n, gr_flags = 0, gr_maximum_size = 0\<rparr>);
          part = (\<lambda>n g. \<lparr>p_name = strncpy sizeof_name n, p_attributes = 1, p_first_extent_index = 0,
                         p_num_extents = 0, p_group_index = g\<rparr>);
          td = \<lparr>td_offset = 0, td_num_entries = 0, td_entry_size = 0\<rparr>
      in \<lparr>m_geometry = \<lparr>g_magic = 0, g_struct_size = 0, g_checksum = [], g_metadata_max_size = 0,
            g_metadata_slot_count = 0, g_logical_block_size = 0\<rparr>,
          m_header = \<lparr>h_magic = 0, h_major_version = 0, h_minor_version = 0, h_header_size = 0,
            h_header_checksum = [], h_tables_size = 0, h_tables_checksum = [], h_partitions = td,
            h_extents = td, h_groups = td, h_block_devices = td, h_flags = 0, h_reserved = []\<rparr>,
          m_partitions = [part ''system_a'' 1, part ''system_b'' 2, part ''misc'' 0],
          m_extents = [], m_groups = [grp ''default'', grp ''grp_a'', grp ''grp_b''],
          m_block_devices = []\<rparr>)"

theorem in_place_snapshot_contract_witness:
  "\<exists>m'. UpdateMetadataForInPlaceSnapshot demo_slot_metadata 0 1 = Inr (Some m') \<and>
     map (name_and_group m') (m_partitions m') = [(''system_b'', ''grp_b''), (''misc'', ''default'')]"
proof -
  have s: "SlotSuffixForSlotNumber 0 = Inr ''_a''" "SlotSuffixForSlotNumber 1 = Inr ''_b''"
    by (simp_all add: SlotSuffixForSlotNumber_def)
  have r: "snapshot_ready demo_slot_metadata" by code_simp
  have e: "map (map_prod (retargeted ''_a'' ''_b'') (retargeted ''_a'' ''_b''))
         (filter (\<lambda>(n, g). not_on_slot ''_b'' n \<and> not_on_slot ''_b'' g)
           (map (name_and_group demo_slot_metadata) (m_partitions demo_slot_metadata))) =
      [(''system_b'', ''grp_b''), (''misc'', ''default'')]" by code_simp
  from in_place_snapshot_contract[OF s r] e show ?thesis by metis
qed

end
