(* ===== verification/LpStorage.thy ===== *)
theory LpStorage imports LpDevice LpSnapshot begin

text \<open>
  Properties of the storage path, each with an instance on the small super partition: round trips
  of geometry and metadata, the frame and the success of an update, crash safety, memory safety.
\<close>

section \<open>The small device\<close>

definition demo_sha :: "u8 list \<Rightarrow> u8 list" where
  "demo_sha bytes = replicate 32 0"

definition demo_metadata :: LpMetadata where
  "demo_metadata = (case Export demo_builder of Some m \<Rightarrow> m | None \<Rightarrow> demo_slot_metadata)"

definition demo_blob :: "u8 list" where
  "demo_blob = (case SerializeMetadata demo_sha demo_metadata of Inr b \<Rightarrow> b | Inl _ \<Rightarrow> [])"

definition demo_device :: "u8 list" where
  "demo_device = flashed demo_sha demo_metadata demo_blob (replicate 28672 0)"

lemma demo_sha_length: "length (demo_sha x) = 32" by (simp add: demo_sha_def)

lemma demo_exportable: "exportable demo_builder" by code_simp

lemma demo_Export: "Export demo_builder = Some demo_metadata"
  using Export_eq[OF demo_exportable] by (auto simp: demo_metadata_def)

lemma demo_writable: "writable demo_builder" by code_simp

lemma demo_fits: "device_fits demo_builder" by code_simp

lemma demo_geometry: "m_geometry demo_metadata = b_geometry demo_builder"
  by (rule Export_tables(1)[OF demo_exportable demo_Export])

lemma demo_geometry_fields:
  "g_metadata_max_size (b_geometry demo_builder) = 4096" "g_metadata_slot_count (b_geometry demo_builder) = 2"
  "geometry_fields_ok (b_geometry demo_builder)"
  "sealed_geometry demo_sha (b_geometry demo_builder) = b_geometry demo_builder"
  by (simp_all add: demo_builder_def empty_builder_def geometry_fields_ok_def sealed_geometry_def demo_sha_def)

lemma demo_metadata_ok: "metadata_ok demo_metadata"
  using Export_metadata_ok[OF demo_writable demo_Export] by simp

lemma demo_validates:
  "ValidateAndSerializeMetadata demo_sha demo_metadata suffix = Inr (Some demo_blob)"
  "length demo_blob < 4096"
proof -
  from Export_validates[where sha = demo_sha and suffix = suffix, OF demo_sha_length demo_writable demo_fits demo_Export] obtain blob where
    v: "ValidateAndSerializeMetadata demo_sha demo_metadata suffix = Inr (Some blob)" "length blob < 4096"
    by (auto simp: demo_geometry demo_geometry_fields)
  from ValidateAndSerializeMetadata_Some(1)[OF v(1)] have "blob = demo_blob" by (simp add: demo_blob_def)
  with v show "ValidateAndSerializeMetadata demo_sha demo_metadata suffix = Inr (Some demo_blob)"
    "length demo_blob < 4096" by simp_all
qed

lemma demo_exact: "exact_offsets (m_geometry demo_metadata) 0"
  by (simp add: exact_offsets_def demo_geometry demo_geometry_fields total_metadata_size_def)

lemma demo_header_fields: "header_fields_ok (m_header demo_metadata)"
  using demo_metadata_ok by (simp add: metadata_ok_def)

lemma demo_written: "as_written demo_sha demo_metadata = demo_metadata\<lparr>m_header := sealed_header demo_sha demo_metadata\<rparr>"
  using demo_geometry demo_geometry_fields(4) by (simp add: as_written_def)

lemma demo_copies:
  "ReadLogicalPartitionGeometry demo_sha demo_device = Inr (Some (b_geometry demo_builder))"
  "ReadPrimaryMetadata demo_sha demo_device (m_geometry demo_metadata) 0 = Inr (Some (as_written demo_sha demo_metadata))"
  "ReadBackupMetadata demo_sha demo_device (m_geometry demo_metadata) 0 = Inr (Some (as_written demo_sha demo_metadata))"
proof -
  have small: "total_metadata_size (unat (g_metadata_max_size (b_geometry demo_builder)))
      (unat (g_metadata_slot_count (b_geometry demo_builder))) < 4294967296"
    and dev: "total_metadata_size (unat (g_metadata_max_size (b_geometry demo_builder)))
      (unat (g_metadata_slot_count (b_geometry demo_builder))) \<le> length (replicate 28672 (0 :: u8))"
    by (simp_all add: demo_geometry_fields total_metadata_size_def)
  have g: "geometry_fields_ok (m_geometry demo_metadata)" by (simp add: demo_geometry demo_geometry_fields)
  have lt: "length demo_blob < unat (g_metadata_max_size (b_geometry demo_builder))"
    using demo_validates(2) by (simp add: demo_geometry_fields)
  have slot: "unat (0 :: u32) < unat (g_metadata_slot_count (b_geometry demo_builder))"
    by (simp add: demo_geometry_fields)
  note r = flashed_reads[where sha = demo_sha and super = "[]", OF demo_sha_length demo_metadata_ok g demo_validates(1) demo_geometry[symmetric] lt small dev slot,
      folded demo_device_def, unfolded demo_geometry_fields(4)]
  show "ReadLogicalPartitionGeometry demo_sha demo_device = Inr (Some (b_geometry demo_builder))" by (rule r(1))
  show "ReadPrimaryMetadata demo_sha demo_device (m_geometry demo_metadata) 0 = Inr (Some (as_written demo_sha demo_metadata))"
    "ReadBackupMetadata demo_sha demo_device (m_geometry demo_metadata) 0 = Inr (Some (as_written demo_sha demo_metadata))"
    unfolding read_copies[OF demo_exact] unfolding demo_geometry by (rule r(2))+
qed

section \<open>Round trips\<close>

text \<open>
  C14: the geometry block that \<open>SerializeGeometry\<close> writes is accepted by \<open>ParseGeometry\<close>, which
  returns the same geometry with the checksum filled in, for any hash with 32 bytes of output.
\<close>

theorem geometry_roundtrip:
  assumes "\<forall>x. length (sha x) = 32" "geometry_fields_ok g"
  shows "ParseGeometry sha (SerializeGeometry sha g) = Inr (Some (sealed_geometry sha g))"
  using assms by (intro geometry_roundtrip_lemma) simp_all

theorem geometry_roundtrip_witness:
  "ParseGeometry demo_sha (SerializeGeometry demo_sha (b_geometry demo_builder)) =
     Inr (Some (b_geometry demo_builder))"
  using geometry_roundtrip[of demo_sha "b_geometry demo_builder"] demo_sha_length demo_geometry_fields(3,4)
  by simp

text \<open>
  C9: what \<open>SerializeMetadata\<close> writes, \<open>ParseMetadata\<close> reads back in full (partitions, extents,
  groups, block devices, header) whatever bytes follow, with the header's table positions and
  checksums filled in; the blob has the header size and the size of the tables.
\<close>

theorem metadata_roundtrip:
  assumes "\<forall>x. length (sha x) = 32" "metadata_ok m"
  shows "\<exists>blob. SerializeMetadata sha m = Inr blob \<and>
    length blob = unat (h_header_size (m_header m)) + length (table_bytes m) \<and>
    (\<forall>rest. ParseMetadata sha (m_geometry m) (blob @ rest) =
       Inr (Some (m\<lparr>m_header := sealed_header sha m\<rparr>)))"
  using assms by (intro metadata_roundtrip_lemma) simp_all

theorem metadata_roundtrip_witness:
  "\<exists>blob. SerializeMetadata demo_sha demo_metadata = Inr blob \<and>
    ParseMetadata demo_sha (m_geometry demo_metadata) (blob @ [1, 2, 3]) =
      Inr (Some (demo_metadata\<lparr>m_header := sealed_header demo_sha demo_metadata\<rparr>))"
  using metadata_roundtrip[of demo_sha demo_metadata] demo_sha_length demo_metadata_ok by auto

section \<open>Parsing\<close>

text \<open>
  C10: whatever the bytes, parsing a metadata reads outside the table buffer only if the header's
  block device table declares an entry size below \<open>sizeof(LpMetadataBlockDevice)\<close>, the one entry
  size that \<open>ReadMetadataHeader\<close> does not check; no other fault can occur.
\<close>

theorem ParseMetadata_in_bounds:
  assumes "ParseMetadata sha geometry reader = Inl f"
  shows "f = OutOfRange \<and> (\<exists>header reader1. ReadMetadataHeader sha reader = Some (header, reader1) \<and>
    td_entry_size (h_block_devices header) < of_nat sizeof_block_device)"
  using assms by (rule ParseMetadata_fault)

text \<open>A header whose block device table has two entries of one byte in tables of 64 bytes.\<close>

definition demo_bad_header :: LpMetadataHeader where
  "demo_bad_header = (b_header empty_builder)\<lparr>h_tables_size := 64, h_tables_checksum := replicate 32 0,
     h_block_devices := table_desc 0 2 1\<rparr>"

definition demo_bad_image :: "u8 list" where
  "demo_bad_image = take 128 (enc_header demo_bad_header) @ replicate 64 0"

lemma demo_bad_parse:
  "ParseMetadata demo_sha (b_geometry demo_builder) demo_bad_image = Inl OutOfRange"
  by code_simp

theorem ParseMetadata_in_bounds_witness:
  "\<exists>header reader1. ReadMetadataHeader demo_sha demo_bad_image = Some (header, reader1) \<and>
     td_entry_size (h_block_devices header) < of_nat sizeof_block_device"
  using ParseMetadata_in_bounds[OF demo_bad_parse] by simp

text \<open>
  C11: a metadata that the reader accepts has a super device, every partition's extent range and
  group lie inside the tables, attributes are known ones, linear extents name existing devices,
  and names fill their fixed arrays; the metadata area ends before the first logical sector.
\<close>

theorem ParseMetadata_consistent:
  assumes "ParseMetadata sha geometry reader = Inr (Some m)"
  shows "metadata_consistent m \<and> m_geometry m = geometry \<and>
    unat (GetTotalMetadataSize (g_metadata_max_size geometry) (g_metadata_slot_count geometry))
      \<le> unat (bd_first_logical_sector (hd (m_block_devices m)) * LP_SECTOR_SIZE)"
  using assms by (rule ParseMetadata_accepts)

theorem ParseMetadata_consistent_witness:
  "\<exists>m. ReadPrimaryMetadata demo_sha demo_device (m_geometry demo_metadata) 0 = Inr (Some m) \<and>
     metadata_consistent m"
proof -
  have "ParseMetadataAt demo_sha (m_geometry demo_metadata) demo_device
      (copy_offset (m_geometry demo_metadata) 0 Primary) = Inr (Some (as_written demo_sha demo_metadata))"
    using demo_copies(2) unfolding read_copies[OF demo_exact] .
  then have "\<exists>r. ParseMetadata demo_sha (m_geometry demo_metadata) r = Inr (Some (as_written demo_sha demo_metadata))"
    by (auto simp: ParseMetadataAt_def split: option.splits)
  then obtain r where "ParseMetadata demo_sha (m_geometry demo_metadata) r =
    Inr (Some (as_written demo_sha demo_metadata))" by blast
  from ParseMetadata_consistent[OF this] demo_copies(2) show ?thesis by blast
qed

section \<open>Updates on the small device\<close>

text \<open>A writer that fills the area with garbage and reports failure, as when power is lost.\<close>

definition torn_writer :: writer where
  "torn_writer off blob dev =
     (let n = min (length blob) (length dev - off)
      in (False, take off dev @ replicate n 255 @ drop (off + n) dev))"

lemma good_torn_writer: "good_writer torn_writer"
  by (auto simp: good_writer_def torn_writer_def Let_def min_def add.commute)

lemma CompareGeometry_refl [simp]: "CompareGeometry g g" by (simp add: CompareGeometry_def)

lemma demo_device_length: "length demo_device = 28672"
proof -
  have small: "total_metadata_size (unat (g_metadata_max_size (m_geometry demo_metadata)))
      (unat (g_metadata_slot_count (m_geometry demo_metadata))) < 4294967296"
    and dev: "total_metadata_size (unat (g_metadata_max_size (m_geometry demo_metadata)))
      (unat (g_metadata_slot_count (m_geometry demo_metadata))) \<le> length (replicate 28672 (0 :: u8))"
    and lt: "length demo_blob < unat (g_metadata_max_size (m_geometry demo_metadata))"
    using demo_validates(2) by (simp_all add: demo_geometry demo_geometry_fields total_metadata_size_def)
  have room: "room_for_copies demo_metadata (length demo_blob) (replicate 28672 0)"
    by (rule validated_room[OF demo_validates(1) refl lt small dev])
  have "length (flashed demo_sha demo_metadata demo_blob (replicate 28672 0)) = length (replicate 28672 (0 :: u8))"
    by (rule flashed_bytes(1)[OF demo_sha_length refl room _ less_imp_le[OF lt]]) simp
  then show ?thesis by (simp only: demo_device_def length_replicate)
qed

lemma demo_suffix: "SlotSuffixForSlotNumber 0 = Inr ''_a''"
  by (simp add: SlotSuffixForSlotNumber_def)

lemma demo_update:
  assumes "WriteMetadata w demo_device demo_metadata 0 demo_blob = Inr (ok, dev')"
  shows "UpdatePartitionTable demo_sha w (Some demo_device) demo_metadata 0 = Inr (ok, Some dev')"
  by (rule UpdatePartitionTable_in_sync_run[OF refl demo_suffix demo_validates(1) demo_copies(1) _ _ demo_copies(2,3) _ assms])
    (simp_all add: demo_geometry demo_geometry_fields CompareMetadata_def)

lemma demo_fits_copy: "usable_copy (as_written demo_sha demo_metadata)"
proof -
  have ok: "metadata_ok demo_metadata" "length (table_bytes demo_metadata) < 4096"
    using demo_metadata_ok serialized_tables[OF ValidateAndSerializeMetadata_Some(1)[OF demo_validates(1)]]
      demo_validates(2) by auto
  from metadata_roundtrip_lemma[where sha = demo_sha, OF demo_sha_length ok(1)]
    ValidateAndSerializeMetadata_Some(1)[OF demo_validates(1)]
  have "length demo_blob = unat (h_header_size (m_header demo_metadata)) + length (table_bytes demo_metadata)"
    by auto
  moreover have "unat (h_tables_size (placed_header demo_metadata)) = length (table_bytes demo_metadata)"
    by (rule placed_header_offsets(5)) (use ok in simp)
  ultimately show ?thesis
    using demo_validates(2) demo_header_fields
    by (simp add: usable_copy_def fits_def demo_written demo_geometry demo_geometry_fields header_fields_ok_def)
qed

lemma demo_content: "content (as_written demo_sha demo_metadata) = content demo_metadata"
  by (simp add: demo_written)

lemma demo_torn_write:
  "\<exists>dev'. WriteMetadata torn_writer demo_device demo_metadata 0 demo_blob = Inr (False, dev')"
  using offsets_eq[OF demo_exact]
  by (auto simp: WriteMetadata_def and_then_def WritePrimaryMetadata_def WriteMetadataAt_def seek_and_write_def
      torn_writer_def Let_def demo_geometry demo_geometry_fields split: option.splits)

theorem UpdatePartitionTable_crash_safe_witness:
  "\<exists>dev'. UpdatePartitionTable demo_sha torn_writer (Some demo_device) demo_metadata 0 = Inr (False, Some dev') \<and>
    (\<exists>x. (ReadPrimaryMetadata demo_sha dev' (m_geometry demo_metadata) 0 = Inr (Some x) \<or>
        ReadBackupMetadata demo_sha dev' (m_geometry demo_metadata) 0 = Inr (Some x)) \<and>
       content x = content demo_metadata)"
proof -
  obtain dev' where "WriteMetadata torn_writer demo_device demo_metadata 0 demo_blob = Inr (False, dev')"
    using demo_torn_write by blast
  note u = demo_update[OF this]
  have sha: "\<forall>x. length (demo_sha x) = 32" by (simp add: demo_sha_def)
  have lg: "last_good (Some (as_written demo_sha demo_metadata)) (Some (as_written demo_sha demo_metadata)) =
    Some (as_written demo_sha demo_metadata)" by (simp add: last_good_def)
  have us: "\<forall>x. Some (as_written demo_sha demo_metadata) = Some x \<or> Some (as_written demo_sha demo_metadata) = Some x
    \<longrightarrow> usable_copy x" using demo_fits_copy by simp
  have same: "\<forall>p b. Some (as_written demo_sha demo_metadata) = Some p \<longrightarrow>
    Some (as_written demo_sha demo_metadata) = Some b \<longrightarrow> CompareMetadata p b \<longrightarrow> content p = content b" by simp
  from UpdatePartitionTable_crash_safe[OF sha good_torn_writer demo_metadata_ok demo_exact demo_copies(2,3) us same lg u]
  show ?thesis unfolding demo_content using u by blast
qed

theorem UpdatePartitionTable_frame_witness:
  "\<exists>dev'. UpdatePartitionTable demo_sha torn_writer (Some demo_device) demo_metadata 0 = Inr (False, Some dev') \<and>
     length dev' = length demo_device \<and> bytes_at 4096 8192 dev' = bytes_at 4096 8192 demo_device"
proof -
  obtain dev' where "WriteMetadata torn_writer demo_device demo_metadata 0 demo_blob = Inr (False, dev')"
    using demo_torn_write by blast
  note u = demo_update[OF this]
  have out: "outside_copies (m_geometry demo_metadata) 0 4096 8192"
    by (simp add: outside_copies_def apart_def copy_offset_def)
  from UpdatePartitionTable_frame[OF good_torn_writer demo_exact out u] u show ?thesis by blast
qed

section \<open>Flash, read, import\<close>

text \<open>
  C2: a builder that is exported, flashed to a device with room for the metadata area, read from
  slot 0 or 1 and imported comes back, with the geometry's checksum filled in: every step succeeds
  and no partition, extent, group or device is lost on the way.
\<close>

theorem flash_read_import:
  assumes "\<forall>x. length (sha x) = 32" "writable b" "device_fits b"
    and "total_metadata_size (unat (g_metadata_max_size (b_geometry b)))
      (unat (g_metadata_slot_count (b_geometry b))) \<le> length dev"
    and "unat slot < unat (g_metadata_slot_count (b_geometry b))" "slot = 0 \<or> slot = 1"
  shows "\<exists>m dev' m'. Export b = Some m \<and>
    FlashPartitionTable sha (Some dev) super_name m = Inr (True, Some dev') \<and>
    ReadMetadata sha (Some dev') slot = Inr (Some m') \<and>
    InitMetadata m' = Inr (Some (b\<lparr>b_geometry := sealed_geometry sha (b_geometry b)\<rparr>))"
  using assms by (intro Export_flash_read) simp_all

theorem flash_read_import_witness:
  "\<exists>m dev' m'. Export demo_builder = Some m \<and>
    FlashPartitionTable demo_sha (Some (replicate 28672 7)) ''super'' m = Inr (True, Some dev') \<and>
    ReadMetadata demo_sha (Some dev') 1 = Inr (Some m') \<and> InitMetadata m' = Inr (Some demo_builder)"
proof -
  have sha: "\<forall>x. length (demo_sha x) = 32" by (simp add: demo_sha_def)
  have dev: "total_metadata_size (unat (g_metadata_max_size (b_geometry demo_builder)))
      (unat (g_metadata_slot_count (b_geometry demo_builder))) \<le> length (replicate 28672 (7 :: u8))"
    by (simp add: demo_geometry_fields total_metadata_size_def)
  have slot: "unat (1 :: u32) < unat (g_metadata_slot_count (b_geometry demo_builder))"
    by (simp add: demo_geometry_fields)
  have geo: "demo_builder\<lparr>b_geometry := sealed_geometry demo_sha (b_geometry demo_builder)\<rparr> = demo_builder"
    by (simp add: demo_geometry_fields(4))
  from flash_read_import[OF sha demo_writable demo_fits dev slot] show ?thesis unfolding geo by simp
qed

section \<open>A successful update\<close>

lemma ReadGeometryAt_same:
  "same_area off 4096 dev dev' \<Longrightarrow> ReadGeometryAt sha dev' off = ReadGeometryAt sha dev off"
  by (auto simp: ReadGeometryAt_def SeekFile64_def ReadFully_def same_area_def bytes_at_def
      LP_METADATA_GEOMETRY_SIZE_def)

lemma ReadLogicalPartitionGeometry_same:
  assumes "same_area 4096 4096 dev dev'" "same_area 8192 4096 dev dev'"
  shows "ReadLogicalPartitionGeometry sha dev' = ReadLogicalPartitionGeometry sha dev"
proof -
  have "ReadPrimaryGeometry sha dev' = ReadPrimaryGeometry sha dev"
    "ReadBackupGeometry sha dev' = ReadBackupGeometry sha dev"
    using ReadGeometryAt_same[OF assms(1)] ReadGeometryAt_same[OF assms(2)]
    by (simp_all add: ReadPrimaryGeometry_def ReadBackupGeometry_def GetPrimaryGeometryOffset_def
        GetBackupGeometryOffset_def LP_PARTITION_RESERVED_BYTES_def LP_METADATA_GEOMETRY_SIZE_def)
  then show ?thesis by (simp only: ReadLogicalPartitionGeometry_def)
qed

text \<open>
  C13: on a device whose two copies of the slot are readable and agree, whose geometry matches and
  which has room for the metadata area, updating with a valid metadata succeeds with the default
  writer, and the slot then reads as the new metadata.
\<close>

theorem UpdatePartitionTable_succeeds:
  assumes sha: "\<forall>x. length (sha x) = 32" and m: "metadata_ok m" "exact_offsets (m_geometry m) slot"
    and suffix: "SlotSuffixForSlotNumber slot = Inr suffix"
    and v: "ValidateAndSerializeMetadata sha m suffix = Inr (Some blob)"
      "length blob < unat (g_metadata_max_size (m_geometry m))"
    and geo: "ReadLogicalPartitionGeometry sha dev = Inr (Some old_geometry)"
      "CompareGeometry (m_geometry m) old_geometry"
    and copies: "ReadPrimaryMetadata sha dev (m_geometry m) slot = Inr (Some p)"
      "ReadBackupMetadata sha dev (m_geometry m) slot = Inr (Some b)" "CompareMetadata p b"
    and dev: "total_metadata_size (unat (g_metadata_max_size (m_geometry m)))
      (unat (g_metadata_slot_count (m_geometry m))) \<le> length dev"
  shows "\<exists>dev'. UpdatePartitionTable sha DefaultWriter (Some dev) m slot = Inr (True, Some dev') \<and>
    ReadMetadata sha (Some dev') slot =
      AdjustMetadataForSlot (m\<lparr>m_geometry := old_geometry, m_header := sealed_header sha m\<rparr>) slot"
proof -
  let ?g = "m_geometry m" and ?m = "m\<lparr>m_geometry := old_geometry\<rparr>"
  let ?p = "copy_offset ?g slot Primary" and ?b = "copy_offset ?g slot Backup"
  let ?d1 = "overwrite ?p blob dev"
  let ?d = "overwrite ?b blob ?d1"
  have small: "total_metadata_size (unat (g_metadata_max_size ?g)) (unat (g_metadata_slot_count ?g)) < 4294967296"
    and slot: "unat slot < unat (g_metadata_slot_count ?g)" using m(2) by (simp_all add: exact_offsets_def)
  note room = validated_room[OF v(1) refl v(2) small dev]
  note up = UpdatePartitionTable_in_sync[OF refl suffix v(1) geo slot copies room small]
  have cg: "g_metadata_max_size old_geometry = g_metadata_max_size ?g"
    "g_metadata_slot_count old_geometry = g_metadata_slot_count ?g"
    using geo(2) by (simp_all add: CompareGeometry_def)
  have co: "copy_offset old_geometry slot c = copy_offset ?g slot c" for c
    by (cases c) (simp_all add: copy_offset_def cg)
  have ex: "exact_offsets old_geometry slot" using m(2) by (simp add: exact_offsets_def cg)
  have okm: "metadata_ok ?m"
    using m(1) cg by (simp add: metadata_ok_def table_bytes_def partition_bytes_def extent_bytes_def
      group_bytes_def block_device_bytes_def split: list.splits)
  have ser: "SerializeMetadata sha ?m = Inr blob" using ValidateAndSerializeMetadata_Some(1)[OF v(1)] by simp
  have in_dev: "?p + length blob \<le> length dev" "?b + length blob \<le> length dev"
    using room slot copy_offset_area[OF slot] by (auto simp: room_for_copies_def)
  have len: "length ?d1 = length dev" "length ?d = length dev" using in_dev by simp_all
  have "bytes_at ?p (length blob) ?d1 = blob" by (rule bytes_at_overwrite[OF in_dev(1)])
  moreover have "bytes_at ?p (length blob) ?d = bytes_at ?p (length blob) ?d1"
    by (rule bytes_at_overwrite_apart)
      (use in_dev len copies_apart[OF slot, of Backup Primary "length blob" "length blob"] v(2) in
        \<open>auto simp: apart_def\<close>)
  ultimately have "ParseMetadataAt sha old_geometry ?d ?p = Inr (Some (?m\<lparr>m_header := sealed_header sha ?m\<rparr>))"
    using parse_copy[of sha ?m blob ?p ?d] sha okm ser in_dev len by simp
  moreover have "same_area off 4096 dev ?d" if "off \<le> 8192" for off
  proof -
    have "same_area off 4096 dev ?d1" "same_area off 4096 ?d1 ?d"
      using that in_dev len bytes_at_overwrite_apart[of ?p blob dev off 4096]
        bytes_at_overwrite_apart[of ?b blob ?d1 off 4096]
      by (auto simp: same_area_def apart_def copy_offset_def)
    then show ?thesis by (rule same_area_trans)
  qed
  then have "ReadLogicalPartitionGeometry sha ?d = Inr (Some old_geometry)"
    using geo(1) by (subst ReadLogicalPartitionGeometry_same[of dev]) simp_all
  moreover have "\<not> slot \<ge> g_metadata_slot_count old_geometry" using slot cg by (simp add: word_le_nat_alt)
  ultimately have "ReadMetadata sha (Some ?d) slot =
      AdjustMetadataForSlot (m\<lparr>m_geometry := old_geometry, m_header := sealed_header sha m\<rparr>) slot"
    using offsets_eq[OF ex] co by (simp add: ReadMetadata_def)
  with up show ?thesis by blast
qed

theorem UpdatePartitionTable_succeeds_witness:
  "\<exists>dev'. UpdatePartitionTable demo_sha DefaultWriter (Some demo_device) demo_metadata 0 = Inr (True, Some dev') \<and>
    ReadMetadata demo_sha (Some dev') 0 = AdjustMetadataForSlot (as_written demo_sha demo_metadata) 0"
proof -
  have sha: "\<forall>x. length (demo_sha x) = 32" by (simp add: demo_sha_def)
  have lt: "length demo_blob < unat (g_metadata_max_size (m_geometry demo_metadata))"
    using demo_validates(2) by (simp add: demo_geometry demo_geometry_fields)
  have cg: "CompareGeometry (m_geometry demo_metadata) (b_geometry demo_builder)" by (simp add: demo_geometry)
  have cm: "CompareMetadata (as_written demo_sha demo_metadata) (as_written demo_sha demo_metadata)"
    by (simp add: CompareMetadata_def)
  have dev: "total_metadata_size (unat (g_metadata_max_size (m_geometry demo_metadata)))
      (unat (g_metadata_slot_count (m_geometry demo_metadata))) \<le> length demo_device"
    by (simp add: demo_device_length demo_geometry demo_geometry_fields total_metadata_size_def)
  have m: "demo_metadata\<lparr>m_geometry := b_geometry demo_builder, m_header := sealed_header demo_sha demo_metadata\<rparr> =
      as_written demo_sha demo_metadata"
    by (simp add: as_written_def demo_geometry demo_geometry_fields(4))
  from UpdatePartitionTable_succeeds[OF sha demo_metadata_ok demo_exact demo_suffix demo_validates(1) lt
      demo_copies(1) cg demo_copies(2,3) cm dev] show ?thesis unfolding m .
qed

end
