(* ===== verification/SpFormat.thy ===== *)
theory SpFormat imports LpCodec begin

text \<open>
  \<open>libsparse/sparse_format.h\<close>: the file header and the chunk header of a sparse image, with their
  byte images on a little-endian machine.
\<close>

record sparse_header =
  sh_magic :: u32
  sh_major_version :: u16
  sh_minor_version :: u16
  sh_file_hdr_sz :: u16
  sh_chunk_hdr_sz :: u16
  sh_blk_sz :: u32
  sh_total_blks :: u32
  sh_total_chunks :: u32
  sh_image_checksum :: u32

record chunk_header =
  ch_chunk_type :: u16
  ch_reserved1 :: u16
  ch_chunk_sz :: u32
  ch_total_sz :: u32

definition SPARSE_HEADER_MAGIC :: u32 where "SPARSE_HEADER_MAGIC = 0xed26ff3a"
definition CHUNK_TYPE_RAW :: u16 where "CHUNK_TYPE_RAW = 0xCAC1"
definition CHUNK_TYPE_FILL :: u16 where "CHUNK_TYPE_FILL = 0xCAC2"
definition CHUNK_TYPE_DONT_CARE :: u16 where "CHUNK_TYPE_DONT_CARE = 0xCAC3"
definition CHUNK_TYPE_CRC32 :: u16 where "CHUNK_TYPE_CRC32 = 0xCAC4"

lemmas chunk_type_defs =
  CHUNK_TYPE_RAW_def CHUNK_TYPE_FILL_def CHUNK_TYPE_DONT_CARE_def CHUNK_TYPE_CRC32_def

definition SPARSE_HEADER_LEN :: nat where "SPARSE_HEADER_LEN = 28"
definition CHUNK_HEADER_LEN :: nat where "CHUNK_HEADER_LEN = 12"

definition enc_sparse_header :: "sparse_header \<Rightarrow> u8 list" where
  "enc_sparse_header h = enc32 (sh_magic h) @ enc16 (sh_major_version h) @ enc16 (sh_minor_version h) @
     enc16 (sh_file_hdr_sz h) @ enc16 (sh_chunk_hdr_sz h) @ enc32 (sh_blk_sz h) @
     enc32 (sh_total_blks h) @ enc32 (sh_total_chunks h) @ enc32 (sh_image_checksum h)"

definition dec_sparse_header :: "u8 list \<Rightarrow> sparse_header" where
  "dec_sparse_header bs = \<lparr>sh_magic = dec32 0 bs, sh_major_version = dec16 4 bs,
     sh_minor_version = dec16 6 bs, sh_file_hdr_sz = dec16 8 bs, sh_chunk_hdr_sz = dec16 10 bs,
     sh_blk_sz = dec32 12 bs, sh_total_blks = dec32 16 bs, sh_total_chunks = dec32 20 bs,
     sh_image_checksum = dec32 24 bs\<rparr>"

definition enc_chunk_header :: "chunk_header \<Rightarrow> u8 list" where
  "enc_chunk_header c = enc16 (ch_chunk_type c) @ enc16 (ch_reserved1 c) @ enc32 (ch_chunk_sz c) @
     enc32 (ch_total_sz c)"

definition dec_chunk_header :: "u8 list \<Rightarrow> chunk_header" where
  "dec_chunk_header bs = \<lparr>ch_chunk_type = dec16 0 bs, ch_reserved1 = dec16 2 bs,
     ch_chunk_sz = dec32 4 bs, ch_total_sz = dec32 8 bs\<rparr>"

lemmas sparse_image_defs = enc_sparse_header_def dec_sparse_header_def enc_chunk_header_def
  dec_chunk_header_def SPARSE_HEADER_LEN_def CHUNK_HEADER_LEN_def

interpretation sparse_hdr: fixed_codec enc_sparse_header dec_sparse_header SPARSE_HEADER_LEN "\<lambda>_. True"
  by unfold_locales
    (simp_all add: sparse_image_defs codec bytes_at_here enc_dec bytes_at_join bytes_at_whole)

interpretation chunk_hdr: fixed_codec enc_chunk_header dec_chunk_header CHUNK_HEADER_LEN "\<lambda>_. True"
  by unfold_locales
    (simp_all add: sparse_image_defs codec bytes_at_here enc_dec bytes_at_join bytes_at_whole)

end
