(* ===== verification/SpCrc.thy ===== *)
theory SpCrc imports LpCodec begin

text \<open>
  \<open>libsparse/sparse_crc32.cpp\<close>: the table-driven CRC-32 that guards sparse images. It is
  equivalent to the bit-by-bit definition of the reflected 802.3 polynomial, it can be computed
  piece by piece, and it detects every change confined to four consecutive bytes.
\<close>

section \<open>The code\<close>

definition crc32_tab :: "u32 list" where
  "crc32_tab = [
    0x00000000, 0x77073096, 0xee0e612c, 0x990951ba, 0x076dc419, 0x706af48f, 0xe963a535, 0x9e6495a3,
    0x0edb8832, 0x79dcb8a4, 0xe0d5e91e, 0x97d2d988, 0x09b64c2b, 0x7eb17cbd, 0xe7b82d07, 0x90bf1d91,
    0x1db71064, 0x6ab020f2, 0xf3b97148, 0x84be41de, 0x1adad47d, 0x6ddde4eb, 0xf4d4b551, 0x83d385c7,
    0x136c9856, 0x646ba8c0, 0xfd62f97a, 0x8a65c9ec, 0x14015c4f, 0x63066cd9, 0xfa0f3d63, 0x8d080df5,
    0x3b6e20c8, 0x4c69105e, 0xd56041e4, 0xa2677172, 0x3c03e4d1, 0x4b04d447, 0xd20d85fd, 0xa50ab56b,
    0x35b5a8fa, 0x42b2986c, 0xdbbbc9d6, 0xacbcf940, 0x32d86ce3, 0x45df5c75, 0xdcd60dcf, 0xabd13d59,
    0x26d930ac, 0x51de003a, 0xc8d75180, 0xbfd06116, 0x21b4f4b5, 0x56b3c423, 0xcfba9599, 0xb8bda50f,
    0x2802b89e, 0x5f058808, 0xc60cd9b2, 0xb10be924, 0x2f6f7c87, 0x58684c11, 0xc1611dab, 0xb6662d3d,
    0x76dc4190, 0x01db7106, 0x98d220bc, 0xefd5102a, 0x71b18589, 0x06b6b51f, 0x9fbfe4a5, 0xe8b8d433,
    0x7807c9a2, 0x0f00f934, 0x9609a88e, 0xe10e9818, 0x7f6a0dbb, 0x086d3d2d, 0x91646c97, 0xe6635c01,
    0x6b6b51f4, 0x1c6c6162, 0x856530d8, 0xf262004e, 0x6c0695ed, 0x1b01a57b, 0x8208f4c1, 0xf50fc457,
    0x65b0d9c6, 0x12b7e950, 0x8bbeb8ea, 0xfcb9887c, 0x62dd1ddf, 0x15da2d49, 0x8cd37cf3, 0xfbd44c65,
    0x4db26158, 0x3ab551ce, 0xa3bc0074, 0xd4bb30e2, 0x4adfa541, 0x3dd895d7, 0xa4d1c46d, 0xd3d6f4fb,
    0x4369e96a, 0x346ed9fc, 0xad678846, 0xda60b8d0, 0x44042d73, 0x33031de5, 0xaa0a4c5f, 0xdd0d7cc9,
    0x5005713c, 0x270241aa, 0xbe0b1010, 0xc90c2086, 0x5768b525, 0x206f85b3, 0xb966d409, 0xce61e49f,
    0x5edef90e, 0x29d9c998, 0xb0d09822, 0xc7d7a8b4, 0x59b33d17, 0x2eb40d81, 0xb7bd5c3b, 0xc0ba6cad,
    0xedb88320, 0x9abfb3b6, 0x03b6e20c, 0x74b1d29a, 0xead54739, 0x9dd277af, 0x04db2615, 0x73dc1683,
    0xe3630b12, 0x94643b84, 0x0d6d6a3e, 0x7a6a5aa8, 0xe40ecf0b, 0x9309ff9d, 0x0a00ae27, 0x7d079eb1,
    0xf00f9344, 0x8708a3d2, 0x1e01f268, 0x6906c2fe, 0xf762575d, 0x806567cb, 0x196c3671, 0x6e6b06e7,
    0xfed41b76, 0x89d32be0, 0x10da7a5a, 0x67dd4acc, 0xf9b9df6f, 0x8ebeeff9, 0x17b7be43, 0x60b08ed5,
    0xd6d6a3e8, 0xa1d1937e, 0x38d8c2c4, 0x4fdff252, 0xd1bb67f1, 0xa6bc5767, 0x3fb506dd, 0x48b2364b,
    0xd80d2bda, 0xaf0a1b4c, 0x36034af6, 0x41047a60, 0xdf60efc3, 0xa867df55, 0x316e8eef, 0x4669be79,
    0xcb61b38c, 0xbc66831a, 0x256fd2a0, 0x5268e236, 0xcc0c7795, 0xbb0b4703, 0x220216b9, 0x5505262f,
    0xc5ba3bbe, 0xb2bd0b28, 0x2bb45a92, 0x5cb36a04, 0xc2d7ffa7, 0xb5d0cf31, 0x2cd99e8b, 0x5bdeae1d,
    0x9b64c2b0, 0xec63f226, 0x756aa39c, 0x026d930a, 0x9c0906a9, 0xeb0e363f, 0x72076785, 0x05005713,
    0x95bf4a82, 0xe2b87a14, 0x7bb12bae, 0x0cb61b38, 0x92d28e9b, 0xe5d5be0d, 0x7cdcefb7, 0x0bdbdf21,
    0x86d3d2d4, 0xf1d4e242, 0x68ddb3f8, 0x1fda836e, 0x81be16cd, 0xf6b9265b, 0x6fb077e1, 0x18b74777,
    0x88085ae6, 0xff0f6a70, 0x66063bca, 0x11010b5c, 0x8f659eff, 0xf862ae69, 0x616bffd3, 0x166ccf45,
    0xa00ae278, 0xd70dd2ee, 0x4e048354, 0x3903b3c2, 0xa7672661, 0xd06016f7, 0x4969474d, 0x3e6e77db,
    0xaed16a4a, 0xd9d65adc, 0x40df0b66, 0x37d83bf0, 0xa9bcae53, 0xdebb9ec5, 0x47b2cf7f, 0x30b5ffe9,
    0xbdbdf21c, 0xcabac28a, 0x53b39330, 0x24b4a3a6, 0xbad03605, 0xcdd70693, 0x54de5729, 0x23d967bf,
    0xb3667a2e, 0xc4614ab8, 0x5d681b02, 0x2a6f2b94, 0xb40bbe37, 0xc30c8ea1, 0x5a05df1b, 0x2d02ef8d]"

definition crc32_byte :: "u32 \<Rightarrow> u8 \<Rightarrow> u32" where
  "crc32_byte crc p = xor (crc32_tab ! unat (and (xor crc (ucast p)) 0xFF)) (drop_bit 8 crc)"

definition sparse_crc32 :: "u32 \<Rightarrow> u8 list \<Rightarrow> u32" where
  "sparse_crc32 crc_in buf = xor (foldl crc32_byte (xor crc_in (not 0)) buf) (not 0)"

section \<open>The polynomial\<close>

text \<open>One bit of the division by the reflected polynomial, and the CRC of a buffer bit by bit.\<close>

definition crc_bit :: "u32 \<Rightarrow> u32" where
  "crc_bit c = (if bit c 0 then xor (drop_bit 1 c) 0xEDB88320 else drop_bit 1 c)"

definition crc32_bitwise :: "u32 \<Rightarrow> u8 list \<Rightarrow> u32" where
  "crc32_bitwise crc_in buf =
     xor (foldl (\<lambda>c p. (crc_bit ^^ 8) (xor c (ucast p))) (xor crc_in (not 0)) buf) (not 0)"

text \<open>The same division on integers, where the simplifier computes the 256 entries.\<close>

definition crc_bit_int :: "int \<Rightarrow> int" where
  "crc_bit_int c = (if odd c then xor (c div 2) 0xEDB88320 else c div 2)"

lemma crc_bit_int_range:
  assumes "0 \<le> c" "c < 2 ^ 32"
  shows "0 \<le> crc_bit_int c \<and> crc_bit_int c < 2 ^ 32"
proof -
  have "0 \<le> c div 2" "c div 2 < 2 ^ 32" using assms by simp_all
  moreover have "0 \<le> xor (c div 2) 0xEDB88320 \<and> xor (c div 2) 0xEDB88320 < 2 ^ 32"
    using calculation XOR_upper[of "c div 2" 32 "0xEDB88320"] by simp
  ultimately show ?thesis by (simp add: crc_bit_int_def)
qed

lemma crc_bit_word_of_int:
  assumes "0 \<le> c" "c < 2 ^ 32"
  shows "crc_bit (word_of_int c) = word_of_int (crc_bit_int c)"
proof -
  have "drop_bit 1 (word_of_int c :: u32) = word_of_int (c div 2)"
    using assms by (intro word_uint_eqI) (simp add: drop_bit_eq_div uint_div uint_word_of_int)
  moreover have "bit (word_of_int c :: u32) 0 = odd c" by (simp only: bit_word_of_int_iff) (simp add: bit_0)
  moreover have "xor (word_of_int (c div 2)) 0xEDB88320 = (word_of_int (xor (c div 2) 0xEDB88320) :: u32)"
    by (simp only: of_int_xor_eq of_int_numeral)
  ultimately show ?thesis by (simp add: crc_bit_def crc_bit_int_def)
qed

lemma crc_bits_word_of_int:
  assumes "0 \<le> c" "c < 2 ^ 32"
  shows "(crc_bit ^^ n) (word_of_int c) = word_of_int ((crc_bit_int ^^ n) c)
    \<and> 0 \<le> (crc_bit_int ^^ n) c \<and> (crc_bit_int ^^ n) c < 2 ^ 32"
proof (induction n)
  case (Suc n)
  then show ?case using crc_bit_word_of_int crc_bit_int_range by simp
qed (use assms in simp)

lemma crc_bit_int_numeral:
  "crc_bit_int (numeral n) = (if odd (numeral n :: int) then xor (numeral n div 2) 0xEDB88320 else numeral n div 2)"
  "crc_bit_int 0 = 0" "crc_bit_int 1 = 0xEDB88320"
  by (simp_all add: crc_bit_int_def)

lemma eight_times: "(f ^^ 8) x = f (f (f (f (f (f (f (f x)))))))"
  by (simp add: eval_nat_numeral)

lemma crc_table_int: "map (\<lambda>i. (crc_bit_int ^^ 8) (int i)) [0..<256] = [
    0x00000000, 0x77073096, 0xee0e612c, 0x990951ba, 0x076dc419, 0x706af48f, 0xe963a535, 0x9e6495a3,
    0x0edb8832, 0x79dcb8a4, 0xe0d5e91e, 0x97d2d988, 0x09b64c2b, 0x7eb17cbd, 0xe7b82d07, 0x90bf1d91,
    0x1db71064, 0x6ab020f2, 0xf3b97148, 0x84be41de, 0x1adad47d, 0x6ddde4eb, 0xf4d4b551, 0x83d385c7,
    0x136c9856, 0x646ba8c0, 0xfd62f97a, 0x8a65c9ec, 0x14015c4f, 0x63066cd9, 0xfa0f3d63, 0x8d080df5,
    0x3b6e20c8, 0x4c69105e, 0xd56041e4, 0xa2677172, 0x3c03e4d1, 0x4b04d447, 0xd20d85fd, 0xa50ab56b,
    0x35b5a8fa, 0x42b2986c, 0xdbbbc9d6, 0xacbcf940, 0x32d86ce3, 0x45df5c75, 0xdcd60dcf, 0xabd13d59,
    0x26d930ac, 0x51de003a, 0xc8d75180, 0xbfd06116, 0x21b4f4b5, 0x56b3c423, 0xcfba9599, 0xb8bda50f,
    0x2802b89e, 0x5f058808, 0xc60cd9b2, 0xb10be924, 0x2f6f7c87, 0x58684c11, 0xc1611dab, 0xb6662d3d,
    0x76dc4190, 0x01db7106, 0x98d220bc, 0xefd5102a, 0x71b18589, 0x06b6b51f, 0x9fbfe4a5, 0xe8b8d433,
    0x7807c9a2, 0x0f00f934, 0x9609a88e, 0xe10e9818, 0x7f6a0dbb, 0x086d3d2d, 0x91646c97, 0xe6635c01,
    0x6b6b51f4, 0x1c6c6162, 0x856530d8, 0xf262004e, 0x6c0695ed, 0x1b01a57b, 0x8208f4c1, 0xf50fc457,
    0x65b0d9c6, 0x12b7e950, 0x8bbeb8ea, 0xfcb9887c, 0x62dd1ddf, 0x15da2d49, 0x8cd37cf3, 0xfbd44c65,
    0x4db26158, 0x3ab551ce, 0xa3bc0074, 0xd4bb30e2, 0x4adfa541, 0x3dd895d7, 0xa4d1c46d, 0xd3d6f4fb,
    0x4369e96a, 0x346ed9fc, 0xad678846, 0xda60b8d0, 0x44042d73, 0x33031de5, 0xaa0a4c5f, 0xdd0d7cc9,
    0x5005713c, 0x270241aa, 0xbe0b1010, 0xc90c2086, 0x5768b525, 0x206f85b3, 0xb966d409, 0xce61e49f,
    0x5edef90e, 0x29d9c998, 0xb0d09822, 0xc7d7a8b4, 0x59b33d17, 0x2eb40d81, 0xb7bd5c3b, 0xc0ba6cad,
    0xedb88320, 0x9abfb3b6, 0x03b6e20c, 0x74b1d29a, 0xead54739, 0x9dd277af, 0x04db2615, 0x73dc1683,
    0xe3630b12, 0x94643b84, 0x0d6d6a3e, 0x7a6a5aa8, 0xe40ecf0b, 0x9309ff9d, 0x0a00ae27, 0x7d079eb1,
    0xf00f9344, 0x8708a3d2, 0x1e01f268, 0x6906c2fe, 0xf762575d, 0x806567cb, 0x196c3671, 0x6e6b06e7,
    0xfed41b76, 0x89d32be0, 0x10da7a5a, 0x67dd4acc, 0xf9b9df6f, 0x8ebeeff9, 0x17b7be43, 0x60b08ed5,
    0xd6d6a3e8, 0xa1d1937e, 0x38d8c2c4, 0x4fdff252, 0xd1bb67f1, 0xa6bc5767, 0x3fb506dd, 0x48b2364b,
    0xd80d2bda, 0xaf0a1b4c, 0x36034af6, 0x41047a60, 0xdf60efc3, 0xa867df55, 0x316e8eef, 0x4669be79,
    0xcb61b38c, 0xbc66831a, 0x256fd2a0, 0x5268e236, 0xcc0c7795, 0xbb0b4703, 0x220216b9, 0x5505262f,
    0xc5ba3bbe, 0xb2bd0b28, 0x2bb45a92, 0x5cb36a04, 0xc2d7ffa7, 0xb5d0cf31, 0x2cd99e8b, 0x5bdeae1d,
    0x9b64c2b0, 0xec63f226, 0x756aa39c, 0x026d930a, 0x9c0906a9, 0xeb0e363f, 0x72076785, 0x05005713,
    0x95bf4a82, 0xe2b87a14, 0x7bb12bae, 0x0cb61b38, 0x92d28e9b, 0xe5d5be0d, 0x7cdcefb7, 0x0bdbdf21,
    0x86d3d2d4, 0xf1d4e242, 0x68ddb3f8, 0x1fda836e, 0x81be16cd, 0xf6b9265b, 0x6fb077e1, 0x18b74777,
    0x88085ae6, 0xff0f6a70, 0x66063bca, 0x11010b5c, 0x8f659eff, 0xf862ae69, 0x616bffd3, 0x166ccf45,
    0xa00ae278, 0xd70dd2ee, 0x4e048354, 0x3903b3c2, 0xa7672661, 0xd06016f7, 0x4969474d, 0x3e6e77db,
    0xaed16a4a, 0xd9d65adc, 0x40df0b66, 0x37d83bf0, 0xa9bcae53, 0xdebb9ec5, 0x47b2cf7f, 0x30b5ffe9,
    0xbdbdf21c, 0xcabac28a, 0x53b39330, 0x24b4a3a6, 0xbad03605, 0xcdd70693, 0x54de5729, 0x23d967bf,
    0xb3667a2e, 0xc4614ab8, 0x5d681b02, 0x2a6f2b94, 0xb40bbe37, 0xc30c8ea1, 0x5a05df1b, 0x2d02ef8d]"
  by (simp add: eight_times crc_bit_int_numeral upt_rec[of 0] upt_rec[of "Suc 0"] upt_rec_numeral
      numeral_2_eq_2[symmetric])

lemma crc32_tab_bits: "crc32_tab = map (\<lambda>i. (crc_bit ^^ 8) (of_nat i)) [0..<256]"
proof -
  have "map (\<lambda>i. (crc_bit ^^ 8) (of_nat i)) [0..<256] =
      map word_of_int (map (\<lambda>i. (crc_bit_int ^^ 8) (int i)) [0..<256])"
    unfolding map_map
  proof (rule map_cong[OF refl])
    fix i assume "i \<in> set [0..<256::nat]"
    then have "0 \<le> int i" "int i < 2 ^ 32" by simp_all
    from crc_bits_word_of_int[OF this, of 8]
    show "(crc_bit ^^ 8) (of_nat i) = (word_of_int \<circ> (\<lambda>i. (crc_bit_int ^^ 8) (int i))) i"
      by (simp del: funpow.simps)
  qed
  also have "\<dots> = crc32_tab" by (simp only: crc_table_int crc32_tab_def list.map of_int_numeral of_int_0)
  finally show ?thesis by (rule sym)
qed

lemma length_crc32_tab: "length crc32_tab = 256" by (simp only: crc32_tab_bits) simp

lemma crc_bit_xor: "crc_bit (xor a b) = xor (crc_bit a) (crc_bit b)"
  by (rule bit_word_eqI) (auto simp: crc_bit_def bit_xor_iff bit_drop_bit_eq)

lemma crc_bits_xor: "(crc_bit ^^ n) (xor a b) = xor ((crc_bit ^^ n) a) ((crc_bit ^^ n) b)"
  by (induction n) (simp_all add: crc_bit_xor)

text \<open>Zero bits at the bottom are just shifted out.\<close>

lemma crc_bits_low_zero:
  assumes "\<forall>i<n. \<not> bit c i"
  shows "(crc_bit ^^ n) c = drop_bit n c"
  using assms
proof (induction n arbitrary: c)
  case (Suc n)
  then have "crc_bit c = drop_bit 1 c" by (simp add: crc_bit_def)
  moreover have "\<forall>i<n. \<not> bit (drop_bit 1 c) i" using Suc.prems by (simp add: bit_drop_bit_eq)
  ultimately show ?case using Suc.IH[of "drop_bit 1 c"] by (simp add: funpow_Suc_right del: funpow.simps)
qed simp

lemma byte_mask: "(0xFF :: u32) = mask 8" by (simp add: mask_eq_exp_minus_1)

lemma crc_byte_split: "xor (and c 0xFF) (push_bit 8 (drop_bit 8 c)) = (c :: u32)"
  unfolding byte_mask
  by (rule bit_word_eqI) (auto simp: bit_xor_iff bit_and_iff bit_mask_iff bit_push_bit_iff bit_drop_bit_eq)

lemma table_lookup: "crc32_tab ! unat (and c 0xFF) = (crc_bit ^^ 8) (and c 0xFF)"
proof -
  have "and c 0xFF \<le> (0xFF :: u32)" by (rule word_and_le1)
  then have "unat (and c 0xFF) < 256" by (simp add: word_le_nat_alt)
  then show ?thesis by (simp only: crc32_tab_bits) simp
qed

lemma drop_push_drop: "drop_bit 8 (push_bit 8 (drop_bit 8 x)) = drop_bit 8 (x :: u32)"
  by (rule bit_word_eqI) (auto simp: bit_drop_bit_eq bit_push_bit_iff dest: bit_imp_le_length)

text \<open>A step of the table-driven loop is eight steps of the division.\<close>

lemma crc32_byte_bits: "crc32_byte c p = (crc_bit ^^ 8) (xor c (ucast p))"
proof -
  let ?x = "xor c (ucast p)"
  have hi: "drop_bit 8 ?x = drop_bit 8 c"
    by (rule bit_word_eqI) (auto simp: bit_drop_bit_eq bit_xor_iff bit_ucast_iff dest: bit_imp_le_length)
  have "(crc_bit ^^ 8) ?x = xor ((crc_bit ^^ 8) (and ?x 0xFF)) ((crc_bit ^^ 8) (push_bit 8 (drop_bit 8 ?x)))"
    using crc_bits_xor[of 8 "and ?x 0xFF" "push_bit 8 (drop_bit 8 ?x)"] by (simp only: crc_byte_split)
  moreover have "(crc_bit ^^ 8) (push_bit 8 (drop_bit 8 ?x)) = drop_bit 8 (push_bit 8 (drop_bit 8 ?x))"
    by (rule crc_bits_low_zero) (auto simp: bit_push_bit_iff simp del: push_bit_xor)
  moreover have "drop_bit 8 (push_bit 8 (drop_bit 8 ?x)) = drop_bit 8 ?x"
    by (rule drop_push_drop)
  ultimately show ?thesis using hi by (simp add: crc32_byte_def table_lookup del: funpow.simps)
qed

text \<open>
  C15: the table-driven \<open>sparse_crc32\<close> computes the CRC-32 of the reflected 802.3 polynomial: for
  every buffer and starting value it equals the bit-by-bit division.
\<close>

theorem sparse_crc32_equivalent: "sparse_crc32 crc buf = crc32_bitwise crc buf"
proof -
  have "foldl crc32_byte c buf = foldl (\<lambda>c p. (crc_bit ^^ 8) (xor c (ucast p))) c buf" for c
    by (rule foldl_cong) (simp_all only: crc32_byte_bits)
  then show ?thesis by (simp only: sparse_crc32_def crc32_bitwise_def)
qed

section \<open>Pieces\<close>

lemma xor_not_not [simp]: "xor (xor c (not 0)) (not 0) = (c :: u32)"
  by (simp add: xor.assoc)

lemma sparse_crc32_append: "sparse_crc32 crc (xs @ ys) = sparse_crc32 (sparse_crc32 crc xs) ys"
  by (simp add: sparse_crc32_def)

lemma sparse_crc32_Nil [simp]: "sparse_crc32 crc [] = crc"
  by (simp add: sparse_crc32_def)

section \<open>Error detection\<close>

lemma xor_cancel_left: "xor c a = xor c b \<longleftrightarrow> a = (b :: u32)"
proof
  assume "xor c a = xor c b"
  then have "xor c (xor c a) = xor c (xor c b)" by simp
  then show "a = b" by (simp only: xor.assoc[symmetric] xor_self_eq xor.left_neutral)
qed simp

lemma xor_eq_0: "xor a b = 0 \<longleftrightarrow> a = (b :: u32)"
  using xor_cancel_left[of a b a] by auto

lemma crc_bit_zero:
  assumes "crc_bit d = 0"
  shows "d = 0"
proof -
  have top: "\<not> bit (drop_bit 1 d) 31" by (auto simp: bit_drop_bit_eq dest: bit_imp_le_length)
  have low: "\<not> bit d 0"
  proof
    assume "bit d 0"
    then have "xor (drop_bit 1 d) 0xEDB88320 = 0" using assms by (simp add: crc_bit_def)
    then have "drop_bit 1 d = 0xEDB88320" by (simp only: xor_eq_0)
    with top show False by simp
  qed
  then have z: "drop_bit 1 d = 0" using assms by (simp only: crc_bit_def if_False)
  have "\<not> bit d n" for n
  proof (cases n)
    case 0
    with low show ?thesis by simp
  next
    case (Suc k)
    from z have "\<not> bit (drop_bit 1 d) k" by simp
    with Suc show ?thesis by (simp only: bit_drop_bit_eq comp_apply plus_1_eq_Suc) simp
  qed
  then show ?thesis by (intro bit_word_eqI) simp
qed

lemma crc_bit_inj: "crc_bit a = crc_bit b \<Longrightarrow> a = b"
  using crc_bit_zero[of "xor a b"] by (simp only: crc_bit_xor xor_self_eq xor_eq_0 simp_thms)

lemma crc_bits_inj: "(crc_bit ^^ n) a = (crc_bit ^^ n) b \<Longrightarrow> a = b"
  by (induction n) (auto dest: crc_bit_inj)

lemma crc32_bytes_inj: "foldl crc32_byte a bs = foldl crc32_byte b bs \<Longrightarrow> a = b"
proof (induction bs arbitrary: a b)
  case (Cons p bs)
  then have "crc32_byte a p = crc32_byte b p" by simp
  then have "xor a (ucast p) = xor b (ucast p)" unfolding crc32_byte_bits by (rule crc_bits_inj)
  then show ?case by (simp only: xor.commute[of _ "ucast p"] xor_cancel_left)
qed simp

fun le_word :: "u8 list \<Rightarrow> u32" where
  "le_word [] = 0"
| "le_word (p # ps) = xor (ucast p) (push_bit 8 (le_word ps))"

lemma bit_le_word_high: "8 * length ps \<le> n \<Longrightarrow> \<not> bit (le_word ps) n"
proof (induction ps arbitrary: n)
  case (Cons p ps)
  then have "\<not> bit p n" by (auto dest: bit_imp_le_length)
  moreover have "\<not> bit (le_word ps) (n - 8)" using Cons.prems by (intro Cons.IH) simp
  ultimately show ?case by (auto simp: bit_xor_iff bit_ucast_iff bit_push_bit_iff)
qed simp

lemma bit_le_word_low: "n < 8 \<Longrightarrow> bit (le_word (p # ps)) n = bit p n"
  by (simp add: bit_xor_iff bit_ucast_iff bit_push_bit_iff)

lemma drop_le_word:
  assumes "length ps \<le> 3"
  shows "drop_bit 8 (push_bit 8 (le_word ps)) = le_word ps"
proof (rule bit_word_eqI)
  fix n assume "n < LENGTH(32)"
  show "bit (drop_bit 8 (push_bit 8 (le_word ps))) n = bit (le_word ps) n"
  proof (cases "n + 8 < 32")
    case True
    then show ?thesis by (simp add: bit_drop_bit_eq bit_push_bit_iff)
  next
    case False
    then have "\<not> bit (le_word ps) n" using assms by (intro bit_le_word_high) simp
    with False show ?thesis by (auto simp: bit_drop_bit_eq dest: bit_imp_le_length)
  qed
qed

text \<open>Up to four bytes are absorbed as one word.\<close>

lemma crc32_bytes_word:
  assumes "length ps \<le> 4"
  shows "foldl crc32_byte c ps = (crc_bit ^^ (8 * length ps)) (xor c (le_word ps))"
  using assms
proof (induction ps arbitrary: c)
  case (Cons p ps)
  let ?w = "le_word ps"
  have l: "length ps \<le> 3" using Cons.prems by simp
  have "(crc_bit ^^ 8) (push_bit 8 ?w) = ?w"
    using crc_bits_low_zero[of 8 "push_bit 8 ?w"] drop_le_word[OF l] by (simp add: bit_push_bit_iff)
  then have "xor (crc32_byte c p) ?w = (crc_bit ^^ 8) (xor c (le_word (p # ps)))"
    unfolding crc32_byte_bits by (simp add: crc_bits_xor xor.assoc del: funpow.simps)
  moreover have "foldl crc32_byte (crc32_byte c p) ps = (crc_bit ^^ (8 * length ps)) (xor (crc32_byte c p) ?w)"
    using Cons.IH Cons.prems by simp
  ultimately have "foldl crc32_byte c (p # ps) =
      (crc_bit ^^ (8 * length ps)) ((crc_bit ^^ 8) (xor c (le_word (p # ps))))" by simp
  also have "\<dots> = (crc_bit ^^ (8 * length (p # ps))) (xor c (le_word (p # ps)))"
    by (simp only: funpow_add[symmetric, THEN fun_cong, unfolded comp_apply]) (simp add: add.commute)
  finally show ?case .
qed simp

lemma le_word_inj:
  assumes "le_word ps = le_word qs" "length ps = length qs" "length ps \<le> 4"
  shows "ps = qs"
  using assms
proof (induction ps arbitrary: qs)
  case (Cons p ps)
  then obtain q qs' where qs: "qs = q # qs'" by (cases qs) auto
  have low: "bit p n = bit q n" if "n < 8" for n
    using bit_le_word_low[OF that, of p ps] bit_le_word_low[OF that, of q qs'] Cons.prems(1) unfolding qs
    by (simp only:)
  then have pq: "p = q" by (intro bit_word_eqI) simp
  have "push_bit 8 (le_word ps) = push_bit 8 (le_word qs')"
    using Cons.prems(1)[unfolded qs pq le_word.simps] by (rule xor_cancel_left[THEN iffD1])
  then have w: "drop_bit 8 (push_bit 8 (le_word ps)) = drop_bit 8 (push_bit 8 (le_word qs'))"
    by (rule arg_cong)
  have len: "length ps \<le> 3" "length qs' \<le> 3" "length ps = length qs'" "length ps \<le> 4"
    using Cons.prems(2,3) unfolding qs by simp_all
  have "le_word ps = le_word qs'"
    using w unfolding drop_le_word[OF len(1)] drop_le_word[OF len(2)] .
  from Cons.IH[OF this len(3,4)] show ?case by (simp only: pq qs)
qed simp

text \<open>
  C16: a change confined to at most four consecutive bytes of an image always changes its
  \<open>sparse_crc32\<close>, whatever surrounds it and whatever the starting value.
\<close>

theorem sparse_crc32_detects_burst:
  assumes "length mid = length mid'" "length mid \<le> 4" "mid \<noteq> mid'"
  shows "sparse_crc32 crc (pre @ mid @ post) \<noteq> sparse_crc32 crc (pre @ mid' @ post)"
proof
  assume e: "sparse_crc32 crc (pre @ mid @ post) = sparse_crc32 crc (pre @ mid' @ post)"
  let ?c = "foldl crc32_byte (xor crc (not 0)) pre"
  have "foldl crc32_byte (foldl crc32_byte ?c mid) post = foldl crc32_byte (foldl crc32_byte ?c mid') post"
    using arg_cong[OF e, of "\<lambda>w. xor w (not 0)"] by (simp add: sparse_crc32_def)
  then have "foldl crc32_byte ?c mid = foldl crc32_byte ?c mid'" by (rule crc32_bytes_inj)
  then have "xor ?c (le_word mid) = xor ?c (le_word mid')"
    unfolding crc32_bytes_word[OF assms(2)] crc32_bytes_word[OF assms(2)[unfolded assms(1)]]
    unfolding assms(1) by (rule crc_bits_inj)
  then have "le_word mid = le_word mid'" by (simp only: xor_cancel_left)
  with le_word_inj assms show False by blast
qed

theorem sparse_crc32_detects_burst_witness:
  "sparse_crc32 0 [1, 2, 3, 4, 5] \<noteq> sparse_crc32 0 [1, 2, 7, 4, 5]"
  using sparse_crc32_detects_burst[of "[3]" "[7]" 0 "[1, 2]" "[4, 5]"] by simp

end
