(* ===== verification/SpOutput.thy ===== *)
theory SpOutput imports SpFormat SpCrc begin

text \<open>
  \<open>libsparse/output_file.cpp\<close>: writing the chunks of an image, in the sparse format or expanded,
  through a table of functions that reach a file or a callback. \<open>size_t\<close>, \<open>int64_t\<close> and \<open>uint64_t\<close>
  are 64 bit words, an \<open>int\<close> result is an integer. \<open>zero_buf\<close> always holds zeros and \<open>fill_buf\<close> is
  filled before each use, so the writers take their bytes from \<open>replicate\<close> and \<open>fill_bytes\<close>. The
  \<open>gz\<close> functions call zlib and are not modelled; \<open>calloc\<close> succeeds.
\<close>

section \<open>State\<close>

record 's output_file_ops =
  op_skip :: "u64 \<Rightarrow> 's \<Rightarrow> int \<times> 's"
  op_pad :: "u64 \<Rightarrow> 's \<Rightarrow> int \<times> 's"
  op_write :: "u8 list \<Rightarrow> 's \<Rightarrow> int \<times> 's"

text \<open>
  \<open>of_sink\<close> is what the \<open>container_of\<close> structure keeps behind the functions: the descriptor or the
  callback's private state. \<open>of_sparse\<close> says which of the two chunk tables \<open>sparse_ops\<close> points to.
\<close>

record 's output_file =
  of_sink :: 's
  of_ops :: "'s output_file_ops"
  of_sparse :: bool
  cur_out_ptr :: u64
  chunk_cnt :: u32
  of_crc32 :: u32
  use_crc :: bool
  of_block_size :: u32
  of_len :: u64

type_synonym 's step = "'s output_file \<Rightarrow> (int \<times> 's output_file) run"

text \<open>
  The system the writers read from: \<open>mmap\<close> of a page-aligned range of a descriptor (the error number, or
  the bytes of the mapping), \<open>open\<close> of a file name (the descriptor, or minus the error number) and the
  page size.
\<close>

record env =
  env_mmap :: "nat \<Rightarrow> u64 \<Rightarrow> u64 \<Rightarrow> int + u8 list"
  env_open :: "string \<Rightarrow> int"
  env_page_size :: u64

definition FILL_ZERO_BUFSIZE :: nat where "FILL_ZERO_BUFSIZE = 2 * 1024 * 1024"
definition kMaxMmapSize :: u64 where "kMaxMmapSize = 256 * 1024 * 1024"
definition INT_MAX :: int where "INT_MAX = 2147483647"
definition EINVAL :: int where "EINVAL = 22"
definition ENOMEM :: int where "ENOMEM = 12"
definition EOVERFLOW :: int where "EOVERFLOW = 75"

definition div_round_up :: "u64 \<Rightarrow> u64 \<Rightarrow> u64" where
  "div_round_up x y = (x + y - 1) div y"

definition align_up :: "u64 \<Rightarrow> u64 \<Rightarrow> u64" where
  "align_up x y = y * div_round_up x y"

text \<open>
  \<open>DIV_ROUND_UP\<close> of an \<open>int64_t\<close> by an unsigned block size, and the product \<open>(int64_t)a * b\<close> of two
  unsigned numbers: both are computed in \<open>int64_t\<close>.
\<close>

definition signed_div_round_up :: "u64 \<Rightarrow> u32 \<Rightarrow> int run" where
  "signed_div_round_up x y =
     (let d = int (unat y); n = sint x + d - 1
      in if d = 0 then Inl DivisionByZero
         else if sint x + d \<ge> 2 ^ 63 then Inl SignedOverflow
         else Inr (if n < 0 then - (- n div d) else n div d))"

definition mul_int64 :: "u32 \<Rightarrow> u32 \<Rightarrow> u64 run" where
  "mul_int64 a b = (if unat a * unat b < 2 ^ 63 then Inr (ucast a * ucast b) else Inl SignedOverflow)"

text \<open>The sizes that a loop \<open>while (len) { n = min(len, limit); ...; len -= n; }\<close> goes through.\<close>

function pieces :: "nat \<Rightarrow> nat \<Rightarrow> nat list" where
  "pieces limit n = (if n = 0 \<or> limit = 0 then [] else min n limit # pieces limit (n - min n limit))"
  by auto
termination by (relation "measure snd") auto

declare pieces.simps [simp del]

text \<open>The first \<open>k\<close> bytes of a buffer filled with a 32 bit value.\<close>

definition fill_bytes :: "u32 \<Rightarrow> nat \<Rightarrow> u8 list" where
  "fill_bytes v k = map (\<lambda>i. enc32 v ! (i mod 4)) [0..<k]"

definition zero_pieces :: "nat \<Rightarrow> u8 list list" where
  "zero_pieces n = map (\<lambda>k. replicate k 0) (pieces FILL_ZERO_BUFSIZE n)"

section \<open>Combinators\<close>

text \<open>One call of \<open>ops->write\<close>; on a negative result the caller returns \<open>err\<close> of it.\<close>

definition do_write :: "u8 list \<Rightarrow> 's output_file \<Rightarrow> int \<times> 's output_file" where
  "do_write data out =
     (let (ret, s) = op_write (of_ops out) data (of_sink out) in (ret, out\<lparr>of_sink := s\<rparr>))"

definition emit :: "u8 list \<Rightarrow> (int \<Rightarrow> int) \<Rightarrow> 's step \<Rightarrow> 's step" where
  "emit data err k out =
     (let (ret, out') = do_write data out in if ret < 0 then Inr (err ret, out') else k out')"

fun emit_all :: "u8 list list \<Rightarrow> (int \<Rightarrow> int) \<Rightarrow> 's step \<Rightarrow> 's step" where
  "emit_all [] err k = k"
| "emit_all (d # ds) err k = emit d err (emit_all ds err k)"

definition minus_one :: "int \<Rightarrow> int" where "minus_one ret = - 1"

text \<open>Reading \<open>len\<close> bytes through a pointer; every block size that is divided by is not zero.\<close>

definition with_data :: "u8 list \<Rightarrow> u64 \<Rightarrow> (u8 list \<Rightarrow> 's step) \<Rightarrow> 's step" where
  "with_data data len k out = (if unat len \<le> length data then k (take (unat len) data) out else Inl OutOfRange)"

definition with_blocks :: "'s step \<Rightarrow> 's step" where
  "with_blocks k out = (if of_block_size out = 0 then Inl DivisionByZero else k out)"

definition add_crc :: "u8 list \<Rightarrow> 's output_file \<Rightarrow> 's output_file" where
  "add_crc data out = (if use_crc out then out\<lparr>of_crc32 := sparse_crc32 (of_crc32 out) data\<rparr> else out)"

definition finish_chunk :: "u64 \<Rightarrow> 's step" where
  "finish_chunk n out = Inr (0, out\<lparr>cur_out_ptr := cur_out_ptr out + n, chunk_cnt := chunk_cnt out + 1\<rparr>)"

section \<open>Mapping a descriptor\<close>

text \<open>
  \<open>MappedFile::FromFd\<close> of \<open>libbase\<close>: the mapping starts at a page boundary, \<open>data()\<close> is \<open>slop\<close> bytes
  behind its start.
\<close>

definition MappedFile_FromFd :: "env \<Rightarrow> nat \<Rightarrow> u64 \<Rightarrow> u64 \<Rightarrow> u8 list option" where
  "MappedFile_FromFd env fd offset size0 =
     (let slop = offset mod env_page_size env;
          file_offset = offset - slop;
          file_length = size0 + slop
      in case env_mmap env fd file_offset file_length of
           Inl errno \<Rightarrow> if errno = EINVAL \<and> size0 = 0 then Some [] else None
         | Inr base \<Rightarrow> Some (take (unat size0) (drop (unat slop) base)))"

function write_fd_chunk_range ::
  "env \<Rightarrow> nat \<Rightarrow> u64 \<Rightarrow> u64 \<Rightarrow> (u8 list \<Rightarrow> 'a \<Rightarrow> bool \<times> 'a) \<Rightarrow> 'a \<Rightarrow> bool \<times> 'a" where
  "write_fd_chunk_range env fd current_offset remaining callback st =
     (if remaining = 0 then (True, st)
      else let mmap_size = min kMaxMmapSize remaining
           in case MappedFile_FromFd env fd current_offset mmap_size of
                None \<Rightarrow> (False, st)
              | Some data \<Rightarrow>
                  let (ok, st') = callback data st
                  in if \<not> ok then (False, st')
                     else write_fd_chunk_range env fd (current_offset + mmap_size) (remaining - mmap_size)
                            callback st')"
  by auto
termination
proof (relation "measure (\<lambda>(_, _, _, n, _, _). unat n)", goal_cases)
  case (2 env fd offset remaining callback st x y z ok st')
  have "min kMaxMmapSize remaining \<le> remaining" by simp
  then have "unat (remaining - min kMaxMmapSize remaining) =
      unat remaining - unat (min kMaxMmapSize remaining)"
    by (simp add: unat_sub word_le_nat_alt)
  moreover have "0 < unat (min kMaxMmapSize remaining)"
    using 2 by (simp add: min_def kMaxMmapSize_def word_neq_0_conv word_less_nat_alt)
  moreover have "0 < unat remaining" using 2 by (simp add: word_neq_0_conv word_less_nat_alt)
  ultimately show ?case using 2 by simp
qed simp

declare write_fd_chunk_range.simps [simp del]

section \<open>Chunks of the sparse format\<close>

definition chunk_image :: "u16 \<Rightarrow> u32 \<Rightarrow> u32 \<Rightarrow> u8 list" where
  "chunk_image ty chunk_sz total_sz = enc_chunk_header
     \<lparr>ch_chunk_type = ty, ch_reserved1 = 0, ch_chunk_sz = chunk_sz, ch_total_sz = total_sz\<rparr>"

definition write_sparse_skip_chunk :: "u64 \<Rightarrow> 's step" where
  "write_sparse_skip_chunk skip_len = with_blocks (\<lambda>out.
     let bs = ucast (of_block_size out)
     in if skip_len mod bs \<noteq> 0 then Inr (- 1, out)
        else emit (chunk_image CHUNK_TYPE_DONT_CARE (ucast (skip_len div bs)) (of_nat CHUNK_HEADER_LEN))
               minus_one (finish_chunk skip_len) out)"

definition write_sparse_fill_chunk :: "u64 \<Rightarrow> u32 \<Rightarrow> 's step" where
  "write_sparse_fill_chunk len fill_val = with_blocks (\<lambda>out.
     let bs = ucast (of_block_size out); rnd_up_len = align_up len bs
     in emit (chunk_image CHUNK_TYPE_FILL (ucast (rnd_up_len div bs)) (of_nat (CHUNK_HEADER_LEN + 4)))
          minus_one
          (emit (enc32 fill_val) minus_one (\<lambda>out.
             let count = unat (of_block_size out) div 4
             in finish_chunk rnd_up_len (((add_crc (enc32 fill_val)) ^^ count) out))) out)"

definition write_sparse_data_chunk :: "u64 \<Rightarrow> u8 list \<Rightarrow> 's step" where
  "write_sparse_data_chunk len data = with_blocks (\<lambda>out.
     let bs = ucast (of_block_size out); rnd_up_len = align_up len bs;
         zeros = zero_pieces (unat (rnd_up_len - len))
     in emit (chunk_image CHUNK_TYPE_RAW (ucast (rnd_up_len div bs)) (of_nat CHUNK_HEADER_LEN + ucast rnd_up_len))
          minus_one
          (with_data data len (\<lambda>d. emit d minus_one
             (emit_all zeros id (\<lambda>out. finish_chunk rnd_up_len (fold add_crc zeros (add_crc d out)))))) out)"

definition write_sparse_fd_chunk :: "env \<Rightarrow> u64 \<Rightarrow> nat \<Rightarrow> u64 \<Rightarrow> 's step" where
  "write_sparse_fd_chunk env len fd offset = with_blocks (\<lambda>out.
     let bs = ucast (of_block_size out); rnd_up_len = align_up len bs;
         zeros = zero_pieces (unat (rnd_up_len - len))
     in emit (chunk_image CHUNK_TYPE_RAW (ucast (rnd_up_len div bs)) (of_nat CHUNK_HEADER_LEN + ucast rnd_up_len))
          minus_one
          (\<lambda>out.
             let (ok, out') = write_fd_chunk_range env fd offset len
                   (\<lambda>data out. let (ret, out') = do_write data out
                               in if ret < 0 then (False, out') else (True, add_crc data out')) out
             in if \<not> ok then Inr (- 1, out')
                else emit_all zeros id (\<lambda>out. finish_chunk rnd_up_len (fold add_crc zeros out)) out') out)"

text \<open>The result of writing the crc itself is not looked at.\<close>

definition write_sparse_end_chunk :: "'s step" where
  "write_sparse_end_chunk out =
     (if use_crc out
      then emit (chunk_image CHUNK_TYPE_CRC32 0 (of_nat (CHUNK_HEADER_LEN + 4))) id (\<lambda>out.
             let (_, out') = do_write (enc32 (of_crc32 out)) out
             in Inr (0, out'\<lparr>chunk_cnt := chunk_cnt out' + 1\<rparr>)) out
      else Inr (0, out))"

section \<open>Expanded output\<close>

definition do_skip :: "u64 \<Rightarrow> 's step" where
  "do_skip n out =
     (let (ret, s) = op_skip (of_ops out) n (of_sink out) in Inr (ret, out\<lparr>of_sink := s\<rparr>))"

definition write_normal_data_chunk :: "u64 \<Rightarrow> u8 list \<Rightarrow> 's step" where
  "write_normal_data_chunk len data = with_blocks (\<lambda>out.
     let rnd_up_len = align_up len (ucast (of_block_size out))
     in with_data data len (\<lambda>d out.
          let (ret, out') = do_write d out
          in if ret < 0 then Inr (ret, out')
             else if rnd_up_len > len then do_skip (rnd_up_len - len) out'
             else Inr (ret, out')) out)"

definition write_normal_fill_chunk :: "u64 \<Rightarrow> u32 \<Rightarrow> 's step" where
  "write_normal_fill_chunk len fill_val =
     emit_all (map (fill_bytes fill_val) (pieces FILL_ZERO_BUFSIZE (unat len))) id (\<lambda>out. Inr (0, out))"

text \<open>\<open>ret\<close> is assigned by the callback only: \<open>None\<close> until then.\<close>

definition return_ret :: "int option \<Rightarrow> 's step" where
  "return_ret ret out = (case ret of None \<Rightarrow> Inl UninitialisedRead | Some r \<Rightarrow> Inr (r, out))"

definition write_normal_fd_chunk :: "env \<Rightarrow> u64 \<Rightarrow> nat \<Rightarrow> u64 \<Rightarrow> 's step" where
  "write_normal_fd_chunk env len fd offset = with_blocks (\<lambda>out.
     let rnd_up_len = align_up len (ucast (of_block_size out));
         (ok, ret, out') = write_fd_chunk_range env fd offset len
           (\<lambda>data (_, out). let (r, out') = do_write data out in (r \<ge> 0, Some r, out')) (None, out)
     in if \<not> ok then return_ret ret out'
        else if rnd_up_len > len then do_skip (rnd_up_len - len) out'
        else return_ret ret out')"

definition write_normal_skip_chunk :: "u64 \<Rightarrow> 's step" where
  "write_normal_skip_chunk = do_skip"

definition write_normal_end_chunk :: "'s step" where
  "write_normal_end_chunk out =
     (let (ret, s) = op_pad (of_ops out) (of_len out) (of_sink out) in Inr (ret, out\<lparr>of_sink := s\<rparr>))"

section \<open>The interface\<close>

definition write_data_chunk :: "u64 \<Rightarrow> u8 list \<Rightarrow> 's step" where
  "write_data_chunk len data out =
     (if of_sparse out then write_sparse_data_chunk len data out else write_normal_data_chunk len data out)"

definition write_fill_chunk :: "u64 \<Rightarrow> u32 \<Rightarrow> 's step" where
  "write_fill_chunk len fill_val out =
     (if of_sparse out then write_sparse_fill_chunk len fill_val out
      else write_normal_fill_chunk len fill_val out)"

definition write_fd_chunk :: "env \<Rightarrow> u64 \<Rightarrow> nat \<Rightarrow> u64 \<Rightarrow> 's step" where
  "write_fd_chunk env len fd offset out =
     (if of_sparse out then write_sparse_fd_chunk env len fd offset out
      else write_normal_fd_chunk env len fd offset out)"

definition write_file_chunk :: "env \<Rightarrow> u64 \<Rightarrow> string \<Rightarrow> u64 \<Rightarrow> 's step" where
  "write_file_chunk env len file offset out =
     (let file_fd = env_open env file
      in if file_fd < 0 then Inr (file_fd, out) else write_fd_chunk env len (nat file_fd) offset out)"

definition write_skip_chunk :: "u64 \<Rightarrow> 's step" where
  "write_skip_chunk len out =
     (if of_sparse out then write_sparse_skip_chunk len out else write_normal_skip_chunk len out)"

definition write_end_chunk :: "'s step" where
  "write_end_chunk out = (if of_sparse out then write_sparse_end_chunk out else write_normal_end_chunk out)"

text \<open>\<open>output_file_close\<close> ignores the result of the end chunk; what remains is the sink.\<close>

definition output_file_close :: "'s output_file \<Rightarrow> 's run" where
  "output_file_close out = bind_run (write_end_chunk out) (\<lambda>(_, out'). Inr (of_sink out'))"

text \<open>\<open>output_file_init\<close>: \<open>Inl\<close> is a null file, with the sink as it was left.\<close>

definition sparse_header_of :: "u32 \<Rightarrow> u32 \<Rightarrow> u32 \<Rightarrow> bool \<Rightarrow> sparse_header" where
  "sparse_header_of block_size total_blks chunks crc =
     \<lparr>sh_magic = SPARSE_HEADER_MAGIC, sh_major_version = 1, sh_minor_version = 0,
      sh_file_hdr_sz = of_nat SPARSE_HEADER_LEN, sh_chunk_hdr_sz = of_nat CHUNK_HEADER_LEN,
      sh_blk_sz = block_size, sh_total_blks = total_blks,
      sh_total_chunks = (if crc then chunks + 1 else chunks), sh_image_checksum = 0\<rparr>"

definition output_file_init ::
  "'s output_file_ops \<Rightarrow> 's \<Rightarrow> u32 \<Rightarrow> u64 \<Rightarrow> bool \<Rightarrow> u32 \<Rightarrow> bool \<Rightarrow> ('s + 's output_file) run" where
  "output_file_init ops s block_size len sparse chunks crc =
     (let out = \<lparr>of_sink = s, of_ops = ops, of_sparse = sparse, cur_out_ptr = 0, chunk_cnt = 0,
                 of_crc32 = 0, use_crc = crc, of_block_size = block_size, of_len = len\<rparr>
      in if \<not> sparse then Inr (Inr out)
         else bind_run (signed_div_round_up len block_size) (\<lambda>blks.
                let (ret, out') = do_write (enc_sparse_header
                      (sparse_header_of block_size (word_of_int blks) chunks crc)) out
                in if ret < 0 then Inr (Inl (of_sink out')) else Inr (Inr out')))"

end
