(* ===== verification/SpBlocks.thy ===== *)
theory SpBlocks imports LpPrelude begin

text \<open>
  \<open>libsparse/backed_block.cpp\<close>: the sorted list of blocks of a sparse file, each backed by
  memory, a file, a descriptor or a fill value. The linked list is a list; a pointer into it
  (\<open>last_used\<close>, the argument of \<open>backed_block_split\<close>) is a position. \<open>calloc\<close>, \<open>malloc\<close> and
  \<open>strdup\<close> succeed. The data a \<open>void*\<close> points to is the list of the bytes from there on; an
  \<open>int64_t\<close> offset is a 64 bit word.
\<close>

section \<open>State\<close>

datatype backing =
    BB_DATA (data_ptr: "u8 list")
  | BB_FILE (file_name: string) (backing_offset: u64)
  | BB_FD (fd_number: nat) (backing_offset: u64)
  | BB_FILL (fill_value: u32)

datatype backed_block_type = BACKED_BLOCK_DATA | BACKED_BLOCK_FILE | BACKED_BLOCK_FD | BACKED_BLOCK_FILL

fun type_of :: "backing \<Rightarrow> backed_block_type" where
  "type_of (BB_DATA _) = BACKED_BLOCK_DATA"
| "type_of (BB_FILE _ _) = BACKED_BLOCK_FILE"
| "type_of (BB_FD _ _) = BACKED_BLOCK_FD"
| "type_of (BB_FILL _) = BACKED_BLOCK_FILL"

record backed_block =
  bb_block :: u32
  bb_len :: u64
  bb_backing :: backing

record backed_block_list =
  bbl_blocks :: "backed_block list"
  bbl_last_used :: "nat option"
  bbl_block_size :: u32

definition backed_block_list_new :: "u32 \<Rightarrow> backed_block_list" where
  "backed_block_list_new block_size = \<lparr>bbl_blocks = [], bbl_last_used = None, bbl_block_size = block_size\<rparr>"

section \<open>Queueing\<close>

text \<open>
  \<open>merge_bb\<close>: \<open>None\<close> is \<open>-EINVAL\<close>, after which both blocks stay; \<open>Some\<close> is the merged block. The
  quotient \<open>len / block_size\<close> is stored in an \<open>unsigned int\<close>.
\<close>

definition mergeable_backing :: "backed_block \<Rightarrow> backed_block \<Rightarrow> bool" where
  "mergeable_backing a b \<longleftrightarrow>
     (case (bb_backing a, bb_backing b) of
        (BB_FILL v, BB_FILL w) \<Rightarrow> v = w
      | (BB_FILE f x, BB_FILE g y) \<Rightarrow> f = g \<and> x + bb_len a = y
      | (BB_FD f x, BB_FD g y) \<Rightarrow> f = g \<and> x + bb_len a = y
      | _ \<Rightarrow> False)"

definition merge_bb :: "u32 \<Rightarrow> backed_block \<Rightarrow> backed_block option \<Rightarrow> backed_block option run" where
  "merge_bb block_size a next =
     (case next of None \<Rightarrow> Inr None | Some b \<Rightarrow>
      check (bb_block a < bb_block b)
       (if type_of (bb_backing a) \<noteq> type_of (bb_backing b) then Inr None
        else if block_size = 0 then Inl DivisionByZero
        else if bb_block a + ucast (bb_len a div ucast block_size) \<noteq> bb_block b then Inr None
        else if \<not> mergeable_backing a b then Inr None
        else Inr (Some (a\<lparr>bb_len := bb_len a + bb_len b\<rparr>))))"

definition elem_at :: "'a list \<Rightarrow> nat \<Rightarrow> 'a option" where
  "elem_at xs i = (if i < length xs then Some (xs ! i) else None)"

text \<open>Replacing the elements at positions \<open>i\<close> and \<open>i + 1\<close> by one, when the merge succeeds.\<close>

definition merge_at :: "u32 \<Rightarrow> backed_block list \<Rightarrow> nat \<Rightarrow> backed_block list option run" where
  "merge_at block_size blocks i =
     bind_run (merge_bb block_size (blocks ! i) (elem_at blocks (Suc i))) (\<lambda>m.
       Inr (map_option (\<lambda>ab. take i blocks @ ab # drop (i + 2) blocks) m))"

text \<open>The search loop: advance while the next block starts below the new one.\<close>

definition seek_from :: "backed_block list \<Rightarrow> u32 \<Rightarrow> nat \<Rightarrow> nat" where
  "seek_from blocks block i = i + length (takeWhile (\<lambda>b. bb_block b < block) (drop (Suc i) blocks))"

definition seek_start :: "backed_block_list \<Rightarrow> u32 \<Rightarrow> nat" where
  "seek_start bbl block =
     (case bbl_last_used bbl of
        None \<Rightarrow> 0
      | Some k \<Rightarrow> if block > bb_block (bbl_blocks bbl ! k) then k else 0)"

definition queue_bb :: "backed_block_list \<Rightarrow> backed_block \<Rightarrow> backed_block_list run" where
  "queue_bb bbl new_bb =
     (let blocks = bbl_blocks bbl in
      case blocks of
        [] \<Rightarrow> Inr (bbl\<lparr>bbl_blocks := [new_bb]\<rparr>)
      | first # _ \<Rightarrow>
          if bb_block first > bb_block new_bb
          then Inr (bbl\<lparr>bbl_blocks := new_bb # blocks, bbl_last_used := map_option Suc (bbl_last_used bbl)\<rparr>)
          else
            let i = seek_from blocks (bb_block new_bb) (seek_start bbl (bb_block new_bb));
                blocks1 = take (Suc i) blocks @ new_bb # drop (Suc i) blocks
            in bind_run (merge_at (bbl_block_size bbl) blocks1 (Suc i)) (\<lambda>m1.
                 let blocks2 = (case m1 of Some l \<Rightarrow> l | None \<Rightarrow> blocks1)
                 in bind_run (merge_at (bbl_block_size bbl) blocks2 i) (\<lambda>m2.
                      case m2 of
                        Some blocks3 \<Rightarrow> Inr (bbl\<lparr>bbl_blocks := blocks3, bbl_last_used := Some i\<rparr>)
                      | None \<Rightarrow> Inr (bbl\<lparr>bbl_blocks := blocks2, bbl_last_used := Some (Suc i)\<rparr>))))"

definition backed_block_add_fill :: "backed_block_list \<Rightarrow> u32 \<Rightarrow> u64 \<Rightarrow> u32 \<Rightarrow> backed_block_list run" where
  "backed_block_add_fill bbl fill_val len block =
     queue_bb bbl \<lparr>bb_block = block, bb_len = len, bb_backing = BB_FILL fill_val\<rparr>"

definition backed_block_add_data :: "backed_block_list \<Rightarrow> u8 list \<Rightarrow> u64 \<Rightarrow> u32 \<Rightarrow> backed_block_list run" where
  "backed_block_add_data bbl data len block =
     queue_bb bbl \<lparr>bb_block = block, bb_len = len, bb_backing = BB_DATA data\<rparr>"

definition backed_block_add_file ::
  "backed_block_list \<Rightarrow> string \<Rightarrow> u64 \<Rightarrow> u64 \<Rightarrow> u32 \<Rightarrow> backed_block_list run" where
  "backed_block_add_file bbl filename offset len block =
     queue_bb bbl \<lparr>bb_block = block, bb_len = len, bb_backing = BB_FILE filename offset\<rparr>"

definition backed_block_add_fd ::
  "backed_block_list \<Rightarrow> nat \<Rightarrow> u64 \<Rightarrow> u64 \<Rightarrow> u32 \<Rightarrow> backed_block_list run" where
  "backed_block_add_fd bbl fd offset len block =
     queue_bb bbl \<lparr>bb_block = block, bb_len = len, bb_backing = BB_FD fd offset\<rparr>"

section \<open>Splitting and moving\<close>

definition advance_backing :: "u32 \<Rightarrow> backing \<Rightarrow> backing" where
  "advance_backing max_len b =
     (case b of
        BB_DATA d \<Rightarrow> BB_DATA (drop (unat max_len) d)
      | BB_FILE f offset \<Rightarrow> BB_FILE f (offset + ucast max_len)
      | BB_FD fd offset \<Rightarrow> BB_FD fd (offset + ucast max_len)
      | BB_FILL v \<Rightarrow> BB_FILL v)"

text \<open>
  \<open>backed_block_split\<close> of the block at position \<open>i\<close>. It does not touch \<open>last_used\<close>: the pointer
  stays on the same block, whose position moves when it is behind the new one.
\<close>

definition align_down :: "u32 \<Rightarrow> u32 \<Rightarrow> u32" where
  "align_down x y = y * (x div y)"

definition split_blocks :: "u32 \<Rightarrow> backed_block \<Rightarrow> u32 \<Rightarrow> backed_block \<times> backed_block" where
  "split_blocks block_size bb max_len =
     (bb\<lparr>bb_len := ucast max_len\<rparr>,
      \<lparr>bb_block = bb_block bb + max_len div block_size, bb_len = bb_len bb - ucast max_len,
       bb_backing = advance_backing max_len (bb_backing bb)\<rparr>)"

definition backed_block_split :: "backed_block_list \<Rightarrow> nat \<Rightarrow> u32 \<Rightarrow> backed_block_list" where
  "backed_block_split bbl i max_len0 =
     (let max_len = align_down max_len0 (bbl_block_size bbl);
          bb = bbl_blocks bbl ! i
      in if bb_len bb \<le> ucast max_len then bbl
         else let (bb', new_bb) = split_blocks (bbl_block_size bbl) bb max_len
              in bbl\<lparr>bbl_blocks := take i (bbl_blocks bbl) @ bb' # new_bb # drop (Suc i) (bbl_blocks bbl),
                     bbl_last_used := map_option (\<lambda>k. if k > i then Suc k else k) (bbl_last_used bbl)\<rparr>)"

text \<open>
  \<open>backed_block_list_move\<close> of the blocks from position \<open>start\<close> (the head when null) to position
  \<open>last\<close> (the tail when null), both included.
\<close>

definition insert_run :: "backed_block list \<Rightarrow> backed_block list \<Rightarrow> backed_block list" where
  "insert_run to_blocks seg =
     (if to_blocks = [] then seg
      else let k = Suc (length (takeWhile (\<lambda>b. \<not> bb_block b > bb_block (hd seg)) (tl to_blocks)))
           in take k to_blocks @ seg @ drop k to_blocks)"

definition backed_block_list_move ::
  "backed_block_list \<Rightarrow> backed_block_list \<Rightarrow> nat option \<Rightarrow> nat option
    \<Rightarrow> backed_block_list \<times> backed_block_list" where
  "backed_block_list_move src dst start0 last0 =
     (let blocks = bbl_blocks src in
      if blocks = [] then (src, dst)
      else let i = (case start0 of None \<Rightarrow> 0 | Some i \<Rightarrow> i);
               j = (case last0 of None \<Rightarrow> length blocks - 1 | Some j \<Rightarrow> j)
           in (src\<lparr>bbl_blocks := take i blocks @ drop (Suc j) blocks, bbl_last_used := None\<rparr>,
               dst\<lparr>bbl_blocks := insert_run (bbl_blocks dst) (take (Suc j - i) (drop i blocks)),
                   bbl_last_used := None\<rparr>))"

end
