(* ===== verification/SpBlocksInv.thy ===== *)
theory SpBlocksInv imports SpBlocks LpCodec begin

text \<open>
  The block list of a sparse file implements a partial map from positions of the image to bytes:
  the invariant of the list, and queueing, splitting and moving as operations on that map.
\<close>

section \<open>The image of a block list\<close>

text \<open>The bytes behind the names and descriptors that blocks refer to.\<close>

record sources =
  src_file :: "string \<Rightarrow> u8 list"
  src_fd :: "nat \<Rightarrow> u8 list"

definition byte_of :: "u8 list \<Rightarrow> nat \<Rightarrow> u8 option" where
  "byte_of xs k = (if k < length xs then Some (xs ! k) else None)"

fun backing_byte :: "sources \<Rightarrow> backing \<Rightarrow> nat \<Rightarrow> u8 option" where
  "backing_byte src (BB_DATA d) k = byte_of d k"
| "backing_byte src (BB_FILE f offset) k = byte_of (src_file src f) (unat offset + k)"
| "backing_byte src (BB_FD fd offset) k = byte_of (src_fd src fd) (unat offset + k)"
| "backing_byte src (BB_FILL v) k = byte_of (enc32 v) (k mod 4)"

definition bb_start :: "nat \<Rightarrow> backed_block \<Rightarrow> nat" where
  "bb_start bs b = unat (bb_block b) * bs"

lemma bb_start_update [simp]:
  "bb_start bs (b\<lparr>bb_len := l\<rparr>) = bb_start bs b" "bb_start bs (b\<lparr>bb_backing := d\<rparr>) = bb_start bs b"
  by (simp_all add: bb_start_def)

definition bb_map :: "sources \<Rightarrow> nat \<Rightarrow> backed_block \<Rightarrow> nat \<rightharpoonup> u8" where
  "bb_map src bs b = (\<lambda>pos. if bb_start bs b \<le> pos \<and> pos < bb_start bs b + unat (bb_len b)
     then backing_byte src (bb_backing b) (pos - bb_start bs b) else None)"

fun image_map :: "sources \<Rightarrow> nat \<Rightarrow> backed_block list \<Rightarrow> nat \<rightharpoonup> u8" where
  "image_map src bs [] = Map.empty"
| "image_map src bs (b # blocks) = image_map src bs blocks ++ bb_map src bs b"

lemma image_map_append: "image_map src bs (xs @ ys) = image_map src bs ys ++ image_map src bs xs"
  by (induction xs) simp_all

section \<open>The invariant\<close>

definition div_up :: "nat \<Rightarrow> nat \<Rightarrow> nat" where
  "div_up n k = (n + k - 1) div k"

text \<open>The first block number behind a block.\<close>

definition bb_end :: "nat \<Rightarrow> backed_block \<Rightarrow> nat" where
  "bb_end bs b = unat (bb_block b) + div_up (unat (bb_len b)) bs"

fun backing_ok :: "backing \<Rightarrow> u64 \<Rightarrow> bool" where
  "backing_ok (BB_DATA d) len = (unat len \<le> length d)"
| "backing_ok (BB_FILE f offset) len = (unat offset + unat len < 2 ^ 63)"
| "backing_ok (BB_FD fd offset) len = (unat offset + unat len < 2 ^ 63)"
| "backing_ok (BB_FILL v) len = True"

definition bb_ok :: "nat \<Rightarrow> backed_block \<Rightarrow> bool" where
  "bb_ok bs b \<longleftrightarrow> 0 < bb_len b \<and> bb_end bs b * bs < 2 ^ 63 \<and> bb_end bs b < 2 ^ 32 \<and>
     backing_ok (bb_backing b) (bb_len b)"

definition before :: "nat \<Rightarrow> backed_block \<Rightarrow> backed_block \<Rightarrow> bool" where
  "before bs a b \<longleftrightarrow> bb_end bs a \<le> unat (bb_block b)"

definition blocks_sorted :: "nat \<Rightarrow> backed_block list \<Rightarrow> bool" where
  "blocks_sorted bs blocks \<longleftrightarrow> sorted_wrt (before bs) blocks \<and> list_all (bb_ok bs) blocks"

definition bbl_ok :: "backed_block_list \<Rightarrow> bool" where
  "bbl_ok bbl \<longleftrightarrow> 0 < bbl_block_size bbl \<and> unat (bbl_block_size bbl) mod 4 = 0 \<and>
     blocks_sorted (unat (bbl_block_size bbl)) (bbl_blocks bbl) \<and>
     (case bbl_last_used bbl of None \<Rightarrow> True | Some k \<Rightarrow> k < length (bbl_blocks bbl))"

definition bbl_image :: "sources \<Rightarrow> backed_block_list \<Rightarrow> nat \<rightharpoonup> u8" where
  "bbl_image src bbl = image_map src (unat (bbl_block_size bbl)) (bbl_blocks bbl)"

section \<open>Positions of blocks\<close>

lemma div_up_mult: "0 < k \<Longrightarrow> n \<le> div_up n k * k"
  using div_mult_mod_eq[of "n + k - 1" k] mod_less_divisor[of k "n + k - 1"]
  unfolding div_up_def by linarith

lemma div_up_pos: "0 < n \<Longrightarrow> 0 < k \<Longrightarrow> 0 < div_up n k"
  by (simp add: div_up_def div_greater_zero_iff)

lemma div_up_add: "0 < k \<Longrightarrow> div_up (q * k + n) k = q + div_up n k"
  by (simp add: div_up_def add.assoc flip: Nat.add_diff_assoc)

lemma div_up_exact:
  assumes "0 < k" "n mod k = 0"
  shows "div_up n k = n div k"
proof -
  have "n = n div k * k + 0" using assms(2) div_mult_mod_eq[of n k] by simp
  then have "div_up n k = n div k + div_up 0 k" using div_up_add[OF assms(1)] by metis
  moreover have "div_up 0 k = 0" using assms(1) by (simp add: div_up_def)
  ultimately show ?thesis by simp
qed

lemma div_up_le_div:
  assumes "0 < k" "div_up n k \<le> n div k"
  shows "n mod k = 0"
proof -
  have "n \<le> n div k * k" using div_up_mult[OF assms(1), of n] mult_le_mono1[OF assms(2), of k] by linarith
  then show ?thesis using div_mult_mod_eq[of n k] by linarith
qed

lemma bb_range:
  assumes "0 < bs"
  shows "bb_start bs b + unat (bb_len b) \<le> bb_end bs b * bs"
  using div_up_mult[OF assms, of "unat (bb_len b)"] by (simp add: bb_start_def bb_end_def add_mult_distrib)

lemma bb_block_less_end: "bb_ok bs b \<Longrightarrow> 0 < bs \<Longrightarrow> unat (bb_block b) < bb_end bs b"
  using div_up_pos[of "unat (bb_len b)" bs] by (simp add: bb_ok_def bb_end_def word_less_nat_alt)

lemma dom_bb_map:
  assumes "0 < bs"
  shows "dom (bb_map src bs b) \<subseteq> {bb_start bs b ..< bb_end bs b * bs}"
  using bb_range[OF assms, of b] by (auto simp: bb_map_def dom_def split: if_splits)

lemma before_start: "before bs a b \<Longrightarrow> bb_end bs a * bs \<le> bb_start bs b"
  by (simp add: before_def bb_start_def)

lemma dom_disjoint:
  assumes "0 < bs" "before bs a b"
  shows "dom (bb_map src bs a) \<inter> dom (bb_map src bs b) = {}"
  using dom_bb_map[OF assms(1), of src a] dom_bb_map[OF assms(1), of src b] before_start[OF assms(2)]
  by fastforce

lemma dom_image_map: "dom (image_map src bs blocks) = (\<Union>b\<in>set blocks. dom (bb_map src bs b))"
  by (induction blocks) auto

section \<open>Merging\<close>

lemma map_add_pointwise: "(m ++ n) x = (case n x of Some y \<Rightarrow> Some y | None \<Rightarrow> m x)"
  by (simp add: map_add_def)

text \<open>A block cut in two: the bytes of the whole are those of the two parts.\<close>

lemma bb_map_join:
  assumes "bb_block c = bb_block a" "unat (bb_len c) = unat (bb_len a) + unat (bb_len b)"
    and "bb_start bs b = bb_start bs a + unat (bb_len a)" "bb_backing c = bb_backing a"
    and cont: "\<And>k. backing_byte src (bb_backing a) (unat (bb_len a) + k) = backing_byte src (bb_backing b) k"
  shows "bb_map src bs c = bb_map src bs b ++ bb_map src bs a"
proof
  fix pos
  have start: "bb_start bs c = bb_start bs a" using assms(1) by (simp add: bb_start_def)
  show "bb_map src bs c pos = (bb_map src bs b ++ bb_map src bs a) pos"
  proof (cases "pos < bb_start bs b")
    case True
    then show ?thesis
      by (auto simp: bb_map_def map_add_pointwise start assms(2-4) split: option.splits)
  next
    case False
    then obtain k where k: "pos = bb_start bs a + (unat (bb_len a) + k)"
      using assms(3) by (metis add.assoc le_Suc_ex not_less)
    show ?thesis unfolding k
      by (simp add: bb_map_def map_add_pointwise start assms(2-4) cont)
  qed
qed

lemma fill_phase: "n mod 4 = 0 \<Longrightarrow> (n + k) mod 4 = k mod (4 :: nat)"
  by (metis add_0 mod_add_left_eq)

lemma merge_bb_ok:
  assumes bs: "0 < w" "unat w mod 4 = 0" and ok: "bb_ok (unat w) a" "bb_ok (unat w) b"
    and ord: "before (unat w) a b"
  shows "\<exists>m. merge_bb w a (Some b) = Inr m \<and>
    (\<forall>ab. m = Some ab \<longrightarrow> bb_ok (unat w) ab \<and> bb_block ab = bb_block a \<and>
       bb_end (unat w) ab = bb_end (unat w) b \<and> bb_map src (unat w) ab = bb_map src (unat w) b ++ bb_map src (unat w) a \<and>
       unat (bb_len ab) = unat (bb_len a) + unat (bb_len b) \<and> unat (bb_len a) mod unat w = 0 \<and>
       mergeable_backing a b \<and> bb_backing ab = bb_backing a)"
proof -
  let ?bs = "unat w"
  have pos: "0 < ?bs" using bs(1) by (simp add: word_less_nat_alt)
  have lt: "bb_block a < bb_block b"
    using bb_block_less_end[OF ok(1) pos] ord by (simp add: before_def word_less_nat_alt)
  have "\<exists>m. merge_bb w a (Some b) = Inr m" using lt bs(1)
    by (auto simp: merge_bb_def word_neq_0_conv[symmetric])
  then obtain m where m: "merge_bb w a (Some b) = Inr m" ..
  have "bb_ok ?bs ab \<and> bb_block ab = bb_block a \<and> bb_end ?bs ab = bb_end ?bs b \<and>
      bb_map src ?bs ab = bb_map src ?bs b ++ bb_map src ?bs a \<and>
      unat (bb_len ab) = unat (bb_len a) + unat (bb_len b) \<and> unat (bb_len a) mod unat w = 0 \<and>
      mergeable_backing a b \<and> bb_backing ab = bb_backing a" if "m = Some ab" for ab
  proof -
    let ?q = "unat (bb_len a) div ?bs"
    from m that lt have ab: "ab = a\<lparr>bb_len := bb_len a + bb_len b\<rparr>"
      and adj: "bb_block a + ucast (bb_len a div ucast w) = bb_block b"
      and mgb: "mergeable_backing a b"
      by (auto simp: merge_bb_def split: if_splits)
    have "?q \<le> div_up (unat (bb_len a)) ?bs" using pos by (auto simp: div_up_def intro!: div_le_mono)
    then have q: "unat (bb_block a) + ?q < 2 ^ 32" using ok(1) by (simp add: bb_ok_def bb_end_def)
    have "unat (bb_len a div ucast w) = ?q" by (simp add: unat_div)
    then have "unat (ucast (bb_len a div ucast w) :: u32) = ?q"
      using q by (simp add: unsigned_ucast_eq take_bit_nat_eq_self_iff)
    then have blk: "unat (bb_block b) = unat (bb_block a) + ?q"
      using q adj unat_add_small[of "bb_block a" "ucast (bb_len a div ucast w)"] by simp
    with ord have "div_up (unat (bb_len a)) ?bs \<le> ?q" by (simp add: before_def bb_end_def)
    then have exact: "unat (bb_len a) mod ?bs = 0" by (rule div_up_le_div[OF pos])
    obtain n where n: "n = ?q" by blast
    with exact have la: "unat (bb_len a) = n * ?bs" by (metis div_mult_mod_eq add.right_neutral)
    have blk: "unat (bb_block b) = unat (bb_block a) + n" using blk n by simp
    have startb: "bb_start ?bs b = bb_start ?bs a + unat (bb_len a)"
      by (simp add: bb_start_def blk la add_mult_distrib)
    have "bb_start ?bs b + unat (bb_len b) < 2 ^ 63"
      using bb_range[OF pos, of b] ok(2) by (simp add: bb_ok_def)
    then have len: "unat (bb_len a + bb_len b) = unat (bb_len a) + unat (bb_len b)"
      using startb by (intro unat_add_small) simp
    have "bb_end ?bs ab = bb_end ?bs b"
      using div_up_add[OF pos, of n "unat (bb_len b)"] by (simp add: bb_end_def ab len blk la)
    moreover have "bb_map src ?bs ab = bb_map src ?bs b ++ bb_map src ?bs a"
    proof (rule bb_map_join)
      show "bb_start ?bs b = bb_start ?bs a + unat (bb_len a)" by (rule startb)
      have "unat (x + bb_len a) = unat x + unat (bb_len a)" if "unat x + unat (bb_len a) < 2 ^ 63" for x
        using that by (intro unat_add_small) simp
      moreover have "unat (bb_len a) mod 4 = 0" unfolding la using bs(2) by (metis mod_mult_right_eq mult_0_right mod_0)
      ultimately show "backing_byte src (bb_backing a) (unat (bb_len a) + k) = backing_byte src (bb_backing b) k" for k
        using mgb ok(1) by (cases "bb_backing a"; cases "bb_backing b")
          (auto simp: mergeable_backing_def bb_ok_def add.assoc fill_phase)
    qed (simp_all add: ab len)
    moreover have "backing_ok (bb_backing a) (bb_len a + bb_len b)"
      using ok mgb len by (cases "bb_backing a"; cases "bb_backing b")
        (auto simp: mergeable_backing_def bb_ok_def unat_add_small)
    ultimately show ?thesis
      using ok lt mgb exact by (auto simp: bb_ok_def ab word_less_nat_alt len)
  qed
  with m show ?thesis by blast
qed

section \<open>Queueing\<close>

lemma merge_at_append:
  "merge_at w (pre @ a # rest) (length pre) =
     bind_run (merge_bb w a (elem_at rest 0)) (\<lambda>m. Inr (map_option (\<lambda>ab. pre @ ab # tl rest) m))"
  by (cases rest) (simp_all add: merge_at_def elem_at_def nth_append)

text \<open>A property of blocks that merging keeps.\<close>

definition merge_closed :: "u32 \<Rightarrow> (backed_block \<Rightarrow> bool) \<Rightarrow> bool" where
  "merge_closed w P \<longleftrightarrow> (\<forall>a b ab. bb_ok (unat w) a \<longrightarrow> bb_ok (unat w) b \<longrightarrow> before (unat w) a b \<longrightarrow> P a \<longrightarrow> P b \<longrightarrow>
     merge_bb w a (Some b) = Inr (Some ab) \<longrightarrow> P ab)"

text \<open>A list in which the blocks at one position may have been merged.\<close>

lemma merge_at_ok:
  assumes bs: "0 < w" "unat w mod 4 = 0" and ok: "blocks_sorted (unat w) (pre @ a # rest)"
  shows "\<exists>m. merge_at w (pre @ a # rest) (length pre) = Inr m \<and>
    (\<forall>l. m = Some l \<longrightarrow> (\<exists>ab. l = pre @ ab # tl rest \<and> bb_block ab = bb_block a) \<and>
       blocks_sorted (unat w) l \<and> image_map src (unat w) l = image_map src (unat w) (pre @ a # rest) \<and>
       length l = length (pre @ rest) \<and>
       (merge_closed w P \<longrightarrow> list_all P (pre @ a # rest) \<longrightarrow> list_all P l))"
proof (cases rest)
  case Nil
  then show ?thesis by (simp add: merge_at_append elem_at_def merge_bb_def)
next
  case (Cons b rest')
  have o: "bb_ok (unat w) a" "bb_ok (unat w) b" "before (unat w) a b"
    using ok Cons by (auto simp: blocks_sorted_def sorted_wrt_append)
  from merge_bb_ok[OF bs o, of src] obtain m where m: "merge_bb w a (Some b) = Inr m" and
    ab: "\<forall>ab. m = Some ab \<longrightarrow> bb_ok (unat w) ab \<and> bb_block ab = bb_block a \<and> bb_end (unat w) ab = bb_end (unat w) b \<and>
      bb_map src (unat w) ab = bb_map src (unat w) b ++ bb_map src (unat w) a" by auto
  have P: "merge_closed w P \<longrightarrow> list_all P (pre @ a # rest) \<longrightarrow> list_all P (pre @ ab # rest')" if "m = Some ab" for ab
    using that m o Cons unfolding merge_closed_def by auto
  have "blocks_sorted (unat w) (pre @ ab # rest') \<and>
      image_map src (unat w) (pre @ ab # rest') = image_map src (unat w) (pre @ a # rest)" if "m = Some ab" for ab
    using ab[rule_format, OF that] ok Cons
    by (auto simp: blocks_sorted_def sorted_wrt_append before_def image_map_append)
  with m ab P Cons show ?thesis by (cases m) (simp_all add: merge_at_append elem_at_def)
qed

definition apart_from :: "nat \<Rightarrow> backed_block \<Rightarrow> backed_block list \<Rightarrow> bool" where
  "apart_from bs b blocks \<longleftrightarrow> (\<forall>a\<in>set blocks. before bs a b \<or> before bs b a)"

text \<open>The search stops at the last block before the new one, wherever it starts.\<close>

lemma seek_from_append:
  assumes "i < length pre" "\<forall>b\<in>set pre. bb_block b < block"
    and "post = [] \<or> \<not> bb_block (hd post) < block"
  shows "seek_from (pre @ post) block i = length pre - 1"
proof -
  have "takeWhile (\<lambda>b. bb_block b < block) (drop (Suc i) (pre @ post)) = drop (Suc i) pre"
    using assms by (subst drop_append) (auto simp: takeWhile_append takeWhile_eq_all_conv
        dest: in_set_dropD, cases post, auto)
  then show ?thesis using assms(1) by (simp add: seek_from_def)
qed

lemma split_around:
  assumes "blocks_sorted bs blocks" "apart_from bs b blocks" "bb_ok bs b" "0 < bs"
  shows "\<exists>pre post. blocks = pre @ post \<and> (\<forall>a\<in>set pre. before bs a b) \<and> (\<forall>a\<in>set post. before bs b a)"
  using assms(1,2)
proof (induction blocks)
  case (Cons a blocks)
  show ?case
  proof (cases "before bs a b")
    case True
    from Cons obtain pre post where "blocks = pre @ post" "\<forall>a\<in>set pre. before bs a b" "\<forall>a\<in>set post. before bs b a"
      by (auto simp: blocks_sorted_def apart_from_def)
    with True show ?thesis by (intro exI[of _ "a # pre"] exI[of _ post]) simp
  next
    case False
    with Cons.prems(2) have ba: "before bs b a" by (simp add: apart_from_def)
    have "before bs b c" if "c \<in> set blocks" for c
    proof -
      have "before bs a c" "bb_ok bs a" using Cons.prems(1) that by (auto simp: blocks_sorted_def)
      with ba bb_block_less_end[of bs a] assms(4) show ?thesis by (simp add: before_def)
    qed
    with ba show ?thesis by (intro exI[of _ "[]"] exI[of _ "a # blocks"]) simp
  qed
qed simp

lemma before_less:
  "before bs a b \<Longrightarrow> bb_ok bs a \<Longrightarrow> 0 < bs \<Longrightarrow> bb_block a < bb_block b"
  using bb_block_less_end[of bs a] by (simp add: before_def word_less_nat_alt)

lemma image_map_insert:
  assumes "0 < bs" "\<forall>a\<in>set pre. before bs a b"
  shows "image_map src bs (pre @ b # post) = image_map src bs (pre @ post) ++ bb_map src bs b"
proof -
  have "dom (image_map src bs pre) \<inter> dom (bb_map src bs b) = {}"
    using dom_disjoint[OF assms(1)] assms(2) unfolding dom_image_map by blast
  then have "image_map src bs post ++ bb_map src bs b ++ image_map src bs pre =
      image_map src bs post ++ image_map src bs pre ++ bb_map src bs b"
    by (metis map_add_assoc map_add_comm)
  then show ?thesis by (simp add: image_map_append)
qed

lemma queue_bb_ok:
  assumes ok: "bbl_ok bbl" and new: "bb_ok (unat (bbl_block_size bbl)) b"
    "apart_from (unat (bbl_block_size bbl)) b (bbl_blocks bbl)"
  shows "\<exists>bbl'. queue_bb bbl b = Inr bbl' \<and> bbl_ok bbl' \<and> bbl_block_size bbl' = bbl_block_size bbl \<and>
    bbl_image src bbl' = bbl_image src bbl ++ bb_map src (unat (bbl_block_size bbl)) b \<and>
    (merge_closed (bbl_block_size bbl) P \<longrightarrow> list_all P (bbl_blocks bbl) \<longrightarrow> P b \<longrightarrow> list_all P (bbl_blocks bbl'))"
proof -
  let ?w = "bbl_block_size bbl"
  let ?bs = "unat ?w"
  have w: "0 < ?w" "?bs mod 4 = 0" and pos: "0 < ?bs"
    and sorted: "blocks_sorted ?bs (bbl_blocks bbl)"
    using ok by (simp_all add: bbl_ok_def word_less_nat_alt)
  from split_around[OF sorted new(2,1) pos] obtain pre post where
    pp: "bbl_blocks bbl = pre @ post" "\<forall>a\<in>set pre. before ?bs a b" "\<forall>a\<in>set post. before ?bs b a" by blast
  have sorted': "blocks_sorted ?bs (pre @ b # post)"
    using sorted pp new(1) by (auto simp: blocks_sorted_def sorted_wrt_append)
  have img: "image_map src ?bs (pre @ b # post) = image_map src ?bs (pre @ post) ++ bb_map src ?bs b"
    by (rule image_map_insert[OF pos pp(2)])
  have less: "\<forall>a\<in>set pre. bb_block a < bb_block b" "\<forall>a\<in>set post. bb_block b < bb_block a"
    using pp sorted new(1) before_less[OF _ _ pos] by (auto simp: blocks_sorted_def list_all_iff)
  show ?thesis
  proof (cases "pre = []")
    case True
    then have "queue_bb bbl b = Inr (if post = [] then bbl\<lparr>bbl_blocks := [b]\<rparr>
        else bbl\<lparr>bbl_blocks := b # post, bbl_last_used := map_option Suc (bbl_last_used bbl)\<rparr>)"
      using pp(1) less(2) by (cases post) (auto simp: queue_bb_def)
    with True ok pp(1) sorted' img show ?thesis
      by (auto simp: bbl_ok_def bbl_image_def split: option.splits)
  next
    case False
    then obtain first pre' where first: "pre = first # pre'" by (cases pre) auto
    let ?i = "length pre - 1"
    have start: "seek_start bbl (bb_block b) < length pre"
    proof (cases "bbl_last_used bbl")
      case None
      with False show ?thesis by (simp add: seek_start_def)
    next
      case (Some k)
      have "k < length pre" if "bb_block b > bb_block ((pre @ post) ! k)"
      proof (rule ccontr)
        assume "\<not> k < length pre"
        moreover have "k < length (pre @ post)" using ok Some pp(1) by (simp add: bbl_ok_def)
        ultimately have "(pre @ post) ! k \<in> set post" by (simp add: nth_append)
        with less(2) that show False by (metis less_asym)
      qed
      with Some False pp(1) show ?thesis by (simp add: seek_start_def)
    qed
    have seek: "seek_from (pre @ post) (bb_block b) (seek_start bbl (bb_block b)) = ?i"
    proof (rule seek_from_append[OF start less(1)])
      show "post = [] \<or> \<not> bb_block (hd post) < bb_block b" using less(2) by (cases post) auto
    qed
    have si: "Suc ?i = length pre" using False by simp
    obtain m1 where m1: "merge_at ?w (pre @ b # post) (length pre) = Inr m1" and
      m1_ok: "\<forall>l. m1 = Some l \<longrightarrow> (\<exists>ab. l = pre @ ab # tl post \<and> bb_block ab = bb_block b) \<and>
        blocks_sorted ?bs l \<and> image_map src ?bs l = image_map src ?bs (pre @ b # post) \<and> length l = length (pre @ post) \<and>
        (merge_closed ?w P \<longrightarrow> list_all P (pre @ b # post) \<longrightarrow> list_all P l)"
      using merge_at_ok[OF w sorted', of src P] by blast
    define l2 where "l2 = (case m1 of Some l \<Rightarrow> l | None \<Rightarrow> pre @ b # post)"
    have l2: "blocks_sorted ?bs l2" "image_map src ?bs l2 = image_map src ?bs (pre @ b # post)"
      "\<exists>rest. l2 = pre @ rest \<and> rest \<noteq> []"
      using m1_ok sorted' by (auto simp: l2_def split: option.splits)
    then obtain rest where rest: "l2 = butlast pre @ last pre # rest" "rest \<noteq> []"
      using False by (metis append.assoc append_butlast_last_id append_Cons append_Nil)
    have lb: "length (butlast pre) = ?i" by simp
    obtain m2 where m2: "merge_at ?w l2 ?i = Inr m2" and
      m2_ok: "\<forall>l. m2 = Some l \<longrightarrow> blocks_sorted ?bs l \<and> image_map src ?bs l = image_map src ?bs l2 \<and>
        length l = length (butlast pre @ rest) \<and> (merge_closed ?w P \<longrightarrow> list_all P l2 \<longrightarrow> list_all P l)"
      using merge_at_ok[OF w l2(1)[unfolded rest(1)], of src P] unfolding rest(1)[symmetric] lb by blast
    have all: "list_all P (bbl_blocks (case m2 of Some l3 \<Rightarrow> bbl\<lparr>bbl_blocks := l3, bbl_last_used := Some ?i\<rparr>
        | None \<Rightarrow> bbl\<lparr>bbl_blocks := l2, bbl_last_used := Some (Suc ?i)\<rparr>))"
      if "merge_closed ?w P" "list_all P (bbl_blocks bbl)" "P b"
    proof -
      have "list_all P l2" using that m1_ok pp(1) by (cases m1) (simp_all add: l2_def)
      then show ?thesis using that(1) m2_ok by (cases m2) simp_all
    qed
    let ?r = "case m2 of Some l3 \<Rightarrow> bbl\<lparr>bbl_blocks := l3, bbl_last_used := Some ?i\<rparr>
      | None \<Rightarrow> bbl\<lparr>bbl_blocks := l2, bbl_last_used := Some (Suc ?i)\<rparr>"
    have nless: "\<not> bb_block first > bb_block b" using less(1) first by (simp add: not_less less_imp_le)
    have td: "take (Suc ?i) (pre @ post) @ b # drop (Suc ?i) (pre @ post) = pre @ b # post"
      unfolding si by simp
    have fb: "pre @ post = first # pre' @ post" using first by simp
    have "queue_bb bbl b = bind_run (merge_at ?w (pre @ b # post) (length pre)) (\<lambda>m1.
        let blocks2 = (case m1 of Some l \<Rightarrow> l | None \<Rightarrow> pre @ b # post)
        in bind_run (merge_at ?w blocks2 ?i) (\<lambda>m2.
             case m2 of
               Some blocks3 \<Rightarrow> Inr (bbl\<lparr>bbl_blocks := blocks3, bbl_last_used := Some ?i\<rparr>)
             | None \<Rightarrow> Inr (bbl\<lparr>bbl_blocks := blocks2, bbl_last_used := Some (Suc ?i)\<rparr>)))"
      unfolding queue_bb_def Let_def pp(1) seek unfolding td unfolding si using nless by (subst fb) simp
    then have "queue_bb bbl b = (case m2 of
               Some blocks3 \<Rightarrow> Inr (bbl\<lparr>bbl_blocks := blocks3, bbl_last_used := Some ?i\<rparr>)
             | None \<Rightarrow> Inr (bbl\<lparr>bbl_blocks := l2, bbl_last_used := Some (Suc ?i)\<rparr>))"
      by (simp only: m1 bind_run_Inr Let_def l2_def[symmetric] m2)
    then have "queue_bb bbl b = Inr ?r" by (simp split: option.splits)
    moreover have "bbl_ok ?r"
    proof (cases m2)
      case None
      have "Suc ?i < length l2" using l2(3) si by auto
      with None ok l2(1) show ?thesis by (simp add: bbl_ok_def)
    next
      case (Some l3)
      have "?i < length l3" using m2_ok Some rest(2) lb by simp
      with Some ok m2_ok show ?thesis by (simp add: bbl_ok_def)
    qed
    moreover have "bbl_image src ?r = bbl_image src bbl ++ bb_map src ?bs b"
      using l2(2) m2_ok img pp(1) by (cases m2) (simp_all add: bbl_image_def)
    moreover have "bbl_block_size ?r = ?w" by (cases m2) simp_all
    ultimately show ?thesis using all by (intro exI[of _ ?r] conjI impI) assumption+
  qed
qed

section \<open>Splitting\<close>

lemma align_down_props:
  fixes w :: u32
  assumes "w \<le> n" "0 < w"
  shows "0 < align_down n w" "unat (align_down n w) = unat (n div w) * unat w" "align_down n w \<le> n"
    "unat (align_down n w div w) = unat (n div w)"
proof -
  have "unat (n div w) * unat w \<le> unat n" by (simp add: unat_div div_times_less_eq_dividend)
  then have u: "unat (align_down n w) = unat (n div w) * unat w"
    unfolding align_down_def using unat_less_exp[of n]
    by (subst unat_mult_small) (simp_all only: mult.commute[of "unat w"] le_less_trans)
  moreover have w: "0 < unat w" using assms(2) by (simp add: word_less_nat_alt)
  ultimately show "unat (align_down n w) = unat (n div w) * unat w" "align_down n w \<le> n"
    "unat (align_down n w div w) = unat (n div w)"
    using \<open>unat (n div w) * unat w \<le> unat n\<close> by (simp_all add: word_le_nat_alt unat_div)
  have "0 < unat (n div w)" using assms(1) w by (simp add: unat_div div_greater_zero_iff word_le_nat_alt)
  with u w show "0 < align_down n w" by (simp add: word_less_nat_alt)
qed

lemma split_blocks_ok:
  assumes w: "0 < w" "unat w mod 4 = 0" and ok: "bb_ok (unat w) b"
    and n: "w \<le> n" and long: "\<not> bb_len b \<le> ucast (align_down n w)"
    and s: "split_blocks w b (align_down n w) = (b1, b2)"
  shows "bb_ok (unat w) b1" "bb_ok (unat w) b2" "before (unat w) b1 b2" "bb_block b1 = bb_block b"
    "bb_end (unat w) b2 = bb_end (unat w) b" "bb_len b1 = ucast (align_down n w)"
    "bb_map src (unat w) b = bb_map src (unat w) b2 ++ bb_map src (unat w) b1"
proof -
  let ?bs = "unat w" and ?m = "align_down n w" and ?k = "unat (n div w)"
  note ad = align_down_props[OF n w(1)]
  have pos: "0 < ?bs" using w(1) by (simp add: word_less_nat_alt)
  have lt: "unat ?m < unat (bb_len b)" using long by (simp add: word_le_nat_alt not_le)
  have m: "unat (ucast ?m :: u64) = ?k * ?bs" using ad(2) by simp
  have b1: "bb_block b1 = bb_block b" "bb_len b1 = ucast ?m" "bb_backing b1 = bb_backing b"
    and b2: "bb_block b2 = bb_block b + ?m div w" "bb_len b2 = bb_len b - ucast ?m"
      "bb_backing b2 = advance_backing ?m (bb_backing b)"
    using s by (auto simp: split_blocks_def)
  have l2: "unat (bb_len b2) = unat (bb_len b) - ?k * ?bs"
    using lt m ad(2) by (simp add: b2 unat_sub_small)
  have kb: "?k * ?bs < unat (bb_len b)" using lt ad(2) by simp
  have e: "bb_end ?bs b = unat (bb_block b) + ?k + div_up (unat (bb_len b2)) ?bs"
    using div_up_add[OF pos, of ?k "unat (bb_len b2)"] l2 kb by (simp add: bb_end_def)
  have blk2: "unat (bb_block b2) = unat (bb_block b) + ?k"
    using ok e ad(4) unfolding b2 by (subst unat_add_small) (auto simp: bb_ok_def)
  have e1: "bb_end ?bs b1 = unat (bb_block b) + ?k"
    using div_up_exact[OF pos, of "?k * ?bs"] m pos by (simp add: bb_end_def b1)
  have e2: "bb_end ?bs b2 = bb_end ?bs b" using e by (simp add: bb_end_def blk2)
  show "bb_block b1 = bb_block b" "bb_len b1 = ucast ?m" "bb_end ?bs b2 = bb_end ?bs b"
    "before ?bs b1 b2" using b1 e2 e1 blk2 by (simp_all add: before_def)
  have "bb_end ?bs b1 * ?bs \<le> bb_end ?bs b * ?bs" unfolding e1 e by (intro mult_le_mono1) simp
  moreover have "bb_end ?bs b1 \<le> bb_end ?bs b" unfolding e1 e by simp
  ultimately have bounds: "bb_end ?bs b1 * ?bs < 2 ^ 63" "bb_end ?bs b1 < 2 ^ 32"
    using ok unfolding bb_ok_def by linarith+
  moreover have "0 < unat (ucast ?m :: u64)" using ad(1) by (simp add: word_less_nat_alt)
  moreover have "backing_ok (bb_backing b) (ucast ?m)"
    using ok lt by (cases "bb_backing b") (auto simp: bb_ok_def)
  ultimately show "bb_ok ?bs b1" by (simp add: bb_ok_def b1 word_less_nat_alt)
  have off: "unat (x + ucast ?m) = unat x + ?k * ?bs" if "unat x + unat (bb_len b) < 2 ^ 63" for x :: u64
    using that kb m by (subst unat_add_small) auto
  have "backing_ok (bb_backing b2) (bb_len b2)"
    using ok l2 kb off ad(2) by (cases "bb_backing b") (auto simp: bb_ok_def b2(3) advance_backing_def)
  then show "bb_ok ?bs b2" using ok e2 l2 kb by (simp add: bb_ok_def word_less_nat_alt)
  show "bb_map src ?bs b = bb_map src ?bs b2 ++ bb_map src ?bs b1"
  proof (rule bb_map_join)
    show "unat (bb_len b) = unat (bb_len b1) + unat (bb_len b2)" using l2 kb m by (simp add: b1)
    show "bb_start ?bs b2 = bb_start ?bs b1 + unat (bb_len b1)"
      using m by (simp add: bb_start_def blk2 b1 add_mult_distrib)
    have "(?k * ?bs) mod 4 = 0" using w(2) by (metis mod_mult_right_eq mult_0_right mod_0)
    then show "backing_byte src (bb_backing b1) (unat (bb_len b1) + k) = backing_byte src (bb_backing b2) k" for k
      using ok off m ad(2) by (cases "bb_backing b")
        (auto simp: b1 b2(3) advance_backing_def bb_ok_def byte_of_def fill_phase add.assoc)
  qed (simp_all add: b1)
qed

lemma blocks_sorted_split:
  assumes "blocks_sorted bs (pre @ b # post)" "0 < bs" "bb_ok bs b1" "bb_ok bs b2" "before bs b1 b2"
    and "bb_block b1 = bb_block b" "bb_end bs b2 = bb_end bs b"
  shows "blocks_sorted bs (pre @ b1 # b2 # post)"
proof -
  have "bb_end bs b1 \<le> bb_end bs b" "unat (bb_block b) \<le> unat (bb_block b2)"
    using bb_block_less_end[OF assms(3,2)] bb_block_less_end[OF assms(4,2)] assms(5-7)
    by (simp_all add: before_def)
  with assms show ?thesis
    by (fastforce simp: blocks_sorted_def sorted_wrt_append before_def)
qed

lemma backed_block_split_ok:
  assumes ok: "bbl_ok bbl" and i: "i < length (bbl_blocks bbl)" and n: "bbl_block_size bbl \<le> n"
  shows "bbl_ok (backed_block_split bbl i n)" "bbl_image src (backed_block_split bbl i n) = bbl_image src bbl"
    "bb_len (bbl_blocks (backed_block_split bbl i n) ! i) \<le> ucast (align_down n (bbl_block_size bbl))"
proof -
  let ?w = "bbl_block_size bbl" and ?blocks = "bbl_blocks bbl"
  let ?m = "align_down n ?w" and ?b = "?blocks ! i"
  have w: "0 < ?w" "unat ?w mod 4 = 0" using ok by (simp_all add: bbl_ok_def)
  have cut: "?blocks = take i ?blocks @ ?b # drop (Suc i) ?blocks" by (rule id_take_nth_drop[OF i])
  have "bbl_ok (backed_block_split bbl i n) \<and> bbl_image src (backed_block_split bbl i n) = bbl_image src bbl \<and>
    bb_len (bbl_blocks (backed_block_split bbl i n) ! i) \<le> ucast ?m"
  proof (cases "bb_len ?b \<le> ucast ?m")
    case True
    then show ?thesis using ok by (simp add: backed_block_split_def Let_def)
  next
    case False
    obtain b1 b2 where s: "split_blocks ?w ?b ?m = (b1, b2)" by force
    let ?bbl = "bbl\<lparr>bbl_blocks := take i ?blocks @ b1 # b2 # drop (Suc i) ?blocks,
      bbl_last_used := map_option (\<lambda>k. if k > i then Suc k else k) (bbl_last_used bbl)\<rparr>"
    have sp: "backed_block_split bbl i n = ?bbl"
      using False s by (simp add: backed_block_split_def Let_def)
    have sorted: "blocks_sorted (unat ?w) (take i ?blocks @ ?b # drop (Suc i) ?blocks)"
      using ok cut by (simp add: bbl_ok_def)
    have okb: "bb_ok (unat ?w) ?b" using sorted by (auto simp: blocks_sorted_def)
    note sb = split_blocks_ok[OF w okb n False s]
    have "blocks_sorted (unat ?w) (take i ?blocks @ b1 # b2 # drop (Suc i) ?blocks)"
      by (rule blocks_sorted_split[OF sorted _ sb(1-5)]) (use w in \<open>simp add: word_less_nat_alt\<close>)
    moreover have "(case map_option (\<lambda>k. if k > i then Suc k else k) (bbl_last_used bbl) of None \<Rightarrow> True
        | Some k \<Rightarrow> k < Suc (length ?blocks))"
      using ok by (auto simp: bbl_ok_def split: option.splits)
    moreover have "image_map src (unat ?w) (take i ?blocks @ b1 # b2 # drop (Suc i) ?blocks) =
        image_map src (unat ?w) ?blocks"
      by (subst (3) cut) (simp add: image_map_append sb(7) del: take_append drop_append)
    ultimately show ?thesis
      using ok sp i sb(6) by (cases "bbl_last_used bbl") (simp_all add: bbl_ok_def bbl_image_def nth_append)
  qed
  then show "bbl_ok (backed_block_split bbl i n)" "bbl_image src (backed_block_split bbl i n) = bbl_image src bbl"
    "bb_len (bbl_blocks (backed_block_split bbl i n) ! i) \<le> ucast ?m" by simp_all
qed

section \<open>The optimised search\<close>

lemma seek_from_sorted:
  assumes "sorted_wrt (\<lambda>a b. bb_block a < bb_block b) blocks" "k < length blocks"
    and "bb_block (blocks ! k) < block"
  shows "seek_from blocks block k = seek_from blocks block 0"
proof -
  let ?t = "take k (drop (Suc 0) blocks)"
  have "bb_block b < block" if b: "b \<in> set ?t" for b
  proof -
    from b assms(2) obtain j where "j < k" "b = blocks ! Suc j" by (auto simp: in_set_conv_nth)
    with assms sorted_wrt_nth_less[OF assms(1), of "Suc j" k] show ?thesis by (cases "Suc j = k") auto
  qed
  then have "takeWhile (\<lambda>b. bb_block b < block) (?t @ drop k (drop (Suc 0) blocks)) =
      ?t @ takeWhile (\<lambda>b. bb_block b < block) (drop k (drop (Suc 0) blocks))"
    by (intro takeWhile_append2) simp
  then have "length (takeWhile (\<lambda>b. bb_block b < block) (drop (Suc 0) blocks)) =
      k + length (takeWhile (\<lambda>b. bb_block b < block) (drop (Suc k) blocks))"
    unfolding append_take_drop_id using assms(2) by simp
  then show ?thesis by (simp add: seek_from_def)
qed

text \<open>
  C18: starting the search at the block queued last is only an optimisation: on a list whose block
  numbers increase, \<open>queue_bb\<close> yields the same blocks (or the same failed assertion) as a search
  from the head.
\<close>

theorem last_used_is_optimisation:
  assumes "sorted_wrt (\<lambda>a b. bb_block a < bb_block b) (bbl_blocks bbl)"
    and "\<forall>k. bbl_last_used bbl = Some k \<longrightarrow> k < length (bbl_blocks bbl)"
  shows "map_sum id bbl_blocks (queue_bb bbl b) =
    map_sum id bbl_blocks (queue_bb (bbl\<lparr>bbl_last_used := None\<rparr>) b)"
proof -
  have "seek_from (bbl_blocks bbl) (bb_block b) (seek_start bbl (bb_block b)) =
      seek_from (bbl_blocks bbl) (bb_block b) 0"
    using seek_from_sorted[OF assms(1)] assms(2) by (auto simp: seek_start_def split: option.splits)
  moreover have "seek_start (bbl\<lparr>bbl_last_used := None\<rparr>) (bb_block b) = 0" by (simp add: seek_start_def)
  ultimately show ?thesis
    by (auto simp: queue_bb_def Let_def bind_run_def split: list.splits sum.splits option.splits)
qed

definition demo_list :: backed_block_list where
  "demo_list = \<lparr>bbl_blocks = [\<lparr>bb_block = 0, bb_len = 8, bb_backing = BB_FILL 7\<rparr>,
      \<lparr>bb_block = 2, bb_len = 4, bb_backing = BB_DATA [1, 2, 3, 4]\<rparr>],
     bbl_last_used = Some 1, bbl_block_size = 4\<rparr>"

definition demo_sources :: sources where
  "demo_sources = \<lparr>src_file = \<lambda>_. [1, 2, 3, 4, 5, 6, 7, 8], src_fd = \<lambda>_. [8, 7, 6, 5, 4, 3, 2, 1]\<rparr>"

definition demo_block :: backed_block where
  "demo_block = \<lparr>bb_block = 3, bb_len = 8, bb_backing = BB_DATA [5, 6, 7, 8, 9, 10, 11, 12]\<rparr>"

theorem last_used_is_optimisation_witness:
  "map_sum id bbl_blocks (queue_bb demo_list demo_block) =
    map_sum id bbl_blocks (queue_bb (demo_list\<lparr>bbl_last_used := None\<rparr>) demo_block)"
  by (rule last_used_is_optimisation) (simp_all add: demo_list_def)

text \<open>
  C17: \<open>queue_bb\<close> implements an update of a partial map. Queueing a well-formed block that does not
  overlap the others succeeds (no assertion fires), keeps the list well formed, and the image of
  the new list is the image of the old one with the bytes of the block added, whatever blocks are
  merged on the way.
\<close>

theorem queue_bb_refines:
  assumes "bbl_ok bbl" "bb_ok (unat (bbl_block_size bbl)) b"
    and "apart_from (unat (bbl_block_size bbl)) b (bbl_blocks bbl)"
  shows "\<exists>bbl'. queue_bb bbl b = Inr bbl' \<and> bbl_ok bbl' \<and> bbl_block_size bbl' = bbl_block_size bbl \<and>
    bbl_image src bbl' = bbl_image src bbl ++ bb_map src (unat (bbl_block_size bbl)) b"
  using queue_bb_ok[OF assms, of src] by blast

lemma demo_list_ok: "bbl_ok demo_list" by code_simp

theorem queue_bb_refines_witness:
  "\<exists>bbl'. queue_bb demo_list demo_block = Inr bbl' \<and> bbl_ok bbl' \<and>
     bbl_image demo_sources bbl' = bbl_image demo_sources demo_list ++ bb_map demo_sources 4 demo_block"
proof -
  have b: "bb_ok (unat (bbl_block_size demo_list)) demo_block"
    "apart_from (unat (bbl_block_size demo_list)) demo_block (bbl_blocks demo_list)" by code_simp+
  have s: "unat (bbl_block_size demo_list) = 4" by (simp add: demo_list_def)
  from queue_bb_refines[OF demo_list_ok b] show ?thesis unfolding s by blast
qed

text \<open>
  C19: \<open>backed_block_split\<close> at a limit of at least one block keeps the list well formed and its image
  unchanged, and the block it was called on is no longer than the limit.
\<close>

theorem backed_block_split_preserves:
  assumes "bbl_ok bbl" "i < length (bbl_blocks bbl)" "bbl_block_size bbl \<le> n"
  shows "bbl_ok (backed_block_split bbl i n) \<and> bbl_image src (backed_block_split bbl i n) = bbl_image src bbl \<and>
    bb_len (bbl_blocks (backed_block_split bbl i n) ! i) \<le> ucast n"
proof -
  have "bbl_block_size bbl > 0" using assms(1) by (simp add: bbl_ok_def)
  then have "align_down n (bbl_block_size bbl) \<le> n" by (rule align_down_props(3)[OF assms(3)])
  then have "(ucast (align_down n (bbl_block_size bbl)) :: u64) \<le> ucast n" by (simp add: word_le_nat_alt)
  with backed_block_split_ok[OF assms] show ?thesis by (meson order_trans)
qed

theorem backed_block_split_preserves_witness:
  "bbl_ok (backed_block_split demo_list 0 7) \<and>
    bbl_image demo_sources (backed_block_split demo_list 0 7) = bbl_image demo_sources demo_list \<and>
    bb_len (bbl_blocks (backed_block_split demo_list 0 7) ! 0) \<le> ucast (7 :: u32)"
proof -
  have "0 < length (bbl_blocks demo_list)" "bbl_block_size demo_list \<le> 7"
    by (simp_all add: demo_list_def word_le_nat_alt)
  from backed_block_split_preserves[OF demo_list_ok this] show ?thesis by blast
qed

text \<open>A block queued at the number of an existing one aborts: \<open>merge_bb\<close> asserts increasing numbers.\<close>

lemma queue_bb_same_number:
  "queue_bb demo_list (demo_block\<lparr>bb_block := 2\<rparr>) = Inl CheckFailed"
  by code_simp

end
