(* ===== verification/SpSink.thy ===== *)
theory SpSink imports SpOutput SpBlocksInv begin

text \<open>
  The sinks of \<open>libsparse/output_file.cpp\<close>, a descriptor and a callback, behind one interface: a sink
  takes bytes in order, and skipping is the same as appending zeros. The interface is proved for the
  file, for the callback that collects the bytes and for the one that counts them.
\<close>

section \<open>A descriptor\<close>

text \<open>
  An open regular file: its bytes, the offset of the descriptor and the outcomes of the next \<open>write\<close>
  calls (interrupted by a signal, failed, or the number of bytes taken). When the list is used up
  every further call writes all it is given.
\<close>

datatype write_result = Interrupted | Failed | Wrote nat

record file_sink =
  fs_bytes :: "u8 list"
  fs_pos :: nat
  fs_script :: "write_result list"

text \<open>A write behind the end leaves a hole of zeros.\<close>

definition put_at :: "nat \<Rightarrow> u8 list \<Rightarrow> u8 list \<Rightarrow> u8 list" where
  "put_at pos d bytes = take pos bytes @ replicate (pos - length bytes) 0 @ d @ drop (pos + length d) bytes"

definition file_put :: "u8 list \<Rightarrow> file_sink \<Rightarrow> file_sink" where
  "file_put d s = (if d = [] then s
     else s\<lparr>fs_bytes := put_at (fs_pos s) d (fs_bytes s), fs_pos := fs_pos s + length d\<rparr>)"

fun file_write_loop :: "write_result list \<Rightarrow> u8 list \<Rightarrow> file_sink \<Rightarrow> int \<times> file_sink" where
  "file_write_loop [] data s = (0, (file_put data s)\<lparr>fs_script := []\<rparr>)"
| "file_write_loop (r # rs) data s =
     (if data = [] then (0, s\<lparr>fs_script := r # rs\<rparr>)
      else case r of
             Interrupted \<Rightarrow> file_write_loop rs data s
           | Failed \<Rightarrow> (- 1, s\<lparr>fs_script := rs\<rparr>)
           | Wrote n \<Rightarrow> file_write_loop rs (drop n data) (file_put (take n data) s))"

definition file_write :: "u8 list \<Rightarrow> file_sink \<Rightarrow> int \<times> file_sink" where
  "file_write data s = file_write_loop (fs_script s) data s"

text \<open>\<open>lseek\<close> to a negative offset and \<open>ftruncate\<close> to a negative length fail.\<close>

definition file_skip :: "u64 \<Rightarrow> file_sink \<Rightarrow> int \<times> file_sink" where
  "file_skip cnt s =
     (let p = int (fs_pos s) + sint cnt in if p < 0 then (- 1, s) else (0, s\<lparr>fs_pos := nat p\<rparr>))"

definition file_pad :: "u64 \<Rightarrow> file_sink \<Rightarrow> int \<times> file_sink" where
  "file_pad len s =
     (if sint len < 0 then (- EINVAL, s)
      else let n = nat (sint len)
           in (0, s\<lparr>fs_bytes := take n (fs_bytes s) @ replicate (n - length (fs_bytes s)) 0\<rparr>))"

definition file_ops :: "file_sink output_file_ops" where
  "file_ops = \<lparr>op_skip = file_skip, op_pad = file_pad, op_write = file_write\<rparr>"

section \<open>A callback\<close>

text \<open>The function is called with the private state, with a null pointer for skipped bytes.\<close>

type_synonym 'p callback = "'p \<Rightarrow> u8 list option \<Rightarrow> u64 \<Rightarrow> int \<times> 'p"

fun callback_skip_loop :: "'p callback \<Rightarrow> nat list \<Rightarrow> 'p \<Rightarrow> int \<times> 'p" where
  "callback_skip_loop wr [] p = (0, p)"
| "callback_skip_loop wr (n # ns) p =
     (let (ret, p') = wr p None (of_nat n) in if ret < 0 then (ret, p') else callback_skip_loop wr ns p')"

definition callback_file_skip :: "'p callback \<Rightarrow> u64 \<Rightarrow> 'p \<Rightarrow> int \<times> 'p" where
  "callback_file_skip wr off p = callback_skip_loop wr (pieces (nat INT_MAX) (nat (sint off))) p"

definition callback_file_pad :: "u64 \<Rightarrow> 'p \<Rightarrow> int \<times> 'p" where
  "callback_file_pad len p = (- 1, p)"

definition callback_file_write :: "'p callback \<Rightarrow> u8 list \<Rightarrow> 'p \<Rightarrow> int \<times> 'p" where
  "callback_file_write wr data p = wr p (Some data) (of_nat (length data))"

definition callback_file_ops :: "'p callback \<Rightarrow> 'p output_file_ops" where
  "callback_file_ops wr = \<lparr>op_skip = callback_file_skip wr, op_pad = callback_file_pad,
     op_write = callback_file_write wr\<rparr>"

text \<open>The callback of \<open>sparse_file_len\<close>, and one that keeps what it is given.\<close>

definition out_counter_write :: "u64 callback" where
  "out_counter_write count data len = (0, count + len)"

definition collect_write :: "u8 list callback" where
  "collect_write p data len = (0, p @ (case data of Some d \<Rightarrow> d | None \<Rightarrow> replicate (unat len) 0))"

section \<open>Opening an output file\<close>

text \<open>\<open>None\<close> is a null file; the descriptor keeps what was written to it.\<close>

definition output_file_open_fd ::
  "file_sink \<Rightarrow> u32 \<Rightarrow> u64 \<Rightarrow> bool \<Rightarrow> u32 \<Rightarrow> bool \<Rightarrow> (file_sink + file_sink output_file) run" where
  "output_file_open_fd fd block_size len sparse chunks crc =
     output_file_init file_ops fd block_size len sparse chunks crc"

definition output_file_open_callback ::
  "'p callback \<Rightarrow> 'p \<Rightarrow> u32 \<Rightarrow> u64 \<Rightarrow> bool \<Rightarrow> u32 \<Rightarrow> bool \<Rightarrow> ('p + 'p output_file) run" where
  "output_file_open_callback wr priv block_size len sparse chunks crc =
     output_file_init (callback_file_ops wr) priv block_size len sparse chunks crc"

section \<open>The interface of a sink\<close>

text \<open>What the sparse format needs of a sink: writes only.\<close>

locale byte_sink =
  fixes ops :: "'s output_file_ops" and good :: "'s \<Rightarrow> bool"
    and written :: "'s \<Rightarrow> 'm" and app :: "'m \<Rightarrow> u8 list \<Rightarrow> 'm"
  assumes app_Nil: "app m [] = m"
    and app_append: "app m (d @ e) = app (app m d) e"
    and write_law: "good s \<Longrightarrow> \<exists>s'. op_write ops d s = (0, s') \<and> good s' \<and> written s' = app (written s) d"
begin

lemma do_write_good:
  assumes "of_ops out = ops" "good (of_sink out)"
  shows "\<exists>s'. do_write d out = (0, out\<lparr>of_sink := s'\<rparr>) \<and> good s' \<and> written s' = app (written (of_sink out)) d"
  using write_law[OF assms(2), of d] assms(1) by (auto simp: do_write_def)

lemma emit_good:
  assumes "of_ops out = ops" "good (of_sink out)"
  shows "\<exists>s'. emit d err k out = k (out\<lparr>of_sink := s'\<rparr>) \<and> good s' \<and> written s' = app (written (of_sink out)) d"
  using do_write_good[OF assms, of d] by (auto simp: emit_def)

lemma emit_all_good:
  assumes "of_ops out = ops" "good (of_sink out)"
  shows "\<exists>s'. emit_all ds err k out = k (out\<lparr>of_sink := s'\<rparr>) \<and> good s' \<and>
    written s' = app (written (of_sink out)) (concat ds)"
  using assms
proof (induction ds arbitrary: out)
  case Nil
  show ?case by (rule exI[of _ "of_sink out"]) (simp add: app_Nil Nil)
next
  case (Cons d ds)
  from emit_good[OF Cons.prems, of d err "emit_all ds err k"] obtain s' where
    s: "emit d err (emit_all ds err k) out = emit_all ds err k (out\<lparr>of_sink := s'\<rparr>)" "good s'"
      "written s' = app (written (of_sink out)) d" by auto
  from Cons.IH[of "out\<lparr>of_sink := s'\<rparr>"] Cons.prems s obtain s'' where
    "emit_all ds err k (out\<lparr>of_sink := s'\<rparr>) = k (out\<lparr>of_sink := s''\<rparr>)" "good s''"
      "written s'' = app (written s') (concat ds)" by auto
  with s show ?case by (intro exI[of _ s'']) (simp add: app_append)
qed

end

text \<open>Expanded output also skips, which is the same as writing zeros.\<close>

locale output_sink = byte_sink ops good written app
  for ops :: "'s output_file_ops" and good :: "'s \<Rightarrow> bool"
    and written :: "'s \<Rightarrow> 'm" and app :: "'m \<Rightarrow> u8 list \<Rightarrow> 'm" +
  assumes skip_law: "good s \<Longrightarrow> 0 \<le> sint n \<Longrightarrow>
      \<exists>s'. op_skip ops n s = (0, s') \<and> good s' \<and> written s' = app (written s) (replicate (unat n) 0)"
begin

lemma do_skip_good:
  assumes "of_ops out = ops" "good (of_sink out)" "0 \<le> sint n"
  shows "\<exists>s'. do_skip n out = Inr (0, out\<lparr>of_sink := s'\<rparr>) \<and> good s' \<and>
    written s' = app (written (of_sink out)) (replicate (unat n) 0)"
  using skip_law[OF assms(2,3)] assms(1) by (auto simp: do_skip_def)

end

section \<open>The sinks keep the interface\<close>

text \<open>What a reader of the file will see: a hole up to the offset reads as zeros.\<close>

definition file_view :: "file_sink \<Rightarrow> u8 list" where
  "file_view s = fs_bytes s @ replicate (fs_pos s - length (fs_bytes s)) 0"

definition file_good :: "file_sink \<Rightarrow> bool" where
  "file_good s \<longleftrightarrow> length (fs_bytes s) \<le> fs_pos s \<and> Failed \<notin> set (fs_script s)"

lemma file_put_good:
  assumes "length (fs_bytes s) \<le> fs_pos s"
  shows "length (fs_bytes (file_put d s)) \<le> fs_pos (file_put d s) \<and> file_view (file_put d s) = file_view s @ d"
  using assms by (simp add: file_put_def file_view_def put_at_def)

lemma file_write_loop_good:
  assumes "length (fs_bytes s) \<le> fs_pos s" "Failed \<notin> set rs"
  shows "\<exists>s'. file_write_loop rs data s = (0, s') \<and> file_good s' \<and> file_view s' = file_view s @ data"
  using assms
proof (induction rs data s rule: file_write_loop.induct)
  case (1 data s)
  with file_put_good[of s data] show ?case by (simp add: file_good_def file_view_def)
next
  case (2 r rs data s)
  show ?case
  proof (cases "data = []")
    case True
    with 2 show ?thesis by (simp add: file_good_def file_view_def)
  next
    case False
    show ?thesis
    proof (cases r)
      case (Wrote n)
      with 2 False file_put_good[of s "take n data"] show ?thesis by simp
    qed (use 2 False in auto)
  qed
qed

lemma file_write_good:
  "file_good s \<Longrightarrow> \<exists>s'. file_write data s = (0, s') \<and> file_good s' \<and> file_view s' = file_view s @ data"
  using file_write_loop_good by (simp add: file_write_def file_good_def)

lemma sint_nonneg_unat:
  assumes "0 \<le> sint (n :: u64)"
  shows "sint n = int (unat n)"
proof -
  have "sint n < 2 ^ 64" using sint_lt[of n] by simp
  with assms have "uint n = sint n" by (simp add: uint_sint take_bit_int_eq_self)
  then show ?thesis by (simp flip: uint_nat)
qed

lemma sint_small:
  assumes "unat (n :: u64) < 2 ^ 63"
  shows "sint n = int (unat n)"
proof -
  have "int (unat n) < int (2 ^ 63)" using assms by (simp only: of_nat_less_iff)
  then have "uint n < 2 ^ 63" by simp
  moreover have "- (2 ^ 63) \<le> uint n" by (rule order_trans[OF _ unsigned_greater_eq]) simp
  ultimately show ?thesis by (simp add: sint_uint signed_take_bit_int_eq_self)
qed

lemma file_skip_good:
  assumes "file_good s" "0 \<le> sint n"
  shows "\<exists>s'. file_skip n s = (0, s') \<and> file_good s' \<and> file_view s' = file_view s @ replicate (unat n) 0"
proof -
  have "file_skip n s = (0, s\<lparr>fs_pos := fs_pos s + unat n\<rparr>)"
  proof -
    have "int (fs_pos s) + sint n = int (fs_pos s + unat n)"
      unfolding sint_nonneg_unat[OF assms(2)] by (rule of_nat_add[symmetric])
    then show ?thesis by (simp only: file_skip_def Let_def nat_int of_nat_less_0_iff if_False)
  qed
  with assms(1) show ?thesis by (simp add: file_good_def file_view_def flip: replicate_add)
qed

interpretation fd_sink: output_sink file_ops file_good file_view "(@)"
  by unfold_locales (simp_all add: file_ops_def file_write_good file_skip_good)

text \<open>As long as nothing is skipped, the descriptor stays at the end of the file.\<close>

definition file_exact :: "file_sink \<Rightarrow> bool" where
  "file_exact s \<longleftrightarrow> fs_pos s = length (fs_bytes s) \<and> Failed \<notin> set (fs_script s)"

lemma file_put_exact:
  assumes "fs_pos s = length (fs_bytes s)"
  shows "fs_pos (file_put d s) = length (fs_bytes (file_put d s)) \<and> fs_bytes (file_put d s) = fs_bytes s @ d"
  using assms by (simp add: file_put_def put_at_def)

lemma file_write_loop_exact:
  assumes "fs_pos s = length (fs_bytes s)" "Failed \<notin> set rs"
  shows "\<exists>s'. file_write_loop rs data s = (0, s') \<and> file_exact s' \<and> fs_bytes s' = fs_bytes s @ data"
  using assms
proof (induction rs data s rule: file_write_loop.induct)
  case (1 data s)
  with file_put_exact[of s data] show ?case by (simp add: file_exact_def)
next
  case (2 r rs data s)
  show ?case
  proof (cases "data = []")
    case True
    with 2 show ?thesis by (simp add: file_exact_def)
  next
    case False
    show ?thesis
    proof (cases r)
      case (Wrote n)
      with 2 False file_put_exact[of s "take n data"] show ?thesis by simp
    qed (use 2 False in auto)
  qed
qed

lemma file_write_exact:
  "file_exact s \<Longrightarrow> \<exists>s'. file_write data s = (0, s') \<and> file_exact s' \<and> fs_bytes s' = fs_bytes s @ data"
  using file_write_loop_exact by (simp add: file_write_def file_exact_def)

interpretation fd_bytes: byte_sink file_ops file_exact fs_bytes "(@)"
  by unfold_locales (simp_all add: file_ops_def file_write_exact)

lemma sum_list_pieces: "0 < limit \<Longrightarrow> sum_list (pieces limit n) = n"
proof (induction limit n rule: pieces.induct)
  case (1 limit n)
  then show ?case by (subst pieces.simps) (cases "n = 0", auto)
qed

lemma pieces_le: "k \<in> set (pieces limit n) \<Longrightarrow> 0 < k \<and> k \<le> limit \<and> k \<le> n"
proof (induction limit n rule: pieces.induct)
  case (1 limit n)
  then show ?case by (subst (asm) pieces.simps) (fastforce split: if_splits)
qed

text \<open>A callback that keeps the interface when called, with data or with a null pointer.\<close>

locale good_callback =
  fixes wr :: "'p callback" and written :: "'p \<Rightarrow> 'm" and app :: "'m \<Rightarrow> u8 list \<Rightarrow> 'm"
  assumes act_Nil: "app m [] = m"
    and act_append: "app m (d @ e) = app (app m d) e"
    and data_law: "\<exists>p'. wr p (Some d) (of_nat (length d)) = (0, p') \<and> written p' = app (written p) d"
    and null_law: "n < 2 ^ 64 \<Longrightarrow>
      \<exists>p'. wr p None (of_nat n) = (0, p') \<and> written p' = app (written p) (replicate n 0)"
begin

lemma skip_loop:
  assumes "\<forall>n\<in>set ns. n < 2 ^ 64"
  shows "\<exists>p'. callback_skip_loop wr ns p = (0, p') \<and> written p' = app (written p) (replicate (sum_list ns) 0)"
  using assms
proof (induction ns arbitrary: p)
  case Nil
  show ?case by (simp add: act_Nil)
next
  case (Cons n ns)
  from Cons.prems null_law[of n p] obtain p' where
    p: "wr p None (of_nat n) = (0, p')" "written p' = app (written p) (replicate n 0)" by auto
  from Cons.IH[of p'] Cons.prems p show ?case by (auto simp: replicate_add act_append)
qed

lemma sink: "output_sink (callback_file_ops wr) (\<lambda>_. True) written app"
proof
  fix s :: 'p and n :: u64
  assume n: "0 \<le> sint n"
  have "\<forall>k\<in>set (pieces (nat INT_MAX) (unat n)). k < 2 ^ 64"
    using pieces_le[of _ "nat INT_MAX" "unat n"] by (fastforce simp: INT_MAX_def)
  from skip_loop[OF this, of s]
  show "\<exists>s'. op_skip (callback_file_ops wr) n s = (0, s') \<and> True \<and>
      written s' = app (written s) (replicate (unat n) 0)"
    by (simp add: callback_file_ops_def callback_file_skip_def sint_nonneg_unat[OF n] sum_list_pieces INT_MAX_def)
next
  fix s :: 'p and d
  show "\<exists>s'. op_write (callback_file_ops wr) d s = (0, s') \<and> True \<and> written s' = app (written s) d"
    using data_law[of s d] by (simp add: callback_file_ops_def callback_file_write_def)
qed (simp_all add: act_Nil act_append)

end

definition count_bytes :: "u64 \<Rightarrow> u8 list \<Rightarrow> u64" where
  "count_bytes c d = c + of_nat (length d)"

interpretation counter: good_callback out_counter_write id count_bytes
  by unfold_locales (simp_all add: out_counter_write_def count_bytes_def)

interpretation collector: good_callback collect_write id "(@)"
  by unfold_locales (simp_all add: collect_write_def unat_of_nat_small)

interpretation counter_sink: output_sink "callback_file_ops out_counter_write" "\<lambda>_. True" id count_bytes
  by (rule counter.sink)

interpretation collector_sink: output_sink "callback_file_ops collect_write" "\<lambda>_. True" id "(@)"
  by (rule collector.sink)

end
