(* ===== verification/SpSparse.thy ===== *)
theory SpSparse imports SpSink begin

text \<open>
  \<open>libsparse/sparse.cpp\<close>: a sparse file and the operations that build it, count its chunks, write it,
  measure it and cut it into pieces. An \<open>int\<close> result is an integer (0, or a negative error). A loop
  over the block list that splits blocks on the way may run for ever: its result is \<open>None\<close> then.
\<close>

section \<open>State\<close>

record sparse_file =
  sf_block_size :: u32
  sf_len :: u64
  sf_verbose :: bool
  sf_list :: backed_block_list

definition sparse_file_new :: "u32 \<Rightarrow> u64 \<Rightarrow> sparse_file" where
  "sparse_file_new block_size len = \<lparr>sf_block_size = block_size, sf_len = len, sf_verbose = False,
     sf_list = backed_block_list_new block_size\<rparr>"

abbreviation sf_blocks :: "sparse_file \<Rightarrow> backed_block list" where
  "sf_blocks s \<equiv> bbl_blocks (sf_list s)"

definition with_list :: "sparse_file \<Rightarrow> backed_block_list run \<Rightarrow> sparse_file run" where
  "with_list s r = bind_run r (\<lambda>l. Inr (s\<lparr>sf_list := l\<rparr>))"

definition sparse_file_add_data :: "sparse_file \<Rightarrow> u8 list \<Rightarrow> u64 \<Rightarrow> u32 \<Rightarrow> sparse_file run" where
  "sparse_file_add_data s data len block = with_list s (backed_block_add_data (sf_list s) data len block)"

definition sparse_file_add_fill :: "sparse_file \<Rightarrow> u32 \<Rightarrow> u64 \<Rightarrow> u32 \<Rightarrow> sparse_file run" where
  "sparse_file_add_fill s fill_val len block = with_list s (backed_block_add_fill (sf_list s) fill_val len block)"

definition sparse_file_add_file :: "sparse_file \<Rightarrow> string \<Rightarrow> u64 \<Rightarrow> u64 \<Rightarrow> u32 \<Rightarrow> sparse_file run" where
  "sparse_file_add_file s filename file_offset len block =
     with_list s (backed_block_add_file (sf_list s) filename file_offset len block)"

definition sparse_file_add_fd :: "sparse_file \<Rightarrow> nat \<Rightarrow> u64 \<Rightarrow> u64 \<Rightarrow> u32 \<Rightarrow> sparse_file run" where
  "sparse_file_add_fd s fd file_offset len block =
     with_list s (backed_block_add_fd (sf_list s) fd file_offset len block)"

section \<open>Counting and writing\<close>

text \<open>\<open>last_block\<close> after a block; the sum is computed in 64 bits and stored in 32.\<close>

definition block_behind :: "u32 \<Rightarrow> backed_block \<Rightarrow> u32" where
  "block_behind block_size bb = ucast (ucast (bb_block bb) + div_round_up (bb_len bb) (ucast block_size))"

fun count_chunks :: "u32 \<Rightarrow> backed_block list \<Rightarrow> u32 \<Rightarrow> u32 \<Rightarrow> u32 \<times> u32" where
  "count_chunks block_size [] last_block chunks = (last_block, chunks)"
| "count_chunks block_size (bb # bbs) last_block chunks =
     count_chunks block_size bbs (block_behind block_size bb)
       ((if bb_block bb > last_block then chunks + 1 else chunks) + 1)"

definition sparse_count_chunks :: "sparse_file \<Rightarrow> u32 run" where
  "sparse_count_chunks s =
     bind_run (signed_div_round_up (sf_len s) (sf_block_size s)) (\<lambda>blks.
       let (last_block, chunks) = count_chunks (sf_block_size s) (sf_blocks s) 0 0
       in Inr (if int (unat last_block) < blks then chunks + 1 else chunks))"

definition sparse_file_write_block :: "env \<Rightarrow> backed_block \<Rightarrow> 's step" where
  "sparse_file_write_block env bb =
     (case bb_backing bb of
        BB_DATA data \<Rightarrow> write_data_chunk (bb_len bb) data
      | BB_FILE filename offset \<Rightarrow> write_file_chunk env (bb_len bb) filename offset
      | BB_FD fd offset \<Rightarrow> write_fd_chunk env (bb_len bb) fd offset
      | BB_FILL v \<Rightarrow> write_fill_chunk (bb_len bb) v)"

text \<open>The loop of \<open>write_all_blocks\<close>; the result of a skip chunk is not looked at.\<close>

fun write_blocks ::
  "env \<Rightarrow> u32 \<Rightarrow> backed_block list \<Rightarrow> u32 \<Rightarrow> 's output_file \<Rightarrow> (int \<times> u32 \<times> 's output_file) run" where
  "write_blocks env block_size [] last_block out = Inr (0, last_block, out)"
| "write_blocks env block_size (bb # bbs) last_block out =
     bind_run (if bb_block bb > last_block
               then bind_run (mul_int64 (bb_block bb - last_block) block_size) (\<lambda>n. write_skip_chunk n out)
               else Inr (0, out)) (\<lambda>(_, out1).
       bind_run (sparse_file_write_block env bb out1) (\<lambda>(ret, out2).
         if ret \<noteq> 0 then Inr (ret, last_block, out2)
         else write_blocks env block_size bbs (block_behind block_size bb) out2))"

definition write_all_blocks :: "env \<Rightarrow> sparse_file \<Rightarrow> 's step" where
  "write_all_blocks env s out =
     bind_run (write_blocks env (sf_block_size s) (sf_blocks s) 0 out) (\<lambda>(ret, last_block, out1).
       if ret \<noteq> 0 then Inr (ret, out1)
       else bind_run (mul_int64 last_block (sf_block_size s)) (\<lambda>n.
              let pad = sf_len s - n
              in check (sint pad \<ge> 0)
                   (if sint pad > 0
                    then bind_run (write_skip_chunk pad out1) (\<lambda>(_, out2). Inr (0, out2))
                    else Inr (0, out1))))"

definition MAX_BACKED_BLOCK_SIZE :: u32 where "MAX_BACKED_BLOCK_SIZE = 64 * 1024 * 1024"

text \<open>The iteration visits the block that a split has put behind the current one.\<close>

partial_function (option) split_all :: "nat \<Rightarrow> backed_block_list \<Rightarrow> backed_block_list option" where
  "split_all i bbl =
     (if i < length (bbl_blocks bbl)
      then split_all (Suc i) (backed_block_split bbl i MAX_BACKED_BLOCK_SIZE)
      else Some bbl)"

definition close_with :: "int \<Rightarrow> 's output_file \<Rightarrow> (int \<times> 's) run" where
  "close_with ret out = bind_run (output_file_close out) (\<lambda>sink. Inr (ret, sink))"

definition write_to :: "env \<Rightarrow> sparse_file \<Rightarrow> ('s + 's output_file) run \<Rightarrow> (int \<times> 's) run" where
  "write_to env s opened =
     bind_run opened (\<lambda>r. case r of
       Inl sink \<Rightarrow> Inr (- ENOMEM, sink)
     | Inr out \<Rightarrow> bind_run (write_all_blocks env s out) (\<lambda>(ret, out'). close_with ret out'))"

definition sparse_file_write ::
  "env \<Rightarrow> sparse_file \<Rightarrow> file_sink \<Rightarrow> bool \<Rightarrow> bool \<Rightarrow> (int \<times> file_sink \<times> sparse_file) run option" where
  "sparse_file_write env s fd sparse crc =
     (if sf_block_size s = 0 then Some (Inl DivisionByZero)
      else map_option (\<lambda>l.
             let s' = s\<lparr>sf_list := l\<rparr>
             in bind_run (sparse_count_chunks s') (\<lambda>chunks.
                  bind_run (write_to env s' (output_file_open_fd fd (sf_block_size s) (sf_len s) sparse chunks crc))
                    (\<lambda>(ret, fd'). Inr (ret, fd', s'))))
             (split_all 0 (sf_list s)))"

definition sparse_file_callback ::
  "env \<Rightarrow> sparse_file \<Rightarrow> bool \<Rightarrow> bool \<Rightarrow> 'p callback \<Rightarrow> 'p \<Rightarrow> (int \<times> 'p) run" where
  "sparse_file_callback env s sparse crc wr priv =
     bind_run (sparse_count_chunks s) (\<lambda>chunks.
       write_to env s (output_file_open_callback wr priv (sf_block_size s) (sf_len s) sparse chunks crc))"

text \<open>
  \<open>sparse_file_foreach_chunk\<close>: the callback is also given the block and the number of blocks of the
  chunk it is called for. A failed chunk leaves without closing the output.
\<close>

record 'p chunk_data =
  cd_priv :: 'p
  cd_block :: u32
  cd_nr_blocks :: u32

definition foreach_chunk_write ::
  "('p \<Rightarrow> u8 list option \<Rightarrow> u64 \<Rightarrow> u32 \<Rightarrow> u32 \<Rightarrow> int \<times> 'p) \<Rightarrow> 'p chunk_data callback" where
  "foreach_chunk_write wr chk data len =
     (let (ret, p) = wr (cd_priv chk) data len (cd_block chk) (cd_nr_blocks chk) in (ret, chk\<lparr>cd_priv := p\<rparr>))"

fun foreach_blocks ::
  "env \<Rightarrow> u32 \<Rightarrow> backed_block list \<Rightarrow> 'p chunk_data output_file
    \<Rightarrow> (int \<times> 'p chunk_data) run" where
  "foreach_blocks env block_size [] out = close_with 0 out"
| "foreach_blocks env block_size (bb # bbs) out =
     (let chk = (of_sink out)\<lparr>cd_block := bb_block bb,
                  cd_nr_blocks := ucast ((bb_len bb - 1) div ucast block_size + 1)\<rparr>
      in bind_run (sparse_file_write_block env bb (out\<lparr>of_sink := chk\<rparr>)) (\<lambda>(ret, out').
           if ret \<noteq> 0 then Inr (ret, of_sink out') else foreach_blocks env block_size bbs out'))"

definition sparse_file_foreach_chunk ::
  "env \<Rightarrow> sparse_file \<Rightarrow> bool \<Rightarrow> bool \<Rightarrow> ('p \<Rightarrow> u8 list option \<Rightarrow> u64 \<Rightarrow> u32 \<Rightarrow> u32 \<Rightarrow> int \<times> 'p) \<Rightarrow> 'p
    \<Rightarrow> (int \<times> 'p) run" where
  "sparse_file_foreach_chunk env s sparse crc wr priv =
     bind_run (sparse_count_chunks s) (\<lambda>chunks.
       bind_run (output_file_open_callback (foreach_chunk_write wr)
           \<lparr>cd_priv = priv, cd_block = 0, cd_nr_blocks = 0\<rparr> (sf_block_size s) (sf_len s) sparse chunks crc)
         (\<lambda>r. case r of
            Inl chk \<Rightarrow> Inr (- ENOMEM, cd_priv chk)
          | Inr out \<Rightarrow> bind_run (foreach_blocks env (sf_block_size s) (sf_blocks s) out)
              (\<lambda>(ret, chk). Inr (ret, cd_priv chk))))"

text \<open>The number of bytes that writing takes, \<open>- 1\<close> when a chunk fails.\<close>

definition sparse_file_len :: "env \<Rightarrow> sparse_file \<Rightarrow> bool \<Rightarrow> bool \<Rightarrow> u64 run" where
  "sparse_file_len env s sparse crc =
     bind_run (sparse_count_chunks s) (\<lambda>chunks.
       bind_run (output_file_open_callback out_counter_write 0 (sf_block_size s) (sf_len s) sparse chunks crc)
         (\<lambda>r. case r of
            Inl count \<Rightarrow> Inr (- 1)
          | Inr out \<Rightarrow> bind_run (write_all_blocks env s out) (\<lambda>(ret, out').
              bind_run (output_file_close out') (\<lambda>count. Inr (if ret < 0 then - 1 else count)))))"

section \<open>Cutting a file into pieces\<close>

text \<open>
  The loop of \<open>move_chunks_up_to_len\<close> at position \<open>i\<close> of \<open>from\<close>: \<open>Stop bbl j\<close> leaves with the blocks
  up to \<open>j\<close> to be moved and more to come, \<open>Done\<close> when every block fits, \<open>Abort\<close> when a chunk fails.
\<close>

datatype cut_result = Stop backed_block_list nat | Done | Abort

definition chunk_overhead :: u32 where "chunk_overhead = 28 + 2 * 12 + 4"

fun cut_loop ::
  "env \<Rightarrow> backed_block_list \<Rightarrow> u32 \<Rightarrow> u32 \<Rightarrow> backed_block list \<Rightarrow> nat \<Rightarrow> u32 \<Rightarrow> int
    \<Rightarrow> u64 output_file \<Rightarrow> cut_result run" where
  "cut_loop env from block_size len [] i last_block file_len out = Inr Done"
| "cut_loop env from block_size len (bb # bbs) i last_block file_len out =
     bind_run (sparse_file_write_block env bb
         (out\<lparr>of_sink := (if bb_block bb > last_block then 12 else 0)\<rparr>)) (\<lambda>(ret, out').
       let count = sint (of_sink out')
       in if ret \<noteq> 0 then Inr Abort
          else if file_len + count > int (unat len)
          then let file_len' = file_len + 12
               in if i = 0 \<or> int (unat len) - file_len' > int (unat (len div 8))
                  then Inr (Stop (backed_block_split from i (word_of_int (int (unat len) - file_len'))) i)
                  else Inr (Stop from (i - 1))
          else cut_loop env from block_size len bbs (Suc i) (block_behind block_size bb)
                 (file_len + count) out')"

text \<open>The result, whether \<open>*out_bb\<close> is set, and the two files.\<close>

definition move_chunks_up_to_len ::
  "env \<Rightarrow> sparse_file \<Rightarrow> sparse_file \<Rightarrow> u32 \<Rightarrow> (int \<times> bool \<times> sparse_file \<times> sparse_file) run" where
  "move_chunks_up_to_len env from to len0 =
     (let len = len0 - chunk_overhead
      in bind_run (output_file_open_callback out_counter_write 0 (sf_block_size to) (sf_len to) True 0 False)
           (\<lambda>r. case r of
              Inl _ \<Rightarrow> Inr (- 1, False, from, to)
            | Inr out \<Rightarrow>
                bind_run (cut_loop env (sf_list from) (sf_block_size to) len (sf_blocks from) 0 0 0 out) (\<lambda>c.
                  let move = (\<lambda>bbl last further.
                        let (src, dst) = backed_block_list_move bbl (sf_list to) (Some 0) last
                        in Inr (0, further, from\<lparr>sf_list := src\<rparr>, to\<lparr>sf_list := dst\<rparr>))
                  in case c of
                       Stop bbl j \<Rightarrow> move bbl (Some j) True
                     | Done \<Rightarrow> move (sf_list from) None False
                     | Abort \<Rightarrow> Inr (0, False, from, to))))"

definition move_whole :: "sparse_file \<Rightarrow> sparse_file \<Rightarrow> sparse_file \<times> sparse_file" where
  "move_whole from to =
     (let (src, dst) = backed_block_list_move (sf_list from) (sf_list to) None None
      in (from\<lparr>sf_list := src\<rparr>, to\<lparr>sf_list := dst\<rparr>))"

text \<open>
  The loop of \<open>sparse_file_resparse\<close>: \<open>outs\<close> are the files stored in \<open>out_s\<close>, \<open>tmp\<close> collects the
  pieces that have no place there. The result is the number of pieces or \<open>- 1\<close>.
\<close>

partial_function (option) resparse_loop ::
  "env \<Rightarrow> u32 \<Rightarrow> int \<Rightarrow> sparse_file \<Rightarrow> sparse_file \<Rightarrow> sparse_file list \<Rightarrow> nat
    \<Rightarrow> (int \<times> sparse_file \<times> sparse_file list) run option" where
  "resparse_loop env max_len out_s_count in_s tmp outs c =
     (case move_chunks_up_to_len env in_s (sparse_file_new (sf_block_size in_s) (sf_len in_s)) max_len of
        Inl e \<Rightarrow> Some (Inl e)
      | Inr (ret, further, in_s', s) \<Rightarrow>
          if ret < 0 then Some (Inr (- 1, in_s', []))
          else let tmp' = (if int c < out_s_count then tmp else snd (move_whole s tmp));
                   outs' = (if int c < out_s_count then outs @ [s] else outs)
               in if further then resparse_loop env max_len out_s_count in_s' tmp' outs' (Suc c)
                  else Some (Inr (int (Suc c), snd (move_whole tmp' in_s'), outs')))"

definition sparse_file_resparse ::
  "env \<Rightarrow> sparse_file \<Rightarrow> u32 \<Rightarrow> int \<Rightarrow> (int \<times> sparse_file \<times> sparse_file list) run option" where
  "sparse_file_resparse env in_s max_len out_s_count =
     resparse_loop env max_len out_s_count in_s (sparse_file_new (sf_block_size in_s) (sf_len in_s)) [] 0"

definition sparse_file_verbose :: "sparse_file \<Rightarrow> sparse_file" where
  "sparse_file_verbose s = s\<lparr>sf_verbose := True\<rparr>"

end
