(* ===== verification/SpRead.thy ===== *)
theory SpRead imports SpSparse begin

text \<open>
  \<open>libsparse/sparse_read.cpp\<close>: reading a sparse image, from a buffer or a descriptor, and reading a
  plain file block by block. The abstract class \<open>SparseFileSource\<close> is a record of functions on the
  state of the source. \<open>copybuf\<close> is filled before each use; \<open>verbose_error\<close> only prints.
\<close>

section \<open>Sources\<close>

record 'x source_ops =
  so_seek :: "u64 \<Rightarrow> 'x \<Rightarrow> int \<times> 'x"
  so_rewind :: "'x \<Rightarrow> int \<times> 'x"
  so_add :: "sparse_file \<Rightarrow> u64 \<Rightarrow> u32 \<Rightarrow> 'x \<Rightarrow> (int \<times> sparse_file) run"
  so_read :: "nat \<Rightarrow> 'x \<Rightarrow> int \<times> u8 list \<times> 'x"
  so_crc :: "u32 \<Rightarrow> u64 \<Rightarrow> 'x \<Rightarrow> int \<times> u32 \<times> 'x"

definition COPY_BUF_SIZE :: nat where "COPY_BUF_SIZE = 1024 * 1024"

subsection \<open>A descriptor\<close>

text \<open>
  The descriptor of a regular file with the outcomes of the next \<open>read\<close> calls: a failure, or at most
  so many bytes (at least one when there is one). After the list a call reads all it is asked for, up
  to the end of the file.
\<close>

datatype read_result = ReadFailed int | ReadUpTo nat

record fd_state =
  rd_fd :: nat
  rd_bytes :: "u8 list"
  rd_pos :: nat
  rd_script :: "read_result list"

definition take_bytes :: "nat \<Rightarrow> fd_state \<Rightarrow> u8 list \<times> fd_state" where
  "take_bytes n s = (bytes_at (rd_pos s) n (rd_bytes s), s\<lparr>rd_pos := rd_pos s + n\<rparr>)"

fun read_loop :: "read_result list \<Rightarrow> nat \<Rightarrow> u8 list \<Rightarrow> fd_state \<Rightarrow> int \<times> u8 list \<times> fd_state" where
  "read_loop [] want acc s =
     (let avail = length (rd_bytes s) - rd_pos s; (d, s') = take_bytes (min want avail) (s\<lparr>rd_script := []\<rparr>)
      in if want \<le> avail then (0, acc @ d, s') else (- EINVAL, acc @ d, s'))"
| "read_loop (r # rs) want acc s =
     (if want = 0 then (0, acc, s\<lparr>rd_script := r # rs\<rparr>)
      else case r of
             ReadFailed e \<Rightarrow> (- e, acc, s\<lparr>rd_script := rs\<rparr>)
           | ReadUpTo n \<Rightarrow>
               let k = min (max 1 n) (min want (length (rd_bytes s) - rd_pos s))
               in if k = 0 then (- EINVAL, acc, s\<lparr>rd_script := rs\<rparr>)
                  else let (d, s') = take_bytes k s in read_loop rs (want - k) (acc @ d) s')"

definition read_all :: "nat \<Rightarrow> fd_state \<Rightarrow> int \<times> u8 list \<times> fd_state" where
  "read_all len s = read_loop (rd_script s) len [] s"

definition fd_seek :: "u64 \<Rightarrow> fd_state \<Rightarrow> int \<times> fd_state" where
  "fd_seek off s =
     (let p = int (rd_pos s) + sint off in if p < 0 then (- EINVAL, s) else (0, s\<lparr>rd_pos := nat p\<rparr>))"

definition fd_rewind :: "fd_state \<Rightarrow> int \<times> fd_state" where
  "fd_rewind s = (0, s\<lparr>rd_pos := 0\<rparr>)"

definition fd_add :: "sparse_file \<Rightarrow> u64 \<Rightarrow> u32 \<Rightarrow> fd_state \<Rightarrow> (int \<times> sparse_file) run" where
  "fd_add s len block x =
     bind_run (sparse_file_add_fd s (rd_fd x) (of_nat (rd_pos x)) len block) (\<lambda>s'. Inr (0, s'))"

fun fd_crc_loop :: "nat list \<Rightarrow> u32 \<Rightarrow> fd_state \<Rightarrow> int \<times> u32 \<times> fd_state" where
  "fd_crc_loop [] crc x = (0, crc, x)"
| "fd_crc_loop (n # ns) crc x =
     (let (ret, d, x') = read_all n x
      in if ret < 0 then (ret, crc, x') else fd_crc_loop ns (sparse_crc32 crc d) x')"

definition fd_crc :: "u32 \<Rightarrow> u64 \<Rightarrow> fd_state \<Rightarrow> int \<times> u32 \<times> fd_state" where
  "fd_crc crc len x = fd_crc_loop (pieces COPY_BUF_SIZE (unat len)) crc x"

definition fd_source :: "fd_state source_ops" where
  "fd_source = \<lparr>so_seek = fd_seek, so_rewind = fd_rewind, so_add = fd_add, so_read = read_all, so_crc = fd_crc\<rparr>"

subsection \<open>A buffer\<close>

text \<open>\<open>buf\<close> is \<open>buf_start\<close> plus \<open>bs_offset\<close>, \<open>buf_end\<close> is behind the last byte.\<close>

record buf_state =
  bs_bytes :: "u8 list"
  bs_offset :: nat

definition AccessOkay :: "int \<Rightarrow> buf_state \<Rightarrow> int" where
  "AccessOkay len x =
     (if len \<le> 0 then - EINVAL
      else if bs_offset x \<ge> length (bs_bytes x) then - EOVERFLOW
      else if len > int (length (bs_bytes x) - bs_offset x) then - EOVERFLOW
      else 0)"

definition buf_seek :: "u64 \<Rightarrow> buf_state \<Rightarrow> int \<times> buf_state" where
  "buf_seek off x =
     (let ret = AccessOkay (sint off) x
      in if ret < 0 then (ret, x) else (0, x\<lparr>bs_offset := bs_offset x + unat off\<rparr>))"

definition buf_rewind :: "buf_state \<Rightarrow> int \<times> buf_state" where
  "buf_rewind x = (0, x\<lparr>bs_offset := 0\<rparr>)"

definition buf_add :: "sparse_file \<Rightarrow> u64 \<Rightarrow> u32 \<Rightarrow> buf_state \<Rightarrow> (int \<times> sparse_file) run" where
  "buf_add s len block x =
     (let ret = AccessOkay (sint len) x
      in if ret < 0 then Inr (ret, s)
         else bind_run (sparse_file_add_data s (drop (bs_offset x) (bs_bytes x)) len block) (\<lambda>s'. Inr (0, s')))"

definition buf_read :: "nat \<Rightarrow> buf_state \<Rightarrow> int \<times> u8 list \<times> buf_state" where
  "buf_read len x =
     (let ret = AccessOkay (int len) x
      in if ret < 0 then (ret, [], x)
         else (0, bytes_at (bs_offset x) len (bs_bytes x), x\<lparr>bs_offset := bs_offset x + len\<rparr>))"

definition buf_crc :: "u32 \<Rightarrow> u64 \<Rightarrow> buf_state \<Rightarrow> int \<times> u32 \<times> buf_state" where
  "buf_crc crc len x =
     (let ret = AccessOkay (sint len) x
      in if ret < 0 then (ret, crc, x)
         else (0, sparse_crc32 crc (bytes_at (bs_offset x) (unat len) (bs_bytes x)),
               x\<lparr>bs_offset := bs_offset x + unat len\<rparr>))"

definition buf_source :: "buf_state source_ops" where
  "buf_source = \<lparr>so_seek = buf_seek, so_rewind = buf_rewind, so_add = buf_add, so_read = buf_read, so_crc = buf_crc\<rparr>"

section \<open>Chunks\<close>

text \<open>\<open>rs_crc\<close> is what \<open>crc_ptr\<close> points to, \<open>None\<close> when it is null.\<close>

record 'x read_state =
  rs_file :: sparse_file
  rs_source :: 'x
  rs_crc :: "u32 option"

type_synonym 'x rstep = "'x read_state \<Rightarrow> (int \<times> 'x read_state) run"

text \<open>Run a step and return its result when that is negative.\<close>

definition and_then :: "'x rstep \<Rightarrow> 'x rstep \<Rightarrow> 'x rstep" where
  "and_then m k st = bind_run (m st) (\<lambda>(ret, st'). if ret < 0 then Inr (ret, st') else k st')"

definition return :: "int \<Rightarrow> 'x rstep" where
  "return ret st = Inr (ret, st)"

definition do_seek :: "'x source_ops \<Rightarrow> u64 \<Rightarrow> 'x rstep" where
  "do_seek ops n st = (let (ret, x) = so_seek ops n (rs_source st) in Inr (ret, st\<lparr>rs_source := x\<rparr>))"

definition do_add :: "'x source_ops \<Rightarrow> u64 \<Rightarrow> u32 \<Rightarrow> 'x rstep" where
  "do_add ops len block st =
     bind_run (so_add ops (rs_file st) len block (rs_source st)) (\<lambda>(ret, s). Inr (ret, st\<lparr>rs_file := s\<rparr>))"

definition do_add_fill :: "u32 \<Rightarrow> u64 \<Rightarrow> u32 \<Rightarrow> 'x rstep" where
  "do_add_fill v len block st =
     bind_run (sparse_file_add_fill (rs_file st) v len block) (\<lambda>s. Inr (0, st\<lparr>rs_file := s\<rparr>))"

definition read_value :: "'x source_ops \<Rightarrow> nat \<Rightarrow> (u8 list \<Rightarrow> 'x rstep) \<Rightarrow> 'x rstep" where
  "read_value ops n k st =
     (let (ret, d, x) = so_read ops n (rs_source st); st' = st\<lparr>rs_source := x\<rparr>
      in if ret < 0 then Inr (ret, st') else k d st')"

definition do_crc :: "'x source_ops \<Rightarrow> u32 \<Rightarrow> u64 \<Rightarrow> 'x rstep" where
  "do_crc ops crc len st =
     (let (ret, c, x) = so_crc ops crc len (rs_source st) in Inr (ret, st\<lparr>rs_source := x, rs_crc := Some c\<rparr>))"

definition with_len :: "u32 \<Rightarrow> (u64 \<Rightarrow> 'x rstep) \<Rightarrow> 'x rstep" where
  "with_len blocks k st =
     bind_run (mul_int64 blocks (sf_block_size (rs_file st))) (\<lambda>len. k len st)"

definition process_raw_chunk :: "'x source_ops \<Rightarrow> u32 \<Rightarrow> u32 \<Rightarrow> u32 \<Rightarrow> 'x rstep" where
  "process_raw_chunk ops chunk_size blocks block = with_len blocks (\<lambda>len st.
     let bs = sf_block_size (rs_file st)
     in if bs = 0 then Inl DivisionByZero
        else if chunk_size mod bs \<noteq> 0 then return (- EINVAL) st
        else if chunk_size div bs \<noteq> blocks then return (- EINVAL) st
        else and_then (do_add ops len block)
               (\<lambda>st. case rs_crc st of
                  Some c \<Rightarrow> and_then (do_crc ops c len) (return 0) st
                | None \<Rightarrow> and_then (do_seek ops len) (return 0) st) st)"

text \<open>The crc of \<open>copybuf\<close> over the pieces of a length.\<close>

definition copybuf_crc :: "(nat \<Rightarrow> u8 list) \<Rightarrow> u64 \<Rightarrow> 'x rstep" where
  "copybuf_crc buf len st =
     (case rs_crc st of
        None \<Rightarrow> return 0 st
      | Some c \<Rightarrow> return 0 (st\<lparr>rs_crc :=
          Some (fold (\<lambda>n c. sparse_crc32 c (buf n)) (pieces COPY_BUF_SIZE (unat len)) c)\<rparr>))"

definition process_fill_chunk :: "'x source_ops \<Rightarrow> u32 \<Rightarrow> u32 \<Rightarrow> u32 \<Rightarrow> 'x rstep" where
  "process_fill_chunk ops chunk_size blocks block = with_len blocks (\<lambda>len st.
     if chunk_size \<noteq> 4 then return (- EINVAL) st
     else read_value ops 4 (\<lambda>d. let fill_val = dec32 0 d in
            and_then (do_add_fill fill_val len block) (copybuf_crc (fill_bytes fill_val) len)) st)"

definition process_skip_chunk :: "u32 \<Rightarrow> u32 \<Rightarrow> 'x rstep" where
  "process_skip_chunk chunk_size blocks st =
     (if chunk_size \<noteq> 0 then return (- EINVAL) st
      else if rs_crc st = None then return 0 st
      else with_len blocks (\<lambda>len. copybuf_crc (\<lambda>n. replicate n 0) len) st)"

definition process_crc32_chunk :: "'x source_ops \<Rightarrow> u32 \<Rightarrow> 'x rstep" where
  "process_crc32_chunk ops chunk_size st =
     (if chunk_size \<noteq> 4 then return (- EINVAL) st
      else read_value ops 4 (\<lambda>d st.
             case rs_crc st of
               Some c \<Rightarrow> if dec32 0 d \<noteq> c then return (- EINVAL) st else return 0 st
             | None \<Rightarrow> return 0 st) st)"

text \<open>The result is the number of blocks as an \<open>int\<close>; an unknown chunk type is only reported.\<close>

definition process_chunk :: "'x source_ops \<Rightarrow> u32 \<Rightarrow> chunk_header \<Rightarrow> u32 \<Rightarrow> 'x rstep" where
  "process_chunk ops chunk_hdr_sz hdr cur_block =
     (let chunk_data_size = ch_total_sz hdr - chunk_hdr_sz; blocks = ch_chunk_sz hdr
      in if ch_chunk_type hdr = CHUNK_TYPE_RAW
         then and_then (process_raw_chunk ops chunk_data_size blocks cur_block) (return (sint blocks))
         else if ch_chunk_type hdr = CHUNK_TYPE_FILL
         then and_then (process_fill_chunk ops chunk_data_size blocks cur_block) (return (sint blocks))
         else if ch_chunk_type hdr = CHUNK_TYPE_DONT_CARE
         then and_then (process_skip_chunk chunk_data_size blocks) (return (sint blocks))
         else if ch_chunk_type hdr = CHUNK_TYPE_CRC32
         then and_then (process_crc32_chunk ops chunk_data_size) (return 0)
         else return 0)"

section \<open>A sparse image\<close>

fun read_chunks :: "'x source_ops \<Rightarrow> u16 \<Rightarrow> nat \<Rightarrow> u32 \<Rightarrow> 'x read_state \<Rightarrow> (int \<times> u32 \<times> 'x read_state) run" where
  "read_chunks ops chunk_hdr_sz 0 cur_block st = Inr (0, cur_block, st)"
| "read_chunks ops chunk_hdr_sz (Suc n) cur_block st =
     bind_run (read_value ops CHUNK_HEADER_LEN (\<lambda>d.
         and_then (if unat chunk_hdr_sz > CHUNK_HEADER_LEN
                   then do_seek ops (of_nat (unat chunk_hdr_sz - CHUNK_HEADER_LEN)) else return 0)
           (process_chunk ops (ucast chunk_hdr_sz) (dec_chunk_header d) cur_block)) st) (\<lambda>(ret, st').
       if ret < 0 then Inr (ret, cur_block, st')
       else read_chunks ops chunk_hdr_sz n (cur_block + word_of_int ret) st')"

definition header_acceptable :: "sparse_header \<Rightarrow> bool" where
  "header_acceptable h \<longleftrightarrow> sh_magic h = SPARSE_HEADER_MAGIC \<and> sh_major_version h = 1 \<and>
     unat (sh_file_hdr_sz h) \<ge> SPARSE_HEADER_LEN \<and> unat (sh_chunk_hdr_sz h) \<ge> CHUNK_HEADER_LEN"

definition sparse_file_read_sparse ::
  "'x source_ops \<Rightarrow> sparse_file \<Rightarrow> 'x \<Rightarrow> bool \<Rightarrow> (int \<times> 'x read_state) run" where
  "sparse_file_read_sparse ops s x crc =
     read_value ops SPARSE_HEADER_LEN (\<lambda>d st.
       let h = dec_sparse_header d
       in if \<not> header_acceptable h then return (- EINVAL) st
          else and_then (if unat (sh_file_hdr_sz h) > SPARSE_HEADER_LEN
                         then do_seek ops (of_nat (unat (sh_file_hdr_sz h) - SPARSE_HEADER_LEN)) else return 0)
                 (\<lambda>st. bind_run (read_chunks ops (sh_chunk_hdr_sz h) (unat (sh_total_chunks h)) 0 st)
                    (\<lambda>(ret, cur_block, st').
                       if ret < 0 then Inr (ret, st')
                       else if sh_total_blks h \<noteq> cur_block then return (- EINVAL) st' else return 0 st')) st)
       \<lparr>rs_file = s, rs_source = x, rs_crc = (if crc then Some 0 else None)\<rparr>"

text \<open>\<open>None\<close> is a null file; the source is left where reading stopped.\<close>

definition sparse_file_import_source ::
  "'x source_ops \<Rightarrow> 'x \<Rightarrow> bool \<Rightarrow> bool \<Rightarrow> (sparse_file option \<times> 'x) run" where
  "sparse_file_import_source ops x verbose crc =
     (let (ret, d, x1) = so_read ops SPARSE_HEADER_LEN x; h = dec_sparse_header d
      in if ret < 0 then Inr (None, x1)
         else if \<not> header_acceptable h then Inr (None, x1)
         else if sh_blk_sz h = 0 \<or> unat (sh_blk_sz h) mod 4 \<noteq> 0 then Inr (None, x1)
         else if sh_total_blks h = 0 then Inr (None, x1)
         else bind_run (mul_int64 (sh_total_blks h) (sh_blk_sz h)) (\<lambda>len.
                let (ret, x2) = so_rewind ops x1
                in if ret < 0 then Inr (None, x2)
                   else bind_run (sparse_file_read_sparse ops
                          ((sparse_file_new (sh_blk_sz h) len)\<lparr>sf_verbose := verbose\<rparr>) x2 crc) (\<lambda>(ret, st).
                        Inr (if ret < 0 then None else Some (rs_file st), rs_source st))))"

definition sparse_file_import :: "fd_state \<Rightarrow> bool \<Rightarrow> bool \<Rightarrow> (sparse_file option \<times> fd_state) run" where
  "sparse_file_import fd verbose crc = sparse_file_import_source fd_source fd verbose crc"

definition sparse_file_import_buf :: "u8 list \<Rightarrow> bool \<Rightarrow> bool \<Rightarrow> sparse_file option run" where
  "sparse_file_import_buf buf verbose crc =
     bind_run (sparse_file_import_source buf_source \<lparr>bs_bytes = buf, bs_offset = 0\<rparr> verbose crc)
       (\<lambda>(s, _). Inr s)"

section \<open>A plain file\<close>

text \<open>Are the 32 bit words of the block all equal? (\<open>buf[0] != buf[i]\<close> from \<open>i = 1\<close> on.)\<close>

definition same_words :: "nat \<Rightarrow> u8 list \<Rightarrow> bool" where
  "same_words bs d \<longleftrightarrow> list_all (\<lambda>i. bytes_at (4 * i) 4 d = bytes_at 0 4 d) [1..<bs div 4]"

text \<open>
  The loop of \<open>do_sparse_file_read_normal\<close> with \<open>remain\<close> bytes to go. Queueing a block returns 0 (or
  aborts). A block of fewer than four bytes has no first word.
\<close>

function read_normal_loop ::
  "nat \<Rightarrow> u64 \<Rightarrow> u32 \<Rightarrow> sparse_file \<Rightarrow> fd_state \<Rightarrow> (int \<times> sparse_file \<times> fd_state) run" where
  "read_normal_loop remain offset block s fd =
     (let bs = unat (sf_block_size s)
      in if remain = 0 \<or> bs = 0 then Inr (0, s, fd)
         else let to_read = min remain bs; (ret, buf, fd') = read_all to_read fd
              in if ret < 0 then Inr (ret, s, fd')
                 else bind_run
                   (if to_read = bs \<and> same_words bs buf
                    then if bs < 4 then Inl OutOfRange
                         else sparse_file_add_fill s (dec32 0 buf) (of_nat to_read) block
                    else sparse_file_add_fd s (rd_fd fd) offset (of_nat to_read) block) (\<lambda>s'.
                   read_normal_loop (remain - to_read) (offset + of_nat to_read) (block + 1) s' fd'))"
  by auto
termination by (relation "measure fst") auto

declare read_normal_loop.simps [simp del]

definition do_sparse_file_read_normal ::
  "sparse_file \<Rightarrow> fd_state \<Rightarrow> u64 \<Rightarrow> u64 \<Rightarrow> (int \<times> sparse_file \<times> fd_state) run" where
  "do_sparse_file_read_normal s fd offset remain =
     (if sf_block_size s = 0 then Inl DivisionByZero
      else read_normal_loop (nat (sint remain)) offset (ucast (offset div ucast (sf_block_size s))) s fd)"

definition sparse_file_read_normal :: "sparse_file \<Rightarrow> fd_state \<Rightarrow> (int \<times> sparse_file \<times> fd_state) run" where
  "sparse_file_read_normal s fd = do_sparse_file_read_normal s fd 0 (sf_len s)"

section \<open>Reading around holes\<close>

text \<open>
  \<open>lseek\<close> with \<open>SEEK_DATA\<close> and \<open>SEEK_HOLE\<close> is an argument: the position of the next data or hole from a
  position on, or minus the error number. The loop may run for ever on a system that reports data
  without end.
\<close>

record hole_map =
  next_data :: "int \<Rightarrow> int"
  next_hole :: "int \<Rightarrow> int"

definition ENXIO :: int where "ENXIO = 6"

definition fd_at :: "int \<Rightarrow> fd_state \<Rightarrow> fd_state" where
  "fd_at p fd = fd\<lparr>rd_pos := nat p\<rparr>"

partial_function (option) read_hole_loop ::
  "hole_map \<Rightarrow> int \<Rightarrow> sparse_file \<Rightarrow> fd_state \<Rightarrow> (int \<times> sparse_file \<times> fd_state) run option" where
  "read_hole_loop h end0 s fd =
     (let bs = int (unat (sf_block_size s)); len = sint (sf_len s); start = next_data h end0
      in if start < 0 then Some (Inr (if start = - ENXIO then 0 else start, s, fd))
         else if start > len then Some (Inr (0, s, fd_at start fd))
         else let end1 = next_hole h start
              in if end1 < 0 then Some (Inr (end1, s, fd_at start fd))
                 else let end2 = min end1 len; start' = bs * (start div bs);
                          end' = bs * ((end2 + bs - 1) div bs)
                      in case do_sparse_file_read_normal s (fd_at start' fd) (word_of_int start')
                                (word_of_int (end' - start')) of
                           Inl e \<Rightarrow> Some (Inl e)
                         | Inr (ret, s', fd') \<Rightarrow>
                             if ret \<noteq> 0 then Some (Inr (ret, s', fd'))
                             else if end' < len then read_hole_loop h end' s' fd'
                             else Some (Inr (0, s', fd')))"

definition sparse_file_read_hole ::
  "hole_map \<Rightarrow> sparse_file \<Rightarrow> fd_state \<Rightarrow> (int \<times> sparse_file \<times> fd_state) run option" where
  "sparse_file_read_hole h s fd =
     (if sf_block_size s = 0 then Some (Inl DivisionByZero) else read_hole_loop h 0 s fd)"

section \<open>The entry points\<close>

datatype sparse_read_mode = SPARSE_READ_MODE_NORMAL | SPARSE_READ_MODE_SPARSE | SPARSE_READ_MODE_HOLE

definition sparse_file_read ::
  "hole_map \<Rightarrow> sparse_file \<Rightarrow> fd_state \<Rightarrow> sparse_read_mode \<Rightarrow> bool
    \<Rightarrow> (int \<times> sparse_file \<times> fd_state) run option" where
  "sparse_file_read h s fd mode crc =
     (if crc \<and> mode \<noteq> SPARSE_READ_MODE_SPARSE then Some (Inr (- EINVAL, s, fd))
      else case mode of
             SPARSE_READ_MODE_SPARSE \<Rightarrow>
               Some (bind_run (sparse_file_read_sparse fd_source s fd crc)
                       (\<lambda>(ret, st). Inr (ret, rs_file st, rs_source st)))
           | SPARSE_READ_MODE_NORMAL \<Rightarrow> Some (sparse_file_read_normal s fd)
           | SPARSE_READ_MODE_HOLE \<Rightarrow> sparse_file_read_hole h s fd)"

definition sparse_file_import_auto ::
  "fd_state \<Rightarrow> bool \<Rightarrow> bool \<Rightarrow> (sparse_file option \<times> fd_state) run" where
  "sparse_file_import_auto fd crc verbose =
     bind_run (sparse_file_import fd False crc) (\<lambda>(r, fd1).
       case r of
         Some s \<Rightarrow> Inr (Some s, fd1)
       | None \<Rightarrow>
           let s = sparse_file_new 4096 (of_nat (length (rd_bytes fd1)));
               s' = (if verbose then sparse_file_verbose s else s)
           in bind_run (sparse_file_read_normal s' (fd1\<lparr>rd_pos := 0\<rparr>)) (\<lambda>(ret, s'', fd2).
                Inr (if ret < 0 then None else Some s'', fd2)))"

end
