(* ===== verification/SpChunks.thy ===== *)
theory SpChunks imports SpSink begin

text \<open>
  What the chunk writers of \<open>libsparse/output_file.cpp\<close> produce: an abstract chunk, its bytes in the
  sparse format and its share of the crc. Every writer of a sparse chunk is shown to add exactly the
  bytes of the chunk to a sink that keeps the interface.
\<close>

section \<open>Chunks\<close>

datatype sparse_chunk = Raw "u8 list" | Fill u32 nat | DontCare nat

fun chunk_blocks :: "nat \<Rightarrow> sparse_chunk \<Rightarrow> nat" where
  "chunk_blocks bs (Raw d) = length d div bs"
| "chunk_blocks bs (Fill v n) = n"
| "chunk_blocks bs (DontCare n) = n"

fun chunk_bytes :: "nat \<Rightarrow> sparse_chunk \<Rightarrow> u8 list" where
  "chunk_bytes bs (Raw d) =
     chunk_image CHUNK_TYPE_RAW (of_nat (length d div bs)) (of_nat (CHUNK_HEADER_LEN + length d)) @ d"
| "chunk_bytes bs (Fill v n) =
     chunk_image CHUNK_TYPE_FILL (of_nat n) (of_nat (CHUNK_HEADER_LEN + 4)) @ enc32 v"
| "chunk_bytes bs (DontCare n) = chunk_image CHUNK_TYPE_DONT_CARE (of_nat n) (of_nat CHUNK_HEADER_LEN)"

text \<open>The crc as the writers update it: one block of a fill chunk, nothing for a skipped range.\<close>

fun writer_crc :: "nat \<Rightarrow> sparse_chunk \<Rightarrow> u32 \<Rightarrow> u32" where
  "writer_crc bs (Raw d) c = sparse_crc32 c d"
| "writer_crc bs (Fill v n) c = ((\<lambda>c. sparse_crc32 c (enc32 v)) ^^ (bs div 4)) c"
| "writer_crc bs (DontCare n) c = c"

definition pad_to :: "nat \<Rightarrow> u8 list \<Rightarrow> u8 list" where
  "pad_to bs d = d @ replicate (div_up (length d) bs * bs - length d) 0"

lemma length_pad_to: "0 < bs \<Longrightarrow> length (pad_to bs d) = div_up (length d) bs * bs"
  using div_up_mult[of bs "length d"] by (simp add: pad_to_def)

section \<open>Arithmetic of the writers\<close>

lemma div_up_le: "0 < bs \<Longrightarrow> div_up n bs * bs < n + bs"
  using div_times_less_eq_dividend[of "n + bs - 1" bs] unfolding div_up_def by linarith

lemma of_nat_unat_id: "of_nat (unat (x :: 'a::len word)) = x"
  by simp

lemma ucast_of_nat_u64: "(ucast (of_nat n :: u64) :: u32) = of_nat n"
  by (simp add: word_unat_eq_iff unsigned_of_nat unat_of_nat take_bit_eq_mod mod_mod_cancel)

lemma unat_align_up:
  fixes w :: u32 and len :: u64
  assumes "0 < w" "div_up (unat len) (unat w) * unat w < 2 ^ 63"
  shows "unat (div_round_up len (ucast w)) = div_up (unat len) (unat w)"
    "unat (align_up len (ucast w)) = div_up (unat len) (unat w) * unat w"
    "unat (align_up len (ucast w) - len) = div_up (unat len) (unat w) * unat w - unat len"
    "align_up len (ucast w) div ucast w = of_nat (div_up (unat len) (unat w))"
proof -
  let ?n = "unat len" and ?k = "unat w"
  have k: "0 < ?k" "?k < 2 ^ 32" using assms(1) unat_u32_lt[of w] by (simp_all add: word_less_nat_alt)
  have n: "?n \<le> div_up ?n ?k * ?k" by (rule div_up_mult[OF k(1)])
  have "?n + ?k < 2 ^ 64" using assms(2) n k(2) by (simp del: unat_u32_lt)
  then have s: "unat (len + ucast w) = ?n + ?k" by (subst unat_add_small) simp_all
  have "unat (len + ucast w - 1) = ?n + ?k - 1" using s k by (subst unat_sub_small) auto
  then show 1: "unat (div_round_up len (ucast w)) = div_up ?n ?k"
    by (simp add: div_round_up_def div_up_def unat_div)
  then show 2: "unat (align_up len (ucast w)) = div_up ?n ?k * ?k"
    using assms(2) by (simp add: align_up_def unat_mult_small mult.commute)
  then show "unat (align_up len (ucast w) - len) = div_up ?n ?k * ?k - ?n"
    using n by (simp add: unat_sub_small)
  have "unat (align_up len (ucast w) div ucast w) = div_up ?n ?k"
    using 2 k by (simp add: unat_div)
  then show "align_up len (ucast w) div ucast w = of_nat (div_up ?n ?k)"
    using of_nat_unat_id[of "align_up len (ucast w) div ucast w"] by simp
qed

lemma concat_zero_pieces: "concat (zero_pieces n) = replicate n 0"
proof -
  have "concat (map (\<lambda>k. replicate k (0 :: u8)) ks) = replicate (sum_list ks) 0" for ks
    by (induction ks) (simp_all add: replicate_add)
  then show ?thesis by (simp add: zero_pieces_def sum_list_pieces FILL_ZERO_BUFSIZE_def)
qed

lemma add_crc_join: "add_crc e (add_crc d out) = add_crc (d @ e) out"
  by (simp add: add_crc_def sparse_crc32_append)

lemma add_crc_Nil [simp]: "add_crc [] out = out"
  by (simp add: add_crc_def)

lemma fold_add_crc: "fold add_crc ds out = add_crc (concat ds) out"
  by (induction ds arbitrary: out) (simp_all add: add_crc_join)

section \<open>Reading a descriptor\<close>

text \<open>
  The system serves the bytes of \<open>src\<close>: a page-aligned range inside a file can be mapped, and a file
  that is opened has the bytes of its name.
\<close>

definition env_ok :: "env \<Rightarrow> sources \<Rightarrow> bool" where
  "env_ok env src \<longleftrightarrow> 0 < env_page_size env \<and> 
     (\<forall>fd off n. off mod env_page_size env = 0 \<longrightarrow> 0 < n \<longrightarrow> unat off + unat n \<le> length (src_fd src fd) \<longrightarrow>
        env_mmap env fd off n = Inr (bytes_at (unat off) (unat n) (src_fd src fd))) \<and>
     (\<forall>f. 0 \<le> env_open env f \<and> src_fd src (nat (env_open env f)) = src_file src f)"

lemma FromFd_bytes:
  assumes env: "env_ok env src" and n: "0 < n" "unat offset + unat n \<le> length (src_fd src fd)"
    and len: "unat offset + unat n < 2 ^ 64"
  shows "MappedFile_FromFd env fd offset n = Some (bytes_at (unat offset) (unat n) (src_fd src fd))"
proof -
  let ?p = "env_page_size env"
  let ?slop = "offset mod ?p"
  have le: "?slop \<le> offset" by (simp add: word_le_nat_alt unat_mod)
  have off: "unat (offset - ?slop) = unat offset - unat ?slop" by (rule unat_sub_small) (use le in \<open>simp add: word_le_nat_alt\<close>)
  have "unat ?slop \<le> unat offset" using le by (simp add: word_le_nat_alt)
  then have size: "unat (n + ?slop) = unat n + unat ?slop" using len by (subst unat_add_small) auto
  have "unat ((offset - ?slop) mod ?p) = 0"
    unfolding unat_mod off by (simp add: unat_mod minus_mod_eq_mult_div)
  then have "(offset - ?slop) mod ?p = 0" by (simp add: unat_eq_zero)
  moreover have "0 < n + ?slop" using size n by (simp add: word_less_nat_alt)
  moreover have "unat (offset - ?slop) + unat (n + ?slop) \<le> length (src_fd src fd)"
    using off size le n by (simp add: word_le_nat_alt)
  ultimately have "env_mmap env fd (offset - ?slop) (n + ?slop) =
      Inr (bytes_at (unat (offset - ?slop)) (unat (n + ?slop)) (src_fd src fd))"
    using env by (auto simp: env_ok_def)
  then show ?thesis using le
    by (simp add: MappedFile_FromFd_def Let_def off size bytes_at_def drop_take word_le_nat_alt)
qed

fun run_pieces :: "(u8 list \<Rightarrow> 'a \<Rightarrow> bool \<times> 'a) \<Rightarrow> u8 list list \<Rightarrow> 'a \<Rightarrow> bool \<times> 'a" where
  "run_pieces callback [] st = (True, st)"
| "run_pieces callback (d # ds) st =
     (let (ok, st') = callback d st in if \<not> ok then (False, st') else run_pieces callback ds st')"

lemma write_fd_chunk_range_pieces:
  assumes "env_ok env src" "unat offset + unat n \<le> length (src_fd src fd)" "unat offset + unat n < 2 ^ 64"
  shows "\<exists>ds. concat ds = bytes_at (unat offset) (unat n) (src_fd src fd) \<and> (ds = [] \<longleftrightarrow> n = 0) \<and>
    write_fd_chunk_range env fd offset n callback st = run_pieces callback ds st"
  using assms
proof (induction env fd offset n callback st rule: write_fd_chunk_range.induct)
  case (1 env fd offset n callback st)
  show ?case
  proof (cases "n = 0")
    case True
    then show ?thesis by (intro exI[of _ "[]"]) (simp add: write_fd_chunk_range.simps bytes_at_def)
  next
    case False
    let ?m = "min kMaxMmapSize n"
    have m: "0 < ?m" "unat ?m \<le> unat n"
      using False by (auto simp: min_def kMaxMmapSize_def word_neq_0_conv word_le_nat_alt)
    have bounds: "unat offset + unat ?m \<le> length (src_fd src fd)" "unat offset + unat ?m < 2 ^ 64"
      using m(2) "1.prems" by linarith+
    have map: "MappedFile_FromFd env fd offset ?m = Some (bytes_at (unat offset) (unat ?m) (src_fd src fd))"
      by (rule FromFd_bytes[OF "1.prems"(1) m(1) bounds])
    have off: "unat (offset + ?m) = unat offset + unat ?m" using bounds(2) by (simp add: unat_add_small)
    have rest: "unat (n - ?m) = unat n - unat ?m" using m(2) by (rule unat_sub_small)
    obtain ok st' where cb: "callback (bytes_at (unat offset) (unat ?m) (src_fd src fd)) st = (ok, st')" by force
    have split: "bytes_at (unat offset) (unat ?m) (src_fd src fd) @
        bytes_at (unat offset + unat ?m) (unat n - unat ?m) (src_fd src fd) = bytes_at (unat offset) (unat n) (src_fd src fd)"
      using m(2) by (simp add: bytes_at_append)
    have "\<exists>ds. concat ds = bytes_at (unat (offset + ?m)) (unat (n - ?m)) (src_fd src fd) \<and>
        (ok \<longrightarrow> write_fd_chunk_range env fd (offset + ?m) (n - ?m) callback st' = run_pieces callback ds st')"
    proof (cases ok)
      case True
      with "1.IH"[OF False refl map cb[symmetric] refl] "1.prems" off rest m(2) show ?thesis by auto
    next
      case False
      then show ?thesis by (intro exI[of _ "[bytes_at (unat (offset + ?m)) (unat (n - ?m)) (src_fd src fd)]"]) simp
    qed
    then obtain ds where ds: "concat ds = bytes_at (unat (offset + ?m)) (unat (n - ?m)) (src_fd src fd)"
      "ok \<Longrightarrow> write_fd_chunk_range env fd (offset + ?m) (n - ?m) callback st' = run_pieces callback ds st'" by auto
    show ?thesis
      by (intro exI[of _ "bytes_at (unat offset) (unat ?m) (src_fd src fd) # ds"])
        (subst write_fd_chunk_range.simps, use False map cb ds split off rest in \<open>simp add: Let_def\<close>)
  qed
qed

section \<open>The writers of sparse chunks\<close>

context byte_sink begin

text \<open>A file in sparse mode whose sink keeps the interface, and one that has taken a list of chunks.\<close>

definition ready :: "'s output_file \<Rightarrow> bool" where
  "ready out \<longleftrightarrow> of_ops out = ops \<and> good (of_sink out) \<and> 0 < of_block_size out"

definition wrote :: "'s output_file \<Rightarrow> sparse_chunk list \<Rightarrow> 's output_file \<Rightarrow> bool" where
  "wrote out cs out' \<longleftrightarrow> (let bs = unat (of_block_size out) in
     good (of_sink out') \<and> written (of_sink out') = app (written (of_sink out)) (concat (map (chunk_bytes bs) cs)) \<and>
     of_crc32 out' = (if use_crc out then fold (writer_crc bs) cs (of_crc32 out) else of_crc32 out) \<and>
     chunk_cnt out' = chunk_cnt out + of_nat (length cs) \<and>
     cur_out_ptr out' = cur_out_ptr out + of_nat (sum_list (map (chunk_blocks bs) cs) * bs) \<and>
     of_ops out' = of_ops out \<and> of_sparse out' = of_sparse out \<and> use_crc out' = use_crc out \<and>
     of_block_size out' = of_block_size out \<and> of_len out' = of_len out)"

lemma wrote_Nil: "ready out \<Longrightarrow> wrote out [] out"
  by (simp add: wrote_def ready_def app_Nil)

lemma wrote_ready: "wrote out cs out' \<Longrightarrow> ready out \<Longrightarrow> ready out' \<and> of_sparse out' = of_sparse out \<and>
    use_crc out' = use_crc out \<and> of_block_size out' = of_block_size out \<and> of_len out' = of_len out"
  by (simp add: wrote_def ready_def Let_def)

lemma wrote_append: "wrote out cs out' \<Longrightarrow> wrote out' ds out'' \<Longrightarrow> wrote out (cs @ ds) out''"
  by (simp add: wrote_def Let_def app_append add_mult_distrib)

lemma ready_sink [simp]: "ready out \<Longrightarrow> good s \<Longrightarrow> ready (out\<lparr>of_sink := s\<rparr>)"
  by (simp add: ready_def)

lemma readyD: "ready out \<Longrightarrow> of_ops out = ops" "ready out \<Longrightarrow> good (of_sink out)"
  "ready out \<Longrightarrow> 0 < of_block_size out"
  by (simp_all add: ready_def)

lemma block_size_pos: "ready out \<Longrightarrow> 0 < unat (of_block_size out)" "ready out \<Longrightarrow> of_block_size out \<noteq> 0"
  by (simp_all add: ready_def word_less_nat_alt word_neq_0_conv)

lemma skip_chunk:
  assumes r: "ready out" and n: "unat skip_len = n * unat (of_block_size out)"
  shows "\<exists>out'. write_sparse_skip_chunk skip_len out = Inr (0, out') \<and> wrote out [DontCare n] out'"
proof -
  let ?w = "of_block_size out"
  note pos = block_size_pos[OF r]
  have "unat (skip_len mod ucast ?w) = 0" "unat (skip_len div ucast ?w) = n"
    using n pos by (simp_all add: unat_mod unat_div)
  then have md: "skip_len mod ucast ?w = 0" "skip_len div ucast ?w = of_nat n"
    using of_nat_unat_id[of "skip_len div ucast ?w"] by (simp_all add: unat_eq_zero)
  have ptr: "of_nat n * ucast ?w = skip_len" using of_nat_unat_id[of skip_len] unfolding n by simp
  obtain s' where s: "emit (chunk_image CHUNK_TYPE_DONT_CARE (of_nat n) (of_nat CHUNK_HEADER_LEN)) minus_one
        (finish_chunk skip_len) out = finish_chunk skip_len (out\<lparr>of_sink := s'\<rparr>)" "good s'"
      "written s' = app (written (of_sink out)) (chunk_image CHUNK_TYPE_DONT_CARE (of_nat n) (of_nat CHUNK_HEADER_LEN))"
    using emit_good[OF readyD(1,2)[OF r]] by blast
  then show ?thesis using pos md
    by (simp add: write_sparse_skip_chunk_def with_blocks_def finish_chunk_def wrote_def Let_def ucast_of_nat_u64 ptr)
qed

lemma funpow_add_crc:
  "((add_crc d) ^^ k) out = (if use_crc out then out\<lparr>of_crc32 := ((\<lambda>c. sparse_crc32 c d) ^^ k) (of_crc32 out)\<rparr> else out)"
  by (induction k) (simp_all add: add_crc_def)

lemma fill_chunk:
  assumes r: "ready out" and len: "div_up (unat len) (unat (of_block_size out)) * unat (of_block_size out) < 2 ^ 63"
  shows "\<exists>out'. write_sparse_fill_chunk len v out = Inr (0, out') \<and>
    wrote out [Fill v (div_up (unat len) (unat (of_block_size out)))] out'"
proof -
  let ?w = "of_block_size out"
  let ?h = "chunk_image CHUNK_TYPE_FILL (of_nat (div_up (unat len) (unat ?w))) (of_nat (CHUNK_HEADER_LEN + 4))"
  let ?k = "\<lambda>out. finish_chunk (align_up len (ucast ?w)) (((add_crc (enc32 v)) ^^ (unat (of_block_size out) div 4)) out)"
  note al = unat_align_up[OF readyD(3)[OF r] len]
  have ptr: "of_nat (div_up (unat len) (unat ?w)) * ucast ?w = align_up len (ucast ?w)"
    using of_nat_unat_id[of "align_up len (ucast ?w)"] unfolding al(2) by simp
  obtain s1 where s1: "emit ?h minus_one (emit (enc32 v) minus_one ?k) out =
        emit (enc32 v) minus_one ?k (out\<lparr>of_sink := s1\<rparr>)" "good s1" "written s1 = app (written (of_sink out)) ?h"
    using emit_good[OF readyD(1,2)[OF r]] by blast
  obtain s2 where s2: "emit (enc32 v) minus_one ?k (out\<lparr>of_sink := s1\<rparr>) = ?k (out\<lparr>of_sink := s2\<rparr>)" "good s2"
      "written s2 = app (written s1) (enc32 v)"
    using emit_good[OF readyD(1,2)[OF ready_sink[OF r s1(2)]], of "enc32 v" minus_one ?k] by auto
  have "write_sparse_fill_chunk len v out = ?k (out\<lparr>of_sink := s2\<rparr>)"
    using block_size_pos(2)[OF r] al(4) s1(1) s2(1)
    by (simp add: write_sparse_fill_chunk_def with_blocks_def Let_def ucast_of_nat_u64)
  then show ?thesis using s1 s2 block_size_pos(1)[OF r]
    by (simp add: funpow_add_crc finish_chunk_def wrote_def Let_def app_append ptr)
qed

text \<open>The common end of the two writers of raw chunks.\<close>

definition raw_header :: "u32 \<Rightarrow> u64 \<Rightarrow> u8 list" where
  "raw_header w len = chunk_image CHUNK_TYPE_RAW (ucast (align_up len (ucast w) div ucast w))
     (of_nat CHUNK_HEADER_LEN + ucast (align_up len (ucast w)))"

lemma raw_done:
  assumes r: "ready out" and fits: "div_up (length d) (unat (of_block_size out)) * unat (of_block_size out) < 2 ^ 63"
    and len: "unat len = length d"
    and z: "zeros = zero_pieces (unat (align_up len (ucast (of_block_size out)) - len))"
    and s: "good s" "written s = app (written (of_sink out)) (raw_header (of_block_size out) len @ d @ concat zeros)"
  shows "\<exists>out'. finish_chunk (align_up len (ucast (of_block_size out))) (add_crc (d @ concat zeros) (out\<lparr>of_sink := s\<rparr>)) =
      Inr (0, out') \<and> wrote out [Raw (pad_to (unat (of_block_size out)) d)] out'"
proof -
  let ?w = "of_block_size out"
  let ?al = "align_up len (ucast ?w)"
  note al = unat_align_up[OF readyD(3)[OF r], of len, unfolded len, OF fits]
  note lp = length_pad_to[OF block_size_pos(1)[OF r], of d]
  have pad: "d @ concat zeros = pad_to (unat ?w) d" by (simp add: z concat_zero_pieces al(3) pad_to_def)
  have ptr: "of_nat (div_up (length d) (unat ?w)) * ucast ?w = ?al"
    using of_nat_unat_id[of ?al] unfolding al(2) by simp
  have "(ucast ?al :: u32) = of_nat (unat ?al)" by simp
  then have total: "(of_nat CHUNK_HEADER_LEN + ucast ?al :: u32) =
      of_nat (CHUNK_HEADER_LEN + length (pad_to (unat ?w) d))"
    unfolding al(2) lp by (simp only: of_nat_add)
  have hdr: "raw_header ?w len @ pad_to (unat ?w) d = chunk_bytes (unat ?w) (Raw (pad_to (unat ?w) d))"
    using block_size_pos(1)[OF r] unfolding raw_header_def total al(4) by (simp add: lp ucast_of_nat_u64)
  show ?thesis using s block_size_pos(1)[OF r]
    by (simp add: pad hdr finish_chunk_def wrote_def Let_def add_crc_def lp ptr)
qed

lemma data_chunk:
  assumes r: "ready out" and len: "unat len \<le> length data"
    and fits: "div_up (unat len) (unat (of_block_size out)) * unat (of_block_size out) < 2 ^ 63"
  shows "\<exists>out'. write_sparse_data_chunk len data out = Inr (0, out') \<and>
    wrote out [Raw (pad_to (unat (of_block_size out)) (take (unat len) data))] out'"
proof -
  let ?w = "of_block_size out" and ?d = "take (unat len) data"
  let ?al = "align_up len (ucast ?w)"
  define zeros where "zeros = zero_pieces (unat (?al - len))"
  define k where "k = (\<lambda>out :: 's output_file. finish_chunk ?al (fold add_crc zeros (add_crc ?d out)))"
  obtain s1 where s1: "emit (raw_header ?w len) minus_one (with_data data len (\<lambda>d. emit d minus_one
        (emit_all zeros id (\<lambda>out. finish_chunk ?al (fold add_crc zeros (add_crc d out)))))) out =
      emit ?d minus_one (emit_all zeros id k) (out\<lparr>of_sink := s1\<rparr>)"
      "good s1" "written s1 = app (written (of_sink out)) (raw_header ?w len)"
    using emit_good[OF readyD(1,2)[OF r], of "raw_header ?w len" minus_one] len
    unfolding with_data_def k_def by fastforce
  obtain s2 where s2: "emit ?d minus_one (emit_all zeros id k) (out\<lparr>of_sink := s1\<rparr>) =
      emit_all zeros id k (out\<lparr>of_sink := s2\<rparr>)" "good s2" "written s2 = app (written s1) ?d"
    using emit_good[OF readyD(1,2)[OF ready_sink[OF r s1(2)]], of ?d minus_one "emit_all zeros id k"] by auto
  obtain s3 where s3: "emit_all zeros id k (out\<lparr>of_sink := s2\<rparr>) = k (out\<lparr>of_sink := s3\<rparr>)" "good s3"
      "written s3 = app (written s2) (concat zeros)"
    using emit_all_good[OF readyD(1,2)[OF ready_sink[OF r s2(2)]], of zeros id k] by auto
  have "write_sparse_data_chunk len data out = k (out\<lparr>of_sink := s3\<rparr>)"
    using block_size_pos(2)[OF r] s1(1) s2(1) s3(1)
    by (simp add: write_sparse_data_chunk_def with_blocks_def Let_def raw_header_def zeros_def)
  moreover have "k (out\<lparr>of_sink := s3\<rparr>) = finish_chunk ?al (add_crc (?d @ concat zeros) (out\<lparr>of_sink := s3\<rparr>))"
    by (simp add: k_def fold_add_crc add_crc_join)
  moreover have "unat len = length ?d" using len by simp
  ultimately show ?thesis
    using raw_done[OF r _ _ zeros_def s3(2), of ?d] fits s1(3) s2(3) s3(3) by (simp add: app_append)
qed

lemma run_pieces_sparse:
  assumes "of_ops out = ops" "good (of_sink out)"
  shows "\<exists>s'. run_pieces (\<lambda>data out. let (ret, out') = do_write data out
        in if ret < 0 then (False, out') else (True, add_crc data out')) ds out =
      (True, add_crc (concat ds) (out\<lparr>of_sink := s'\<rparr>)) \<and> good s' \<and>
      written s' = app (written (of_sink out)) (concat ds)"
  using assms
proof (induction ds arbitrary: out)
  case Nil
  then show ?case by (intro exI[of _ "of_sink out"]) (simp add: app_Nil)
next
  case (Cons d ds)
  from do_write_good[OF Cons.prems, of d] obtain s where
    s: "do_write d out = (0, out\<lparr>of_sink := s\<rparr>)" "good s" "written s = app (written (of_sink out)) d" by auto
  have f: "of_ops (add_crc d (out\<lparr>of_sink := s\<rparr>)) = ops" "of_sink (add_crc d (out\<lparr>of_sink := s\<rparr>)) = s"
    using Cons.prems by (simp_all add: add_crc_def)
  have c: "(add_crc d (out\<lparr>of_sink := s\<rparr>))\<lparr>of_sink := s'\<rparr> = add_crc d (out\<lparr>of_sink := s'\<rparr>)" for s'
    by (simp add: add_crc_def)
  from Cons.IH[OF f(1)] f(2) s(2) obtain s' where
    "run_pieces (\<lambda>data out. let (ret, out') = do_write data out
        in if ret < 0 then (False, out') else (True, add_crc data out')) ds (add_crc d (out\<lparr>of_sink := s\<rparr>)) =
      (True, add_crc (concat ds) (add_crc d (out\<lparr>of_sink := s'\<rparr>)))" "good s'" "written s' = app (written s) (concat ds)"
    by (auto simp: c)
  with s show ?case by (intro exI[of _ s']) (simp add: add_crc_join app_append)
qed

lemma fd_chunk:
  assumes r: "ready out" and env: "env_ok env src"
    and len: "unat offset + unat len \<le> length (src_fd src fd)" "unat offset + unat len < 2 ^ 63"
    and fits: "div_up (unat len) (unat (of_block_size out)) * unat (of_block_size out) < 2 ^ 63"
  shows "\<exists>out'. write_sparse_fd_chunk env len fd offset out = Inr (0, out') \<and>
    wrote out [Raw (pad_to (unat (of_block_size out)) (bytes_at (unat offset) (unat len) (src_fd src fd)))] out'"
proof -
  let ?w = "of_block_size out" and ?d = "bytes_at (unat offset) (unat len) (src_fd src fd)"
  let ?al = "align_up len (ucast ?w)"
  let ?cb = "\<lambda>data out :: 's output_file. let (ret, out') = do_write data out
        in if ret < 0 then (False, out') else (True, add_crc data out')"
  define zeros where "zeros = zero_pieces (unat (?al - len))"
  define k where "k = (\<lambda>out :: 's output_file. finish_chunk ?al (fold add_crc zeros out))"
  define body where "body = (\<lambda>out. let (ok, out') = write_fd_chunk_range env fd offset len ?cb out
     in if \<not> ok then Inr (- 1, out') else emit_all zeros id k out')"
  obtain s1 where s1: "emit (raw_header ?w len) minus_one body out = body (out\<lparr>of_sink := s1\<rparr>)"
      "good s1" "written s1 = app (written (of_sink out)) (raw_header ?w len)"
    using emit_good[OF readyD(1,2)[OF r], of "raw_header ?w len" minus_one body] by auto
  have "unat offset + unat len < 2 ^ 64" using len(2) by simp
  from write_fd_chunk_range_pieces[OF env len(1) this, of ?cb "out\<lparr>of_sink := s1\<rparr>"] obtain ds where
    ds: "concat ds = ?d" "write_fd_chunk_range env fd offset len ?cb (out\<lparr>of_sink := s1\<rparr>) =
      run_pieces ?cb ds (out\<lparr>of_sink := s1\<rparr>)" by blast
  obtain s2 where s2: "run_pieces ?cb ds (out\<lparr>of_sink := s1\<rparr>) = (True, add_crc ?d (out\<lparr>of_sink := s2\<rparr>))"
      "good s2" "written s2 = app (written s1) ?d"
    using run_pieces_sparse[OF readyD(1,2)[OF ready_sink[OF r s1(2)]], of ds] ds(1) by auto
  have b: "body (out\<lparr>of_sink := s1\<rparr>) = emit_all zeros id k (add_crc ?d (out\<lparr>of_sink := s2\<rparr>))"
    unfolding body_def ds(2) s2(1) by simp
  have f: "of_ops (add_crc ?d (out\<lparr>of_sink := s2\<rparr>)) = ops" "of_sink (add_crc ?d (out\<lparr>of_sink := s2\<rparr>)) = s2"
    "(add_crc ?d (out\<lparr>of_sink := s2\<rparr>))\<lparr>of_sink := s'\<rparr> = add_crc ?d (out\<lparr>of_sink := s'\<rparr>)" for s'
    using readyD(1)[OF r] by (simp_all add: add_crc_def)
  obtain s3 where s3: "emit_all zeros id k (add_crc ?d (out\<lparr>of_sink := s2\<rparr>)) = k (add_crc ?d (out\<lparr>of_sink := s3\<rparr>))"
      "good s3" "written s3 = app (written s2) (concat zeros)"
    using emit_all_good[OF f(1), of zeros id k] s2(2) by (auto simp: f(2,3))
  have "write_sparse_fd_chunk env len fd offset out = emit (raw_header ?w len) minus_one body out"
    unfolding write_sparse_fd_chunk_def with_blocks_def raw_header_def zeros_def body_def k_def
    using block_size_pos(2)[OF r] by (simp only: Let_def if_False)
  also have "\<dots> = k (add_crc ?d (out\<lparr>of_sink := s3\<rparr>))" by (simp only: s1(1) b s3(1))
  also have "\<dots> = finish_chunk ?al (add_crc (?d @ concat zeros) (out\<lparr>of_sink := s3\<rparr>))"
    by (simp add: k_def fold_add_crc add_crc_join)
  finally have eq: "write_sparse_fd_chunk env len fd offset out =
    finish_chunk ?al (add_crc (?d @ concat zeros) (out\<lparr>of_sink := s3\<rparr>))" .
  have ld: "unat len = length ?d" using len(1) by simp
  show ?thesis unfolding eq
    by (rule raw_done[OF r _ ld zeros_def s3(2)]) (use fits ld s1(3) s2(3) s3(3) in \<open>simp_all add: app_append\<close>)
qed

end

end
