(* ===== verification/SpSparseInv.thy ===== *)
theory SpSparseInv imports SpSparse SpChunks begin

text \<open>
  What \<open>libsparse/sparse.cpp\<close> writes: the chunk list of a sparse file, and writing as the output of
  exactly these chunks, in the sparse format or expanded.
\<close>

section \<open>The chunks of a file\<close>

definition block_data :: "sources \<Rightarrow> backed_block \<Rightarrow> u8 list" where
  "block_data src b = (let n = unat (bb_len b) in
     case bb_backing b of
       BB_DATA d \<Rightarrow> take n d
     | BB_FILE f offset \<Rightarrow> bytes_at (unat offset) n (src_file src f)
     | BB_FD fd offset \<Rightarrow> bytes_at (unat offset) n (src_fd src fd)
     | BB_FILL v \<Rightarrow> fill_bytes v n)"

definition block_chunk :: "sources \<Rightarrow> nat \<Rightarrow> backed_block \<Rightarrow> sparse_chunk" where
  "block_chunk src bs b =
     (case bb_backing b of
        BB_FILL v \<Rightarrow> Fill v (div_up (unat (bb_len b)) bs)
      | _ \<Rightarrow> Raw (pad_to bs (block_data src b)))"

definition gap_chunk :: "nat \<Rightarrow> nat \<Rightarrow> sparse_chunk list" where
  "gap_chunk last0 next = (if last0 < next then [DontCare (next - last0)] else [])"

fun block_chunks :: "sources \<Rightarrow> nat \<Rightarrow> nat \<Rightarrow> backed_block list \<Rightarrow> nat \<Rightarrow> sparse_chunk list" where
  "block_chunks src bs last0 [] total_blks = gap_chunk last0 total_blks"
| "block_chunks src bs last0 (b # blocks) total_blks =
     gap_chunk last0 (unat (bb_block b)) @ block_chunk src bs b #
     block_chunks src bs (bb_end bs b) blocks total_blks"

definition file_chunks :: "sources \<Rightarrow> sparse_file \<Rightarrow> sparse_chunk list" where
  "file_chunks src s = (let bs = unat (sf_block_size s) in
     block_chunks src bs 0 (sf_blocks s) (unat (sf_len s) div bs))"

section \<open>Well-formed files\<close>

text \<open>The bytes a block stands for are there.\<close>

fun readable :: "sources \<Rightarrow> backing \<Rightarrow> u64 \<Rightarrow> bool" where
  "readable src (BB_DATA d) len = (unat len \<le> length d)"
| "readable src (BB_FILE f offset) len = (unat offset + unat len \<le> length (src_file src f))"
| "readable src (BB_FD fd offset) len = (unat offset + unat len \<le> length (src_fd src fd))"
| "readable src (BB_FILL v) len = True"

definition bb_readable :: "sources \<Rightarrow> backed_block \<Rightarrow> bool" where
  "bb_readable src b \<longleftrightarrow> readable src (bb_backing b) (bb_len b)"

definition sf_ok :: "sparse_file \<Rightarrow> bool" where
  "sf_ok s \<longleftrightarrow> (let bs = unat (sf_block_size s) in
     bbl_ok (sf_list s) \<and> bbl_block_size (sf_list s) = sf_block_size s \<and>
     unat (sf_len s) + bs < 2 ^ 63 \<and> unat (sf_len s) mod bs = 0 \<and> unat (sf_len s) div bs < 2 ^ 32 \<and>
     list_all (\<lambda>b. bb_end bs b \<le> unat (sf_len s) div bs) (sf_blocks s))"

lemma sf_okD:
  assumes "sf_ok s"
  shows "0 < sf_block_size s" "0 < unat (sf_block_size s)" "unat (sf_block_size s) mod 4 = 0"
    "blocks_sorted (unat (sf_block_size s)) (sf_blocks s)" "unat (sf_len s) + unat (sf_block_size s) < 2 ^ 63"
    "unat (sf_len s) = unat (sf_len s) div unat (sf_block_size s) * unat (sf_block_size s)"
    "unat (sf_len s) div unat (sf_block_size s) < 2 ^ 32"
    "b \<in> set (sf_blocks s) \<Longrightarrow> bb_end (unat (sf_block_size s)) b \<le> unat (sf_len s) div unat (sf_block_size s)"
  using assms div_mult_mod_eq[of "unat (sf_len s)" "unat (sf_block_size s)"]
  by (auto simp: sf_ok_def bbl_ok_def Let_def list_all_iff word_less_nat_alt)

lemma unat_mult_63:
  fixes a b :: u64
  assumes "unat a * unat b < 2 ^ 63"
  shows "unat (a * b) = unat a * unat b"
  using assms by (intro unat_mult_small) simp

lemma bb_ok_fits:
  assumes "bb_ok bs b"
  shows "div_up (unat (bb_len b)) bs * bs < 2 ^ 63"
proof (rule le_less_trans)
  show "div_up (unat (bb_len b)) bs * bs \<le> bb_end bs b * bs"
    by (intro mult_le_mono1) (simp add: bb_end_def)
  show "bb_end bs b * bs < 2 ^ 63" using assms by (simp add: bb_ok_def)
qed

lemma unat_block_behind:
  assumes "0 < w" "bb_ok (unat w) b"
  shows "unat (block_behind w b) = bb_end (unat w) b"
proof -
  note al = unat_align_up(1)[OF assms(1) bb_ok_fits[OF assms(2)]]
  have e: "bb_end (unat w) b < 2 ^ 32" using assms(2) by (simp add: bb_ok_def)
  have "unat (ucast (bb_block b) + div_round_up (bb_len b) (ucast w)) = bb_end (unat w) b"
    by (subst unat_add_small) (use al e in \<open>simp_all add: bb_end_def\<close>)
  then show ?thesis using e by (simp add: block_behind_def unsigned_ucast_eq take_bit_nat_eq_self_iff)
qed

lemma signed_div_up_exact:
  assumes "0 < w" "unat len + unat w < 2 ^ 63" "unat len mod unat w = 0"
  shows "signed_div_round_up len w = Inr (int (unat len div unat w))"
proof -
  have k: "0 < unat w" using assms(1) by (simp add: word_less_nat_alt)
  have "unat len < 2 ^ 63" using assms(2) by linarith
  note sl = sint_small[OF this]
  have n: "sint len + int (unat w) - 1 = int (unat len + unat w - 1)" using sl k by linarith
  have "int (unat len + unat w) < int (2 ^ 63)" using assms(2) by (simp only: of_nat_less_iff)
  then have "\<not> sint len + int (unat w) \<ge> 2 ^ 63" using sl by simp
  moreover have "int (unat w) \<noteq> 0" using k by linarith
  ultimately have nf: "(2 ^ 63 \<le> sint len + int (unat w)) = False" "(int (unat w) = 0) = False" by simp_all
  then show ?thesis using div_up_exact[OF k assms(3)]
    by (simp only: signed_div_round_up_def Let_def nf if_False n of_nat_less_0_iff zdiv_int[symmetric] div_up_def)
qed

lemma sf_len_blocks:
  assumes "sf_ok s"
  shows "signed_div_round_up (sf_len s) (sf_block_size s) = Inr (int (unat (sf_len s) div unat (sf_block_size s)))"
  by (rule signed_div_up_exact[OF sf_okD(1,5)[OF assms]]) (use sf_okD(6)[OF assms] in \<open>metis mod_mult_self2_is_0\<close>)

section \<open>Counting\<close>

lemma count_chunks_spec:
  assumes "0 < w" "list_all (bb_ok (unat w)) blocks"
  shows "count_chunks w blocks last_block chunks =
    (if blocks = [] then last_block else block_behind w (last blocks),
     chunks + of_nat (length (block_chunks src (unat w) (unat last_block) blocks 0)))"
  using assms(2)
proof (induction blocks arbitrary: last_block chunks)
  case Nil
  then show ?case by (simp add: gap_chunk_def)
next
  case (Cons b blocks)
  then have "unat (block_behind w b) = bb_end (unat w) b" using unat_block_behind[OF assms(1)] by simp
  with Cons show ?case by (simp add: gap_chunk_def word_less_nat_alt)
qed

lemma length_block_chunks:
  "length (block_chunks src bs last0 blocks n) = length (block_chunks src bs last0 blocks 0) +
    length (gap_chunk (if blocks = [] then last0 else bb_end bs (last blocks)) n)"
  by (induction blocks arbitrary: last0) (simp_all add: gap_chunk_def)

lemma sparse_count_chunks_ok:
  assumes "sf_ok s"
  shows "sparse_count_chunks s = Inr (of_nat (length (file_chunks src s)))"
proof -
  let ?w = "sf_block_size s"
  note ok = sf_okD[OF assms]
  have all: "list_all (bb_ok (unat ?w)) (sf_blocks s)" using ok(4) by (simp add: blocks_sorted_def)
  let ?n = "unat (sf_len s) div unat ?w"
  define l where "l = (if sf_blocks s = [] then 0 else bb_end (unat ?w) (last (sf_blocks s)))"
  define lw where "lw = (if sf_blocks s = [] then 0 else block_behind ?w (last (sf_blocks s)))"
  define k where "k = length (block_chunks src (unat ?w) 0 (sf_blocks s) 0)"
  have l: "unat lw = l"
    using all unat_block_behind[OF ok(1)] by (auto simp: list_all_iff l_def lw_def)
  have "count_chunks ?w (sf_blocks s) 0 0 = (lw, of_nat k)"
    using count_chunks_spec[OF ok(1) all, of 0 0 src] by (simp add: lw_def k_def)
  moreover have "signed_div_round_up (sf_len s) ?w = Inr (int ?n)"
    by (rule sf_len_blocks[OF assms])
  moreover have "length (file_chunks src s) = k + length (gap_chunk l ?n)"
    unfolding file_chunks_def Let_def k_def l_def by (rule length_block_chunks)
  ultimately show ?thesis
    using ok(1) unfolding sparse_count_chunks_def by (simp add: gap_chunk_def word_neq_0_conv del: of_nat_unat flip: l)
qed

section \<open>Writing all blocks\<close>

text \<open>
  The traversal of the blocks, for any reading \<open>R out cs out'\<close> of \<open>the chunks cs have been written\<close>
  under which the two writers it calls are correct.
\<close>

lemma write_blocks_rel:
  assumes refl: "\<And>out. P out \<Longrightarrow> R out [] out"
    and trans: "\<And>out cs out' ds out''. R out cs out' \<Longrightarrow> R out' ds out'' \<Longrightarrow> R out (cs @ ds) out''"
    and inv: "\<And>out cs out'. R out cs out' \<Longrightarrow> P out \<Longrightarrow> P out'"
    and skip: "\<And>out n k. P out \<Longrightarrow> unat n = k * unat w \<Longrightarrow> unat n < 2 ^ 63 \<Longrightarrow>
      \<exists>out'. write_skip_chunk n out = Inr (0, out') \<and> R out [DontCare k] out'"
    and block: "\<And>out b. P out \<Longrightarrow> b \<in> set blocks \<Longrightarrow>
      \<exists>out'. sparse_file_write_block env b out = Inr (0, out') \<and> R out [block_chunk src (unat w) b] out'"
    and ok: "0 < w" "blocks_sorted (unat w) blocks" "P out"
    and first: "\<forall>b\<in>set blocks. unat last_block \<le> unat (bb_block b)"
  shows "\<exists>out'. write_blocks env w blocks last_block out =
      Inr (0, if blocks = [] then last_block else block_behind w (last blocks), out') \<and>
    R out (block_chunks src (unat w) (unat last_block) blocks 0) out'"
  using block ok(2,3) first
proof (induction blocks arbitrary: last_block out)
  case Nil
  then show ?case by (simp add: gap_chunk_def refl)
next
  case (Cons b blocks)
  have okb: "bb_ok (unat w) b" using Cons.prems(2) by (simp add: blocks_sorted_def)
  let ?n = "ucast (bb_block b - last_block) * ucast w :: u64"
  have le: "unat last_block \<le> unat (bb_block b)" using Cons.prems(4) by simp
  have "(unat (bb_block b) - unat last_block) * unat w \<le> bb_end (unat w) b * unat w"
    by (intro mult_le_mono1) (simp add: bb_end_def)
  then have small: "(unat (bb_block b) - unat last_block) * unat w < 2 ^ 63"
    using okb unfolding bb_ok_def by linarith
  have n: "unat ?n = (unat (bb_block b) - unat last_block) * unat w"
    by (subst unat_mult_small) (use small le in \<open>simp_all add: unat_sub_small\<close>)
  let ?skip = "if bb_block b > last_block
      then bind_run (mul_int64 (bb_block b - last_block) w) (\<lambda>n. write_skip_chunk n out) else Inr (0, out)"
  have "\<exists>out1. ?skip = Inr (0, out1) \<and> R out (gap_chunk (unat last_block) (unat (bb_block b))) out1"
    using skip[OF Cons.prems(3) n] small n refl[OF Cons.prems(3)] le
    by (auto simp: gap_chunk_def word_less_nat_alt mul_int64_def unat_sub_small)
  then obtain out1 where o1: "?skip = Inr (0, out1)"
    "R out (gap_chunk (unat last_block) (unat (bb_block b))) out1" by blast
  obtain out2 where o2: "sparse_file_write_block env b out1 = Inr (0, out2)" "R out1 [block_chunk src (unat w) b] out2"
    using Cons.prems(1)[OF inv[OF o1(2) Cons.prems(3)]] by auto
  have e: "unat (block_behind w b) = bb_end (unat w) b" by (rule unat_block_behind[OF ok(1) okb])
  have "\<forall>b'\<in>set blocks. unat (block_behind w b) \<le> unat (bb_block b')"
    using Cons.prems(2) by (auto simp: blocks_sorted_def before_def e)
  moreover have "blocks_sorted (unat w) blocks" using Cons.prems(2) by (simp add: blocks_sorted_def)
  ultimately obtain out3 where o3: "write_blocks env w blocks (block_behind w b) out2 =
      Inr (0, if blocks = [] then block_behind w b else block_behind w (last blocks), out3)"
    "R out2 (block_chunks src (unat w) (bb_end (unat w) b) blocks 0) out3"
    using Cons.IH[OF Cons.prems(1), of out2 "block_behind w b"] inv[OF o2(2) inv[OF o1(2) Cons.prems(3)]] e
    by auto
  have "R out (gap_chunk (unat last_block) (unat (bb_block b)) @ [block_chunk src (unat w) b] @
      block_chunks src (unat w) (bb_end (unat w) b) blocks 0) out3"
    by (rule trans[OF o1(2) trans[OF o2(2) o3(2)]])
  then show ?case using o1(1) o2(1) o3(1) by simp
qed

lemma block_chunks_end:
  "block_chunks src bs last0 blocks 0 @ gap_chunk (if blocks = [] then last0 else bb_end bs (last blocks)) n =
    block_chunks src bs last0 blocks n"
proof (induction blocks arbitrary: last0)
  case Nil
  show ?case by (simp add: gap_chunk_def)
next
  case (Cons b blocks)
  from Cons.IH[of "bb_end bs b"] show ?case by (cases "blocks = []") simp_all
qed

lemma write_all_blocks_rel:
  assumes refl: "\<And>out. P out \<Longrightarrow> R out [] out"
    and trans: "\<And>out cs out' ds out''. R out cs out' \<Longrightarrow> R out' ds out'' \<Longrightarrow> R out (cs @ ds) out''"
    and inv: "\<And>out cs out'. R out cs out' \<Longrightarrow> P out \<Longrightarrow> P out'"
    and skip: "\<And>out n k. P out \<Longrightarrow> unat n = k * unat (sf_block_size s) \<Longrightarrow> unat n < 2 ^ 63 \<Longrightarrow>
      \<exists>out'. write_skip_chunk n out = Inr (0, out') \<and> R out [DontCare k] out'"
    and block: "\<And>out b. P out \<Longrightarrow> b \<in> set (sf_blocks s) \<Longrightarrow>
      \<exists>out'. sparse_file_write_block env b out = Inr (0, out') \<and> R out [block_chunk src (unat (sf_block_size s)) b] out'"
    and ok: "sf_ok s" "P out"
  shows "\<exists>out'. write_all_blocks env s out = Inr (0, out') \<and> R out (file_chunks src s) out'"
proof -
  let ?w = "sf_block_size s" and ?n = "unat (sf_len s) div unat (sf_block_size s)"
  let ?last = "if sf_blocks s = [] then 0 else block_behind ?w (last (sf_blocks s))"
  note okd = sf_okD[OF ok(1)]
  have "\<exists>out1. write_blocks env ?w (sf_blocks s) 0 out = Inr (0, ?last, out1) \<and>
      R out (block_chunks src (unat ?w) (unat (0 :: u32)) (sf_blocks s) 0) out1"
    by (rule write_blocks_rel[where P = P and R = R, OF refl trans inv skip block okd(1,4) ok(2)]; assumption?)
      simp_all
  then obtain out1 where o1: "write_blocks env ?w (sf_blocks s) 0 out = Inr (0, ?last, out1)"
    "R out (block_chunks src (unat ?w) 0 (sf_blocks s) 0) out1" by auto
  have last_in: "sf_blocks s \<noteq> [] \<Longrightarrow> last (sf_blocks s) \<in> set (sf_blocks s)" by simp
  then have ul: "unat ?last = (if sf_blocks s = [] then 0 else bb_end (unat ?w) (last (sf_blocks s)))"
    using unat_block_behind[OF okd(1)] okd(4) by (auto simp: blocks_sorted_def list_all_iff)
  have le: "unat ?last \<le> ?n" using okd(8)[OF last_in] by (auto simp: ul)
  then have "unat ?last * unat ?w \<le> ?n * unat ?w" by (rule mult_le_mono1)
  moreover have n: "?n * unat ?w < 2 ^ 63" using okd(5,6) by linarith
  ultimately have "unat ?last * unat ?w < 2 ^ 63" by (rule le_less_trans)
  then have m: "unat (ucast ?last * ucast ?w :: u64) = unat ?last * unat ?w"
    "mul_int64 ?last ?w = Inr (ucast ?last * ucast ?w)"
    by (simp_all add: unat_mult_63 mul_int64_def split del: if_split)
  define pad where "pad = sf_len s - ucast ?last * ucast ?w"
  have "unat ?last * unat ?w \<le> unat (sf_len s)" using mult_le_mono1[OF le, of "unat ?w"] okd(6) by linarith
  then have "unat pad = unat (sf_len s) - unat ?last * unat ?w"
    unfolding pad_def using m(1) by (subst unat_sub_small) (simp_all split del: if_split)
  also have "\<dots> = (?n - unat ?last) * unat ?w" unfolding diff_mult_distrib using okd(6) by linarith
  finally have pad: "unat pad = (?n - unat ?last) * unat ?w" .
  also have "\<dots> \<le> ?n * unat ?w" by (intro mult_le_mono1) simp
  finally have small: "unat pad < 2 ^ 63" using n by linarith
  have P1: "P out1" by (rule inv[OF o1(2) ok(2)])
  have chunks: "file_chunks src s = block_chunks src (unat ?w) 0 (sf_blocks s) 0 @ gap_chunk (unat ?last) ?n"
    unfolding file_chunks_def Let_def ul block_chunks_end ..
  have sp: "0 < sint pad \<longleftrightarrow> unat ?last < ?n" "0 \<le> sint pad"
  proof -
    have "0 < sint pad \<longleftrightarrow> 0 < unat pad" "0 \<le> sint pad" using sint_small[OF small] by linarith+
    then show "0 < sint pad \<longleftrightarrow> unat ?last < ?n" "0 \<le> sint pad"
      using okd(2) by (simp_all add: pad split del: if_split)
  qed
  have w: "write_all_blocks env s out = (if unat ?last < ?n
      then bind_run (write_skip_chunk pad out1) (\<lambda>(_, out2). Inr (0, out2)) else Inr (0, out1))"
    using sp(2) unfolding write_all_blocks_def o1(1) sp(1)[symmetric] pad_def
    by (simp add: m(2) check_def Let_def split del: if_split)
  show ?thesis
  proof (cases "unat ?last < ?n")
    case True
    with skip[OF P1 pad small] trans[OF o1(2)] show ?thesis unfolding w chunks
      by (auto simp: gap_chunk_def split del: if_split)
  next
    case False
    with o1(2) show ?thesis unfolding w chunks by (simp add: gap_chunk_def split del: if_split)
  qed
qed

end
