(* ===== verification/SpWrite.thy ===== *)
theory SpWrite imports SpSparseInv begin

text \<open>
  Writing a sparse file: into a sink that keeps the interface, \<open>write_all_blocks\<close> between
  \<open>output_file_init\<close> and \<open>output_file_close\<close> produces the image of the chunk list, in the sparse format
  or expanded.
\<close>

section \<open>The two images\<close>

definition crc_chunk_bytes :: "u32 \<Rightarrow> u8 list" where
  "crc_chunk_bytes c = chunk_image CHUNK_TYPE_CRC32 0 (of_nat (CHUNK_HEADER_LEN + 4)) @ enc32 c"

definition sparse_image :: "sources \<Rightarrow> sparse_file \<Rightarrow> bool \<Rightarrow> u8 list" where
  "sparse_image src s crc = (let bs = unat (sf_block_size s); cs = file_chunks src s in
     enc_sparse_header (sparse_header_of (sf_block_size s) (of_nat (unat (sf_len s) div bs)) (of_nat (length cs)) crc) @
     concat (map (chunk_bytes bs) cs) @ (if crc then crc_chunk_bytes (fold (writer_crc bs) cs 0) else []))"

fun chunk_expand :: "nat \<Rightarrow> sparse_chunk \<Rightarrow> u8 list" where
  "chunk_expand bs (Raw d) = d"
| "chunk_expand bs (Fill v n) = fill_bytes v (n * bs)"
| "chunk_expand bs (DontCare n) = replicate (n * bs) 0"

definition expanded_image :: "sources \<Rightarrow> sparse_file \<Rightarrow> u8 list" where
  "expanded_image src s = concat (map (chunk_expand (unat (sf_block_size s))) (file_chunks src s))"

section \<open>Fill bytes\<close>

lemma length_fill_bytes [simp]: "length (fill_bytes v n) = n"
  by (simp add: fill_bytes_def)

lemma nth_fill_bytes: "i < n \<Longrightarrow> fill_bytes v n ! i = enc32 v ! (i mod 4)"
  by (simp add: fill_bytes_def)

lemma fill_bytes_add:
  assumes "a mod 4 = 0"
  shows "fill_bytes v (a + b) = fill_bytes v a @ fill_bytes v b"
proof (rule nth_equalityI)
  fix i assume "i < length (fill_bytes v (a + b))"
  moreover have "(i - a) mod 4 = i mod 4" if "a \<le> i"
    using that fill_phase[OF assms, of "i - a"] by simp
  ultimately show "fill_bytes v (a + b) ! i = (fill_bytes v a @ fill_bytes v b) ! i"
    by (simp add: nth_append nth_fill_bytes)
qed simp

lemma fill_pieces:
  assumes "0 < limit" "limit mod 4 = 0"
  shows "concat (map (fill_bytes v) (pieces limit n)) = fill_bytes v n"
  using assms
proof (induction limit n rule: pieces.induct)
  case (1 limit n)
  show ?case
  proof (cases "n \<le> limit")
    case True
    then show ?thesis using 1(2)
      by (cases "n = 0") (simp_all add: pieces.simps[of limit n] pieces.simps[of limit 0] fill_bytes_def)
  next
    case False
    then show ?thesis using 1 fill_bytes_add[OF 1(3), of v "n - limit"]
      by (subst pieces.simps) simp
  qed
qed

section \<open>Sparse output\<close>

context byte_sink begin

lemma sparse_block:
  assumes P: "ready out \<and> of_sparse out \<and> of_block_size out = w"
    and b: "bb_ok (unat w) b" "bb_readable src b" and env: "env_ok env src"
  shows "\<exists>out'. sparse_file_write_block env b out = Inr (0, out') \<and> wrote out [block_chunk src (unat w) b] out'"
proof -
  note fits = bb_ok_fits[OF b(1)]
  have r: "ready out" and w: "of_block_size out = w" and sp: "of_sparse out" using P by simp_all
  show ?thesis
  proof (cases "bb_backing b")
    case (BB_DATA d)
    with data_chunk[OF r, of "bb_len b" d] fits b(2) sp show ?thesis
      by (simp add: sparse_file_write_block_def write_data_chunk_def block_chunk_def block_data_def w
          bb_readable_def)
  next
    case (BB_FILE f offset)
    define fd where "fd = nat (env_open env f)"
    have fd: "src_fd src fd = src_file src f" "\<not> env_open env f < 0"
      using env by (auto simp: env_ok_def fd_def not_less)
    have "unat offset + unat (bb_len b) < 2 ^ 63" using b(1) BB_FILE by (simp add: bb_ok_def)
    with fd_chunk[OF r env, of offset "bb_len b" fd] fits b(2) sp show ?thesis
      by (simp add: sparse_file_write_block_def write_file_chunk_def write_fd_chunk_def block_chunk_def
          block_data_def w bb_readable_def BB_FILE fd Let_def flip: fd_def)
  next
    case (BB_FD fd offset)
    then have "unat offset + unat (bb_len b) < 2 ^ 63" using b(1) by (simp add: bb_ok_def)
    with fd_chunk[OF r env, of offset "bb_len b" fd] fits b(2) sp show ?thesis
      by (simp add: sparse_file_write_block_def write_fd_chunk_def block_chunk_def block_data_def w
          bb_readable_def BB_FD)
  next
    case (BB_FILL v)
    with fill_chunk[OF r, of "bb_len b" v] fits sp show ?thesis
      by (simp add: sparse_file_write_block_def write_fill_chunk_def block_chunk_def w)
  qed
qed

lemma sparse_skip:
  assumes "ready out \<and> of_sparse out \<and> of_block_size out = w" "unat n = k * unat w"
  shows "\<exists>out'. write_skip_chunk n out = Inr (0, out') \<and> wrote out [DontCare k] out'"
  using skip_chunk[of out n k] assms by (simp add: write_skip_chunk_def)

lemma sparse_all_blocks:
  assumes ok: "sf_ok s" "list_all (bb_readable src) (sf_blocks s)" "env_ok env src"
    and out: "ready out" "of_sparse out" "of_block_size out = sf_block_size s"
  shows "\<exists>out'. write_all_blocks env s out = Inr (0, out') \<and> wrote out (file_chunks src s) out'"
proof (rule write_all_blocks_rel[where R = wrote and
      P = "\<lambda>out. ready out \<and> of_sparse out \<and> of_block_size out = sf_block_size s"])
  show "\<exists>out'. sparse_file_write_block env b out = Inr (0, out') \<and>
      wrote out [block_chunk src (unat (sf_block_size s)) b] out'"
    if "ready out \<and> of_sparse out \<and> of_block_size out = sf_block_size s" "b \<in> set (sf_blocks s)" for out b
    using sparse_block[OF that(1) _ _ ok(3), of b] that(2) ok(2) sf_okD(4)[OF ok(1)]
    by (auto simp: list_all_iff blocks_sorted_def)
  show "ready out' \<and> of_sparse out' \<and> of_block_size out' = sf_block_size s"
    if "wrote out cs out'" "ready out \<and> of_sparse out \<and> of_block_size out = sf_block_size s" for out cs out'
    using wrote_ready[OF that(1)] that(2) by simp
qed (use ok(1) out in \<open>auto intro: wrote_Nil wrote_append sparse_skip\<close>)

text \<open>\<open>output_file_init\<close> and \<open>output_file_close\<close> in sparse mode.\<close>

lemma open_sparse:
  assumes "good s" "0 < w" and blks: "signed_div_round_up len w = Inr (int n)"
  shows "\<exists>out. output_file_init ops s w len True chunks crc = Inr (Inr out) \<and> ready out \<and> of_sparse out \<and>
    of_block_size out = w \<and> use_crc out = crc \<and> of_crc32 out = 0 \<and> of_len out = len \<and>
    written (of_sink out) = app (written s) (enc_sparse_header (sparse_header_of w (of_nat n) chunks crc))"
proof -
  let ?out = "\<lparr>of_sink = s, of_ops = ops, of_sparse = True, cur_out_ptr = 0, chunk_cnt = 0, of_crc32 = 0,
    use_crc = crc, of_block_size = w, of_len = len\<rparr>"
  obtain s' where "do_write (enc_sparse_header (sparse_header_of w (of_nat n) chunks crc)) ?out =
      (0, ?out\<lparr>of_sink := s'\<rparr>)" "good s'"
      "written s' = app (written s) (enc_sparse_header (sparse_header_of w (of_nat n) chunks crc))"
    using do_write_good[of ?out "enc_sparse_header (sparse_header_of w (of_nat n) chunks crc)"] assms(1) by auto
  with assms(2) show ?thesis
    by (intro exI[of _ "?out\<lparr>of_sink := s'\<rparr>"]) (simp add: output_file_init_def blks ready_def word_neq_0_conv)
qed

lemma close_sparse:
  assumes "ready out" "of_sparse out"
  shows "\<exists>s'. output_file_close out = Inr s' \<and> good s' \<and>
    written s' = app (written (of_sink out)) (if use_crc out then crc_chunk_bytes (of_crc32 out) else [])"
proof (cases "use_crc out")
  case True
  let ?h = "chunk_image CHUNK_TYPE_CRC32 0 (of_nat (CHUNK_HEADER_LEN + 4))"
  let ?k = "\<lambda>out :: 's output_file. let (_, out') = do_write (enc32 (of_crc32 out)) out
             in Inr (0 :: int, out'\<lparr>chunk_cnt := chunk_cnt out' + 1\<rparr>)"
  obtain s1 where s1: "emit ?h id ?k out = ?k (out\<lparr>of_sink := s1\<rparr>)" "good s1"
      "written s1 = app (written (of_sink out)) ?h"
    using emit_good[OF readyD(1,2)[OF assms(1)], of ?h id ?k] by auto
  obtain s2 where s2: "do_write (enc32 (of_crc32 out)) (out\<lparr>of_sink := s1\<rparr>) = (0, out\<lparr>of_sink := s2\<rparr>)" "good s2"
      "written s2 = app (written s1) (enc32 (of_crc32 out))"
    using do_write_good[OF readyD(1,2)[OF ready_sink[OF assms(1) s1(2)]], of "enc32 (of_crc32 out)"] by auto
  show ?thesis using True assms(2) s1 s2
    by (intro exI[of _ s2])
      (simp add: output_file_close_def write_end_chunk_def write_sparse_end_chunk_def crc_chunk_bytes_def app_append)
next
  case False
  with assms show ?thesis
    by (simp add: output_file_close_def write_end_chunk_def write_sparse_end_chunk_def app_Nil ready_def)
qed

lemma write_to_sparse:
  assumes ok: "sf_ok s" "list_all (bb_readable src) (sf_blocks s)" "env_ok env src" and good: "good s0"
  shows "\<exists>s'. write_to env s (output_file_init ops s0 (sf_block_size s) (sf_len s) True
        (of_nat (length (file_chunks src s))) crc) = Inr (0, s') \<and> good s' \<and>
      written s' = app (written s0) (sparse_image src s crc)"
proof -
  let ?n = "of_nat (length (file_chunks src s))"
  obtain out where o: "output_file_init ops s0 (sf_block_size s) (sf_len s) True ?n crc = Inr (Inr out)"
    "ready out" "of_sparse out" "of_block_size out = sf_block_size s" "use_crc out = crc" "of_crc32 out = 0"
    "written (of_sink out) = app (written s0) (enc_sparse_header
      (sparse_header_of (sf_block_size s) (of_nat (unat (sf_len s) div unat (sf_block_size s))) ?n crc))"
    using open_sparse[OF good sf_okD(1)[OF ok(1)] sf_len_blocks[OF ok(1)]] by blast
  obtain out' where o': "write_all_blocks env s out = Inr (0, out')" "wrote out (file_chunks src s) out'"
    using sparse_all_blocks[OF ok o(2-4)] by blast
  note r' = wrote_ready[OF o'(2) o(2)]
  obtain s' where s': "output_file_close out' = Inr s'" "good s'"
    "written s' = app (written (of_sink out')) (if crc then crc_chunk_bytes (of_crc32 out') else [])"
    using close_sparse[of out'] r' o(3,5) by auto
  show ?thesis using o o' s'
    by (intro exI[of _ s']) (auto simp: write_to_def close_with_def sparse_image_def Let_def wrote_def app_append)
qed

end

section \<open>Expanded output\<close>

context output_sink begin

definition expanding :: "u32 \<Rightarrow> 's output_file \<Rightarrow> bool" where
  "expanding w out \<longleftrightarrow> of_ops out = ops \<and> good (of_sink out) \<and> \<not> of_sparse out \<and> of_block_size out = w"

definition expanded :: "nat \<Rightarrow> 's output_file \<Rightarrow> sparse_chunk list \<Rightarrow> 's output_file \<Rightarrow> bool" where
  "expanded bs out cs out' \<longleftrightarrow> (\<exists>s'. out' = out\<lparr>of_sink := s'\<rparr> \<and> good s' \<and>
     written s' = app (written (of_sink out)) (concat (map (chunk_expand bs) cs)))"

lemma expanded_Nil: "expanding w out \<Longrightarrow> expanded bs out [] out"
  by (auto simp: expanded_def expanding_def app_Nil intro: exI[of _ "of_sink out"])

lemma expanded_append: "expanded bs out cs out' \<Longrightarrow> expanded bs out' ds out'' \<Longrightarrow> expanded bs out (cs @ ds) out''"
  by (auto simp: expanded_def app_append)

lemma expanding_step: "expanded bs out cs out' \<Longrightarrow> expanding w out \<Longrightarrow> expanding w out'"
  by (auto simp: expanded_def expanding_def)

lemma expanding_sink [simp]: "expanding w out \<Longrightarrow> good s \<Longrightarrow> expanding w (out\<lparr>of_sink := s\<rparr>)"
  by (simp add: expanding_def)

lemma expandingD: "expanding w out \<Longrightarrow> of_ops out = ops" "expanding w out \<Longrightarrow> good (of_sink out)"
  by (simp_all add: expanding_def)

text \<open>After the data of a raw chunk: the rest of the last block is skipped.\<close>

lemma expand_rest:
  assumes out: "expanding w out" and w: "0 < w" and fits: "div_up (length d) (unat w) * unat w < 2 ^ 63"
    and len: "unat len = length d" and s: "good s" "written s = app (written (of_sink out)) d"
  shows "\<exists>out'. (if align_up len (ucast w) > len then do_skip (align_up len (ucast w) - len) (out\<lparr>of_sink := s\<rparr>)
      else Inr (0, out\<lparr>of_sink := s\<rparr>)) = Inr (0, out') \<and> expanded (unat w) out [Raw (pad_to (unat w) d)] out'"
proof -
  note al = unat_align_up[OF w, of len, unfolded len, OF fits]
  let ?n = "align_up len (ucast w) - len"
  have pad: "pad_to (unat w) d = d @ replicate (unat ?n) 0" by (simp add: pad_to_def al(3))
  show ?thesis
  proof (cases "align_up len (ucast w) > len")
    case True
    have "unat ?n < 2 ^ 63" using al(3) fits by linarith
    then have "0 \<le> sint ?n" using sint_small by simp
    from do_skip_good[OF expandingD[OF expanding_sink[OF out s(1)]] this] s True show ?thesis
      by (auto simp: expanded_def pad app_append)
  next
    case False
    then have "unat ?n = 0" using al(2,3) len by (simp add: word_less_nat_alt)
    with False s show ?thesis by (auto simp: expanded_def pad)
  qed
qed

lemma expand_data:
  assumes out: "expanding w out" and w: "0 < w" and len: "unat len \<le> length data"
    and fits: "div_up (unat len) (unat w) * unat w < 2 ^ 63"
  shows "\<exists>out'. write_normal_data_chunk len data out = Inr (0, out') \<and>
    expanded (unat w) out [Raw (pad_to (unat w) (take (unat len) data))] out'"
proof -
  let ?d = "take (unat len) data"
  obtain s where s: "do_write ?d out = (0, out\<lparr>of_sink := s\<rparr>)" "good s" "written s = app (written (of_sink out)) ?d"
    using do_write_good[OF expandingD[OF out], of ?d] by blast
  have ld: "unat len = length ?d" using len by simp
  have "div_up (length ?d) (unat w) * unat w < 2 ^ 63" using fits len by (simp add: min_absorb2)
  from expand_rest[OF out w this ld s(2,3)] s(1) len w out show ?thesis
    by (auto simp: write_normal_data_chunk_def with_blocks_def with_data_def expanding_def word_neq_0_conv Let_def
        split: if_splits)
qed

lemma expand_fill:
  assumes out: "expanding w out" and w: "0 < w" and len: "unat len mod unat w = 0"
  shows "\<exists>out'. write_normal_fill_chunk len v out = Inr (0, out') \<and>
    expanded (unat w) out [Fill v (div_up (unat len) (unat w))] out'"
proof -
  let ?k = "\<lambda>out :: 's output_file. Inr (0 :: int, out)"
  let ?ds = "map (fill_bytes v) (pieces FILL_ZERO_BUFSIZE (unat len))"
  obtain s where s: "emit_all ?ds id ?k out = ?k (out\<lparr>of_sink := s\<rparr>)" "good s"
    "written s = app (written (of_sink out)) (concat ?ds)"
    using emit_all_good[OF expandingD[OF out], of ?ds id ?k] by blast
  have "concat ?ds = fill_bytes v (unat len)" by (rule fill_pieces) (simp_all add: FILL_ZERO_BUFSIZE_def)
  moreover have "div_up (unat len) (unat w) * unat w = unat len"
    using div_up_exact[OF _ len] w div_mult_mod_eq[of "unat len" "unat w"] len by (simp add: word_less_nat_alt)
  ultimately show ?thesis using s by (auto simp: write_normal_fill_chunk_def expanded_def)
qed

lemma run_pieces_expanded:
  assumes "of_ops out = ops" "good (of_sink out)"
  shows "\<exists>s'. run_pieces (\<lambda>data (_, out). let (r, out') = do_write data out in (r \<ge> 0, Some r, out')) ds (r0, out) =
      (True, if ds = [] then r0 else Some 0, out\<lparr>of_sink := s'\<rparr>) \<and> good s' \<and>
      written s' = app (written (of_sink out)) (concat ds)"
  using assms
proof (induction ds arbitrary: out r0)
  case Nil
  then show ?case by (intro exI[of _ "of_sink out"]) (simp add: app_Nil)
next
  case (Cons d ds)
  from do_write_good[OF Cons.prems, of d] obtain s where
    s: "do_write d out = (0, out\<lparr>of_sink := s\<rparr>)" "good s" "written s = app (written (of_sink out)) d" by auto
  from Cons.IH[of "out\<lparr>of_sink := s\<rparr>" "Some 0"] Cons.prems s show ?case by (auto simp: app_append)
qed

lemma expand_fd:
  assumes out: "expanding w out" and w: "0 < w" and env: "env_ok env src"
    and len: "0 < len" "unat offset + unat len \<le> length (src_fd src fd)" "unat offset + unat len < 2 ^ 63"
    and fits: "div_up (unat len) (unat w) * unat w < 2 ^ 63"
  shows "\<exists>out'. write_normal_fd_chunk env len fd offset out = Inr (0, out') \<and>
    expanded (unat w) out [Raw (pad_to (unat w) (bytes_at (unat offset) (unat len) (src_fd src fd)))] out'"
proof -
  let ?d = "bytes_at (unat offset) (unat len) (src_fd src fd)"
  let ?cb = "\<lambda>data (_, out :: 's output_file). let (r, out') = do_write data out in (r \<ge> 0, Some r, out')"
  have "unat offset + unat len < 2 ^ 64" using len(3) by simp
  from write_fd_chunk_range_pieces[OF env len(2) this, of ?cb "(None, out)"] obtain ds where
    ds: "concat ds = ?d" "ds \<noteq> []"
      "write_fd_chunk_range env fd offset len ?cb (None, out) = run_pieces ?cb ds (None, out)"
    using len(1) by auto
  obtain s where s: "run_pieces ?cb ds (None, out) = (True, Some 0, out\<lparr>of_sink := s\<rparr>)" "good s"
      "written s = app (written (of_sink out)) ?d"
    using run_pieces_expanded[OF expandingD[OF out], of ds None] ds(1,2) by auto
  have ld: "unat len = length ?d" using len(2) by simp
  have "div_up (length ?d) (unat w) * unat w < 2 ^ 63" using fits by (simp add: ld[symmetric])
  from expand_rest[OF out w this ld s(2,3)] w out show ?thesis
    unfolding write_normal_fd_chunk_def with_blocks_def
    by (auto simp: expanding_def word_neq_0_conv Let_def ds(3)[unfolded Let_def] s(1)[unfolded Let_def]
        return_ret_def split: if_splits)
qed

lemma expand_block:
  assumes P: "expanding w out" and w: "0 < w"
    and b: "bb_ok (unat w) b" "bb_readable src b" and env: "env_ok env src"
    and fill: "type_of (bb_backing b) = BACKED_BLOCK_FILL \<longrightarrow> unat (bb_len b) mod unat w = 0"
  shows "\<exists>out'. sparse_file_write_block env b out = Inr (0, out') \<and> expanded (unat w) out [block_chunk src (unat w) b] out'"
proof -
  note fits = bb_ok_fits[OF b(1)]
  have sp: "\<not> of_sparse out" and pos: "0 < bb_len b" using P b(1) by (simp_all add: expanding_def bb_ok_def)
  show ?thesis
  proof (cases "bb_backing b")
    case (BB_DATA d)
    with expand_data[OF P w, of "bb_len b" d] fits b(2) sp show ?thesis
      by (simp add: sparse_file_write_block_def write_data_chunk_def block_chunk_def block_data_def bb_readable_def)
  next
    case (BB_FILE f offset)
    define fd where "fd = nat (env_open env f)"
    have fd: "src_fd src fd = src_file src f" "\<not> env_open env f < 0"
      using env by (auto simp: env_ok_def fd_def not_less)
    have "unat offset + unat (bb_len b) < 2 ^ 63" using b(1) BB_FILE by (simp add: bb_ok_def)
    with expand_fd[OF P w env pos, of offset fd] fits b(2) sp show ?thesis
      by (simp add: sparse_file_write_block_def write_file_chunk_def write_fd_chunk_def block_chunk_def
          block_data_def bb_readable_def BB_FILE fd Let_def flip: fd_def)
  next
    case (BB_FD fd offset)
    then have "unat offset + unat (bb_len b) < 2 ^ 63" using b(1) by (simp add: bb_ok_def)
    with expand_fd[OF P w env pos, of offset fd] fits b(2) sp show ?thesis
      by (simp add: sparse_file_write_block_def write_fd_chunk_def block_chunk_def block_data_def
          bb_readable_def BB_FD)
  next
    case (BB_FILL v)
    with expand_fill[OF P w, of "bb_len b" v] fill sp show ?thesis
      by (simp add: sparse_file_write_block_def write_fill_chunk_def block_chunk_def)
  qed
qed

lemma expand_skip:
  assumes "expanding w out" "unat n = k * unat w" "unat n < 2 ^ 63"
  shows "\<exists>out'. write_skip_chunk n out = Inr (0, out') \<and> expanded (unat w) out [DontCare k] out'"
proof -
  have "0 \<le> sint n" using sint_small[OF assms(3)] by simp
  from do_skip_good[OF expandingD[OF assms(1)] this] assms show ?thesis
    by (auto simp: write_skip_chunk_def write_normal_skip_chunk_def expanded_def expanding_def)
qed

lemma expanded_all_blocks:
  assumes ok: "sf_ok s" "list_all (bb_readable src) (sf_blocks s)" "env_ok env src"
    and fills: "\<forall>b\<in>set (sf_blocks s). type_of (bb_backing b) = BACKED_BLOCK_FILL \<longrightarrow>
      unat (bb_len b) mod unat (sf_block_size s) = 0"
    and out: "expanding (sf_block_size s) out"
  shows "\<exists>out'. write_all_blocks env s out = Inr (0, out') \<and>
    expanded (unat (sf_block_size s)) out (file_chunks src s) out'"
proof (rule write_all_blocks_rel[where R = "expanded (unat (sf_block_size s))" and P = "expanding (sf_block_size s)"])
  show "\<exists>out'. sparse_file_write_block env b out = Inr (0, out') \<and>
      expanded (unat (sf_block_size s)) out [block_chunk src (unat (sf_block_size s)) b] out'"
    if "expanding (sf_block_size s) out" "b \<in> set (sf_blocks s)" for out b
    using expand_block[OF that(1) sf_okD(1)[OF ok(1)] _ _ ok(3), of b] that(2) ok(2) sf_okD(4)[OF ok(1)] fills
    by (auto simp: list_all_iff blocks_sorted_def)
qed (use ok(1) out in \<open>auto intro: expanded_Nil expanded_append expanding_step expand_skip\<close>)

end

end
