(* ===== verification/SpImage.thy ===== *)
theory SpImage imports SpWrite begin

text \<open>
  The image that a list of chunks stands for, as a partial map from positions to bytes: expanding the
  chunks fills the positions without a byte with zeros, and the chunks of a sparse file stand for the
  image of its block list, with the rest of a last block filled with zeros.
\<close>

section \<open>The image of a chunk list\<close>

fun chunk_at :: "nat \<Rightarrow> nat \<Rightarrow> sparse_chunk \<Rightarrow> nat \<rightharpoonup> u8" where
  "chunk_at bs k (DontCare n) = Map.empty"
| "chunk_at bs k c = (\<lambda>pos. if k * bs \<le> pos \<and> pos < (k + chunk_blocks bs c) * bs
     then Some (chunk_expand bs c ! (pos - k * bs)) else None)"

fun chunks_map :: "nat \<Rightarrow> nat \<Rightarrow> sparse_chunk list \<Rightarrow> nat \<rightharpoonup> u8" where
  "chunks_map bs k [] = Map.empty"
| "chunks_map bs k (c # cs) = chunks_map bs (k + chunk_blocks bs c) cs ++ chunk_at bs k c"

definition or_zero :: "u8 option \<Rightarrow> u8" where
  "or_zero x = (case x of None \<Rightarrow> 0 | Some b \<Rightarrow> b)"

definition chunk_wf :: "nat \<Rightarrow> sparse_chunk \<Rightarrow> bool" where
  "chunk_wf bs c \<longleftrightarrow> (case c of Raw d \<Rightarrow> length d mod bs = 0 | _ \<Rightarrow> True)"

definition total_blocks :: "nat \<Rightarrow> sparse_chunk list \<Rightarrow> nat" where
  "total_blocks bs cs = sum_list (map (chunk_blocks bs) cs)"

lemma total_blocks_simps [simp]:
  "total_blocks bs [] = 0" "total_blocks bs (c # cs) = chunk_blocks bs c + total_blocks bs cs"
  "total_blocks bs (cs @ ds) = total_blocks bs cs + total_blocks bs ds"
  by (simp_all add: total_blocks_def)

lemma length_chunk_expand: "chunk_wf bs c \<Longrightarrow> length (chunk_expand bs c) = chunk_blocks bs c * bs"
  by (cases c) (auto simp: chunk_wf_def)

lemma length_expand:
  "\<forall>c\<in>set cs. chunk_wf bs c \<Longrightarrow> length (concat (map (chunk_expand bs) cs)) = total_blocks bs cs * bs"
  by (induction cs) (simp_all add: length_chunk_expand add_mult_distrib)

lemma chunk_at_dom: "chunk_at bs k c pos = Some b \<Longrightarrow> k * bs \<le> pos \<and> pos < (k + chunk_blocks bs c) * bs"
  by (cases c) (auto split: if_splits)

lemma chunks_map_dom:
  "chunks_map bs k cs pos = Some b \<Longrightarrow> k * bs \<le> pos \<and> pos < (k + total_blocks bs cs) * bs"
proof (induction cs arbitrary: k)
  case (Cons c cs)
  let ?n = "chunk_blocks bs c"
  have m: "k * bs \<le> (k + ?n) * bs" "(k + ?n) * bs \<le> (k + ?n + total_blocks bs cs) * bs"
    by (intro mult_le_mono1, simp)+
  have t: "k + total_blocks bs (c # cs) = k + ?n + total_blocks bs cs" by simp
  consider "chunk_at bs k c pos = Some b" | "chunks_map bs (k + ?n) cs pos = Some b"
    using Cons.prems by (auto simp: map_add_Some_iff)
  then show ?case
  proof cases
    case 1
    from chunk_at_dom[OF 1] m show ?thesis unfolding t by (meson order_trans less_le_trans)
  next
    case 2
    from Cons.IH[OF 2] m show ?thesis unfolding t by (meson order_trans less_le_trans)
  qed
qed simp

lemma expand_nth:
  assumes "\<forall>c\<in>set cs. chunk_wf bs c" "pos < total_blocks bs cs * bs"
  shows "concat (map (chunk_expand bs) cs) ! pos = or_zero (chunks_map bs k cs (k * bs + pos))"
  using assms
proof (induction cs arbitrary: k pos)
  case (Cons c cs)
  let ?n = "chunk_blocks bs c"
  have len: "length (chunk_expand bs c) = ?n * bs" using Cons.prems by (simp add: length_chunk_expand)
  show ?case
  proof (cases "pos < ?n * bs")
    case True
    have "chunks_map bs (k + ?n) cs (k * bs + pos) = None"
      using chunks_map_dom[of bs "k + ?n" cs "k * bs + pos"] True
      by (cases "chunks_map bs (k + ?n) cs (k * bs + pos)") (auto simp: add_mult_distrib)
    with True len show ?thesis
      by (cases c) (simp_all add: nth_append or_zero_def map_add_def add_mult_distrib)
  next
    case False
    then obtain q where q: "pos = ?n * bs + q" by (metis le_Suc_ex not_less)
    have "chunk_at bs k c (k * bs + pos) = None"
      using chunk_at_dom[of bs k c "k * bs + pos"] False
      by (cases "chunk_at bs k c (k * bs + pos)") (auto simp: add_mult_distrib)
    moreover have "concat (map (chunk_expand bs) cs) ! q = or_zero (chunks_map bs (k + ?n) cs ((k + ?n) * bs + q))"
      using Cons.IH[of q "k + ?n"] Cons.prems q by (simp add: add_mult_distrib)
    ultimately show ?thesis using len
      by (simp add: nth_append q map_add_def add_mult_distrib add.assoc)
  qed
qed simp

section \<open>The chunks of a block list\<close>

text \<open>The same bytes, and zeros at some of the positions that had none.\<close>

definition zero_filled :: "(nat \<rightharpoonup> u8) \<Rightarrow> (nat \<rightharpoonup> u8) \<Rightarrow> bool" where
  "zero_filled m m' \<longleftrightarrow> (\<forall>pos. m' pos = m pos \<or> m pos = None \<and> m' pos = Some 0)"

lemma zero_filled_or_zero: "zero_filled m m' \<Longrightarrow> or_zero (m' pos) = or_zero (m pos)"
  by (auto simp: zero_filled_def or_zero_def split: option.splits dest!: spec[of _ pos])

definition fill_aligned :: "nat \<Rightarrow> backed_block \<Rightarrow> bool" where
  "fill_aligned bs b \<longleftrightarrow> (type_of (bb_backing b) = BACKED_BLOCK_FILL \<longrightarrow> unat (bb_len b) mod bs = 0)"

lemma length_block_data: "bb_readable src b \<Longrightarrow> length (block_data src b) = unat (bb_len b)"
  by (cases "bb_backing b") (simp_all add: bb_readable_def block_data_def)

lemma backing_byte_data:
  assumes "bb_readable src b" "k < unat (bb_len b)"
  shows "backing_byte src (bb_backing b) k = Some (block_data src b ! k)"
proof (cases "bb_backing b")
  case (BB_FILL v)
  have "k mod 4 < length (enc32 v)" by simp
  with BB_FILL assms(2) show ?thesis
    by (simp add: block_data_def byte_of_def nth_fill_bytes del: length_enc)
qed (use assms in \<open>simp_all add: bb_readable_def block_data_def byte_of_def bytes_at_def\<close>)

lemma block_chunk_props:
  assumes "0 < bs" "bb_readable src b" "fill_aligned bs b"
  shows "chunk_wf bs (block_chunk src bs b)"
    "chunk_blocks bs (block_chunk src bs b) = div_up (unat (bb_len b)) bs"
    "chunk_expand bs (block_chunk src bs b) = pad_to bs (block_data src b)"
    "block_chunk src bs b \<noteq> DontCare n"
proof -
  have lp: "length (pad_to bs (block_data src b)) = div_up (unat (bb_len b)) bs * bs"
    by (simp add: length_pad_to[OF assms(1)] length_block_data[OF assms(2)])
  show "chunk_wf bs (block_chunk src bs b)"
    "chunk_blocks bs (block_chunk src bs b) = div_up (unat (bb_len b)) bs"
    "block_chunk src bs b \<noteq> DontCare n"
    using lp assms(1) by (cases "bb_backing b"; simp add: block_chunk_def chunk_wf_def)+
  show "chunk_expand bs (block_chunk src bs b) = pad_to bs (block_data src b)"
  proof (cases "bb_backing b")
    case (BB_FILL v)
    then have "unat (bb_len b) mod bs = 0" using assms(3) by (simp add: fill_aligned_def)
    then have "div_up (unat (bb_len b)) bs * bs = unat (bb_len b)"
      using div_up_exact[OF assms(1)] div_mult_mod_eq[of "unat (bb_len b)" bs] by simp
    with BB_FILL show ?thesis by (simp add: block_chunk_def block_data_def pad_to_def)
  qed (simp_all add: block_chunk_def)
qed

lemma chunk_at_data: "c \<noteq> DontCare (chunk_blocks bs c) \<Longrightarrow> chunk_at bs k c = (\<lambda>pos.
    if k * bs \<le> pos \<and> pos < (k + chunk_blocks bs c) * bs then Some (chunk_expand bs c ! (pos - k * bs)) else None)"
  by (cases c) (simp_all cong: if_cong)

lemma zero_filled_block:
  assumes "0 < bs" "bb_readable src b" "fill_aligned bs b"
  shows "zero_filled (bb_map src bs b) (chunk_at bs (unat (bb_block b)) (block_chunk src bs b))"
proof -
  note bc = block_chunk_props[OF assms]
  have "chunk_at bs (unat (bb_block b)) (block_chunk src bs b) pos = bb_map src bs b pos \<or>
      bb_map src bs b pos = None \<and> chunk_at bs (unat (bb_block b)) (block_chunk src bs b) pos = Some 0" for pos
  proof (cases "bb_start bs b \<le> pos \<and> pos < bb_end bs b * bs")
    case True
    then obtain k where k: "pos = bb_start bs b + k" using le_Suc_ex by blast
    have kl: "k < length (pad_to bs (block_data src b))" using True k
      by (simp add: length_pad_to[OF assms(1)] length_block_data[OF assms(2)] bb_end_def bb_start_def add_mult_distrib)
    have c: "chunk_at bs (unat (bb_block b)) (block_chunk src bs b) pos = Some (pad_to bs (block_data src b) ! k)"
      using True by (simp add: chunk_at_data[OF bc(4)] bc k bb_start_def bb_end_def)
    show ?thesis
    proof (cases "k < unat (bb_len b)")
      case True
      then show ?thesis unfolding c
        by (simp add: bb_map_def k backing_byte_data[OF assms(2)] pad_to_def nth_append length_block_data[OF assms(2)])
    next
      case False
      then show ?thesis unfolding c using kl
        by (simp add: bb_map_def k pad_to_def nth_append length_block_data[OF assms(2)])
    qed
  next
    case False
    then show ?thesis using bb_range[OF assms(1), of b]
      by (auto simp: chunk_at_data[OF bc(4)] bc bb_map_def bb_start_def bb_end_def)
  qed
  then show ?thesis by (simp add: zero_filled_def)
qed

lemma zero_filled_add:
  assumes "zero_filled m m'" "zero_filled n n'" "dom m \<inter> dom n' = {}"
  shows "zero_filled (m ++ n) (m' ++ n')"
proof -
  have "(m' ++ n') pos = (m ++ n) pos \<or> (m ++ n) pos = None \<and> (m' ++ n') pos = Some 0" for pos
  proof -
    have "n' pos = n pos \<or> n pos = None \<and> n' pos = Some 0" "m' pos = m pos \<or> m pos = None \<and> m' pos = Some 0"
      using assms(1,2) by (simp_all add: zero_filled_def)
    moreover have "n' pos = None \<or> m pos = None" using assms(3) by (auto simp: dom_def)
    ultimately show ?thesis by (auto simp: map_add_def split: option.splits)
  qed
  then show ?thesis by (simp add: zero_filled_def)
qed

lemma gap_chunk_props:
  "chunks_map bs k (gap_chunk k n) = Map.empty" "total_blocks bs (gap_chunk k n) = n - k"
  "\<forall>c\<in>set (gap_chunk k n). chunk_wf bs c"
  by (simp_all add: gap_chunk_def chunk_wf_def)

lemma chunks_map_append:
  "chunks_map bs k (cs @ ds) = chunks_map bs (k + total_blocks bs cs) ds ++ chunks_map bs k cs"
  by (induction cs arbitrary: k) (simp_all add: add.assoc)

text \<open>The chunks of a sorted list: their number of blocks and their image.\<close>

lemma block_chunks_props:
  assumes "0 < bs" "blocks_sorted bs blocks" "list_all (bb_readable src) blocks" "list_all (fill_aligned bs) blocks"
    and "\<forall>b\<in>set blocks. last0 \<le> unat (bb_block b) \<and> bb_end bs b \<le> n" "last0 \<le> n"
  shows "(\<forall>c\<in>set (block_chunks src bs last0 blocks n). chunk_wf bs c) \<and>
    last0 + total_blocks bs (block_chunks src bs last0 blocks n) = n \<and>
    zero_filled (image_map src bs blocks) (chunks_map bs last0 (block_chunks src bs last0 blocks n))"
  using assms(2-6)
proof (induction blocks arbitrary: last0)
  case Nil
  then show ?case by (simp add: gap_chunk_props zero_filled_def)
next
  case (Cons b blocks)
  have b: "bb_readable src b" "fill_aligned bs b" "last0 \<le> unat (bb_block b)" "bb_end bs b \<le> n"
    using Cons.prems by simp_all
  note bc = block_chunk_props[OF assms(1) b(1,2)]
  let ?rest = "block_chunks src bs (bb_end bs b) blocks n"
  have sorted: "blocks_sorted bs blocks" "\<forall>b'\<in>set blocks. before bs b b'"
    using Cons.prems(1) by (simp_all add: blocks_sorted_def)
  have IH: "(\<forall>c\<in>set ?rest. chunk_wf bs c) \<and> bb_end bs b + total_blocks bs ?rest = n \<and>
      zero_filled (image_map src bs blocks) (chunks_map bs (bb_end bs b) ?rest)"
    by (rule Cons.IH) (use sorted Cons.prems b in \<open>auto simp: before_def\<close>)
  have e: "unat (bb_block b) + div_up (unat (bb_len b)) bs = bb_end bs b" by (simp add: bb_end_def)
  have "dom (image_map src bs blocks) \<inter> dom (chunk_at bs (unat (bb_block b)) (block_chunk src bs b)) = {}"
  proof -
    have "\<not> pos < bb_end bs b * bs" if "b' \<in> set blocks" "pos \<in> dom (bb_map src bs b')" for pos b'
      using dom_bb_map[OF assms(1), of src b'] before_start[of bs b b'] that sorted(2) by fastforce
    moreover have "pos < bb_end bs b * bs"
      if "pos \<in> dom (chunk_at bs (unat (bb_block b)) (block_chunk src bs b))" for pos
      using that chunk_at_dom[of bs "unat (bb_block b)" "block_chunk src bs b" pos] by (auto simp: bc e)
    ultimately show ?thesis unfolding dom_image_map by blast
  qed
  from zero_filled_add[OF _ zero_filled_block[OF assms(1) b(1,2)] this] IH
  show ?case using b(3) e
    by (simp add: chunks_map_append gap_chunk_props bc ball_Un)
qed

lemma file_chunks_props:
  assumes "sf_ok s" "list_all (bb_readable src) (sf_blocks s)"
    and "list_all (fill_aligned (unat (sf_block_size s))) (sf_blocks s)"
  shows "\<forall>c\<in>set (file_chunks src s). chunk_wf (unat (sf_block_size s)) c"
    "total_blocks (unat (sf_block_size s)) (file_chunks src s) = unat (sf_len s) div unat (sf_block_size s)"
    "zero_filled (bbl_image src (sf_list s)) (chunks_map (unat (sf_block_size s)) 0 (file_chunks src s))"
proof -
  have bs: "bbl_block_size (sf_list s) = sf_block_size s" using assms(1) by (simp add: sf_ok_def Let_def)
  have "\<forall>b\<in>set (sf_blocks s). 0 \<le> unat (bb_block b) \<and>
      bb_end (unat (sf_block_size s)) b \<le> unat (sf_len s) div unat (sf_block_size s)"
    using sf_okD(8)[OF assms(1)] by simp
  from block_chunks_props[OF sf_okD(2,4)[OF assms(1)] assms(2,3) this]
  show "\<forall>c\<in>set (file_chunks src s). chunk_wf (unat (sf_block_size s)) c"
    "total_blocks (unat (sf_block_size s)) (file_chunks src s) = unat (sf_len s) div unat (sf_block_size s)"
    "zero_filled (bbl_image src (sf_list s)) (chunks_map (unat (sf_block_size s)) 0 (file_chunks src s))"
    by (simp_all add: file_chunks_def Let_def bbl_image_def bs)
qed

text \<open>The expanded image of a file: as long as the file says, holes read as zeros.\<close>

lemma expanded_image_spec:
  assumes "sf_ok s" "list_all (bb_readable src) (sf_blocks s)"
    and "list_all (fill_aligned (unat (sf_block_size s))) (sf_blocks s)"
  shows "length (expanded_image src s) = unat (sf_len s)"
    "pos < unat (sf_len s) \<Longrightarrow> expanded_image src s ! pos = or_zero (bbl_image src (sf_list s) pos)"
proof -
  let ?bs = "unat (sf_block_size s)"
  note fc = file_chunks_props[OF assms]
  note len = sf_okD(6)[OF assms(1)]
  show "length (expanded_image src s) = unat (sf_len s)"
    using length_expand[OF fc(1)] fc(2) len by (simp add: expanded_image_def)
  assume "pos < unat (sf_len s)"
  then have "expanded_image src s ! pos = or_zero (chunks_map ?bs 0 (file_chunks src s) pos)"
    using expand_nth[OF fc(1), of pos 0] fc(2) len by (simp add: expanded_image_def)
  then show "expanded_image src s ! pos = or_zero (bbl_image src (sf_list s) pos)"
    using zero_filled_or_zero[OF fc(3)] by simp
qed

end
