(* ===== verification/SpSplit.thy ===== *)
theory SpSplit imports SpImage begin

text \<open>
  The loop of \<open>sparse_file_write\<close> that splits every block at 64 MiB, and writing to a descriptor. The
  loop ends when a block of the file is at most 64 MiB, keeps the image, and leaves blocks whose raw
  chunks have a total size that fits the 32 bit field of the chunk header.
\<close>

section \<open>Splitting all blocks\<close>

text \<open>Splitting makes no new kind of block.\<close>

definition block_types :: "backed_block list \<Rightarrow> backed_block_type set" where
  "block_types blocks = (type_of \<circ> bb_backing) ` set blocks"

lemma type_of_advance: "type_of (advance_backing n d) = type_of d"
  by (cases d) (simp_all add: advance_backing_def)

lemma split_types:
  assumes "i < length (bbl_blocks bbl)"
  shows "block_types (bbl_blocks (backed_block_split bbl i n)) \<subseteq> block_types (bbl_blocks bbl)"
proof -
  have "bbl_blocks bbl ! i \<in> set (bbl_blocks bbl)" using assms by simp
  then show ?thesis
    by (auto simp: block_types_def backed_block_split_def split_blocks_def Let_def type_of_advance
        dest: in_set_takeD in_set_dropD)
qed

definition split_limit :: "u32 \<Rightarrow> u32" where
  "split_limit w = align_down MAX_BACKED_BLOCK_SIZE w"

text \<open>What a block must satisfy to be written, with an image of \<open>n\<close> blocks.\<close>

definition block_writable :: "sources \<Rightarrow> nat \<Rightarrow> nat \<Rightarrow> backed_block \<Rightarrow> bool" where
  "block_writable src bs n b \<longleftrightarrow> bb_readable src b \<and> fill_aligned bs b \<and> bb_end bs b \<le> n"

lemma split_blocks_writable:
  assumes w: "0 < w" "unat w mod 4 = 0" and ok: "bb_ok (unat w) b" and n: "w \<le> n"
    and long: "\<not> bb_len b \<le> ucast (align_down n w)" and s: "split_blocks w b (align_down n w) = (b1, b2)"
    and wr: "block_writable src (unat w) k b"
  shows "block_writable src (unat w) k b1" "block_writable src (unat w) k b2"
    "unat (bb_len b1) + unat (bb_len b2) = unat (bb_len b)"
proof -
  let ?m = "align_down n w"
  note sb = split_blocks_ok[OF w ok n long s] and ad = align_down_props[OF n w(1)]
  have pos: "0 < unat w" using w(1) by (simp add: word_less_nat_alt)
  have lt: "unat ?m < unat (bb_len b)" using long by (simp add: word_le_nat_alt not_le)
  have b1: "bb_len b1 = ucast ?m" "bb_backing b1 = bb_backing b"
    and b2: "bb_len b2 = bb_len b - ucast ?m" "bb_backing b2 = advance_backing ?m (bb_backing b)"
    using s by (auto simp: split_blocks_def)
  have l2: "unat (bb_len b2) = unat (bb_len b) - unat ?m" using lt by (simp add: b2 unat_sub_small)
  then show "unat (bb_len b1) + unat (bb_len b2) = unat (bb_len b)" using lt by (simp add: b1)
  have md: "unat ?m mod unat w = 0" by (simp add: ad(2))
  have off: "unat (x + ucast ?m) = unat x + unat ?m" if "unat x + unat (bb_len b) < 2 ^ 63" for x :: u64
    using that lt by (subst unat_add_small) auto
  have "bb_readable src b1" "bb_readable src b2"
    using wr ok lt l2 off
    by (cases "bb_backing b"; auto simp: block_writable_def bb_readable_def b1 b2(2) advance_backing_def bb_ok_def)+
  moreover have "fill_aligned (unat w) b1" "fill_aligned (unat w) b2"
    using wr md l2 lt
    by (cases "bb_backing b"; auto simp: block_writable_def fill_aligned_def b1 b2(2) advance_backing_def
        mod_diff_left_eq dvd_eq_mod_eq_0[symmetric] intro: dvd_diff_nat)+
  moreover have "bb_end (unat w) b1 \<le> bb_end (unat w) b2"
    using sb(3) bb_block_less_end[OF sb(2) pos] by (simp add: before_def)
  ultimately show "block_writable src (unat w) k b1" "block_writable src (unat w) k b2"
    using wr sb(5) by (simp_all add: block_writable_def)
qed

lemma split_step:
  assumes ok: "bbl_ok bbl" and i: "i < length (bbl_blocks bbl)" and n: "bbl_block_size bbl \<le> n"
    and wr: "list_all (block_writable src (unat (bbl_block_size bbl)) k) (bbl_blocks bbl)"
  defines "bbl' \<equiv> backed_block_split bbl i n"
  shows "list_all (block_writable src (unat (bbl_block_size bbl)) k) (bbl_blocks bbl')"
    "bbl_block_size bbl' = bbl_block_size bbl" "i < length (bbl_blocks bbl')" "take i (bbl_blocks bbl') = take i (bbl_blocks bbl)"
    "sum_list (map (unat \<circ> bb_len) (drop (Suc i) (bbl_blocks bbl'))) <
      sum_list (map (unat \<circ> bb_len) (drop i (bbl_blocks bbl)))"
proof -
  let ?w = "bbl_block_size bbl" and ?bl = "bbl_blocks bbl"
  let ?m = "align_down n ?w" and ?b = "?bl ! i"
  have w: "0 < ?w" "unat ?w mod 4 = 0" using ok by (simp_all add: bbl_ok_def)
  have b: "bb_ok (unat ?w) ?b" "block_writable src (unat ?w) k ?b"
    using ok wr i by (simp_all add: bbl_ok_def blocks_sorted_def list_all_length)
  have d: "drop i ?bl = ?b # drop (Suc i) ?bl" by (rule Cons_nth_drop_Suc[OF i, symmetric])
  have pos: "0 < unat (bb_len ?b)" using b(1) by (simp add: bb_ok_def word_less_nat_alt)
  have "list_all (block_writable src (unat ?w) k) (bbl_blocks bbl') \<and> bbl_block_size bbl' = ?w \<and>
      i < length (bbl_blocks bbl') \<and> take i (bbl_blocks bbl') = take i ?bl \<and>
      sum_list (map (unat \<circ> bb_len) (drop (Suc i) (bbl_blocks bbl'))) < sum_list (map (unat \<circ> bb_len) (drop i ?bl))"
  proof (cases "bb_len ?b \<le> ucast ?m")
    case True
    then show ?thesis using wr i pos by (simp add: bbl'_def backed_block_split_def Let_def d)
  next
    case False
    obtain b1 b2 where s: "split_blocks ?w ?b ?m = (b1, b2)" by force
    have eq: "bbl_blocks bbl' = take i ?bl @ b1 # b2 # drop (Suc i) ?bl" "bbl_block_size bbl' = ?w"
      using False s by (simp_all add: bbl'_def backed_block_split_def Let_def)
    note sw = split_blocks_writable[OF w b(1) n False s b(2)]
    have "list_all (block_writable src (unat ?w) k) (take i ?bl)" "list_all (block_writable src (unat ?w) k) (drop (Suc i) ?bl)"
      using wr by (auto simp: list_all_iff dest: in_set_takeD in_set_dropD)
    moreover have "0 < unat (bb_len b1)"
      using split_blocks_ok(1)[OF w b(1) n False s] by (simp add: bb_ok_def word_less_nat_alt)
    ultimately show ?thesis using sw i by (simp add: eq d)
  qed
  then show "list_all (block_writable src (unat ?w) k) (bbl_blocks bbl')"
    "bbl_block_size bbl' = bbl_block_size bbl" "i < length (bbl_blocks bbl')" "take i (bbl_blocks bbl') = take i ?bl"
    "sum_list (map (unat \<circ> bb_len) (drop (Suc i) (bbl_blocks bbl'))) < sum_list (map (unat \<circ> bb_len) (drop i ?bl))"
    by simp_all
qed

lemma split_all_ok:
  assumes "bbl_ok bbl" "bbl_block_size bbl \<le> MAX_BACKED_BLOCK_SIZE"
    and "list_all (block_writable src (unat (bbl_block_size bbl)) k) (bbl_blocks bbl)"
    and "list_all (\<lambda>b. bb_len b \<le> ucast (split_limit (bbl_block_size bbl))) (take i (bbl_blocks bbl))"
  shows "\<exists>bbl'. split_all i bbl = Some bbl' \<and> bbl_ok bbl' \<and> bbl_block_size bbl' = bbl_block_size bbl \<and>
    bbl_image src bbl' = bbl_image src bbl \<and> block_types (bbl_blocks bbl') \<subseteq> block_types (bbl_blocks bbl) \<and>
    list_all (block_writable src (unat (bbl_block_size bbl)) k) (bbl_blocks bbl') \<and>
    list_all (\<lambda>b. bb_len b \<le> ucast (split_limit (bbl_block_size bbl))) (bbl_blocks bbl')"
  using assms
proof (induction "sum_list (map (unat \<circ> bb_len) (drop i (bbl_blocks bbl)))" arbitrary: i bbl rule: less_induct)
  case less
  show ?case
  proof (cases "i < length (bbl_blocks bbl)")
    case True
    let ?bbl = "backed_block_split bbl i MAX_BACKED_BLOCK_SIZE"
    note st = split_step[OF less.prems(1) True less.prems(2,3)]
    note sp = backed_block_split_ok[OF less.prems(1) True less.prems(2)]
    have "list_all (\<lambda>b. bb_len b \<le> ucast (split_limit (bbl_block_size bbl))) (take (Suc i) (bbl_blocks ?bbl))"
      using less.prems(4) st(3,4) sp(3) by (simp add: take_Suc_conv_app_nth split_limit_def)
    with less.hyps[OF st(5) sp(1)] st less.prems sp(2) have
      "\<exists>bbl'. split_all (Suc i) ?bbl = Some bbl' \<and> bbl_ok bbl' \<and> bbl_block_size bbl' = bbl_block_size bbl \<and>
        bbl_image src bbl' = bbl_image src bbl \<and> block_types (bbl_blocks bbl') \<subseteq> block_types (bbl_blocks ?bbl) \<and>
        list_all (block_writable src (unat (bbl_block_size bbl)) k) (bbl_blocks bbl') \<and>
        list_all (\<lambda>b. bb_len b \<le> ucast (split_limit (bbl_block_size bbl))) (bbl_blocks bbl')"
      by simp
    then show ?thesis using True split_types[OF True] by (auto simp: split_all.simps[of i bbl])
  next
    case False
    with less.prems show ?thesis by (simp add: split_all.simps[of i bbl])
  qed
qed

end
