(* ===== verification/SpFileWrite.thy ===== *)
theory SpFileWrite imports SpSplit begin

text \<open>
  \<open>sparse_file_write\<close>, \<open>sparse_file_callback\<close> and \<open>sparse_file_len\<close> from end to end: what a descriptor
  or a callback has received when they return.
\<close>

definition sf_writable :: "sources \<Rightarrow> sparse_file \<Rightarrow> bool" where
  "sf_writable src s \<longleftrightarrow> sf_ok s \<and> list_all (bb_readable src) (sf_blocks s) \<and>
     list_all (fill_aligned (unat (sf_block_size s))) (sf_blocks s)"

lemma sf_writableD:
  assumes "sf_writable src s"
  shows "sf_ok s" "list_all (bb_readable src) (sf_blocks s)"
    "list_all (fill_aligned (unat (sf_block_size s))) (sf_blocks s)"
    "\<forall>b\<in>set (sf_blocks s). type_of (bb_backing b) = BACKED_BLOCK_FILL \<longrightarrow>
      unat (bb_len b) mod unat (sf_block_size s) = 0"
  using assms by (auto simp: sf_writable_def fill_aligned_def list_all_iff)

lemma sf_writable_iff:
  "sf_writable src s \<longleftrightarrow> (let bs = unat (sf_block_size s) in
     bbl_ok (sf_list s) \<and> bbl_block_size (sf_list s) = sf_block_size s \<and>
     unat (sf_len s) + bs < 2 ^ 63 \<and> unat (sf_len s) mod bs = 0 \<and> unat (sf_len s) div bs < 2 ^ 32 \<and>
     list_all (block_writable src bs (unat (sf_len s) div bs)) (sf_blocks s))"
  by (auto simp: sf_writable_def sf_ok_def Let_def block_writable_def list_all_iff)

text \<open>The loop that splits the blocks, seen on the file.\<close>

lemma split_file:
  assumes "sf_writable src s" "sf_block_size s \<le> MAX_BACKED_BLOCK_SIZE"
  shows "\<exists>l. split_all 0 (sf_list s) = Some l \<and> sf_writable src (s\<lparr>sf_list := l\<rparr>) \<and>
    bbl_image src l = bbl_image src (sf_list s) \<and> block_types (bbl_blocks l) \<subseteq> block_types (sf_blocks s) \<and>
    list_all (\<lambda>b. bb_len b \<le> ucast (split_limit (sf_block_size s))) (bbl_blocks l)"
proof -
  let ?n = "unat (sf_len s) div unat (sf_block_size s)"
  have ok: "bbl_ok (sf_list s)" and bs: "bbl_block_size (sf_list s) = sf_block_size s"
    and wr: "list_all (block_writable src (unat (sf_block_size s)) ?n) (sf_blocks s)"
    using assms(1) by (simp_all add: sf_writable_iff Let_def)
  from split_all_ok[OF ok, of src ?n 0] assms wr bs show ?thesis
    by (auto simp: sf_writable_iff Let_def)
qed

section \<open>A descriptor\<close>

text \<open>A descriptor at the start of an empty file, on which no write fails.\<close>

definition fresh_fd :: "file_sink \<Rightarrow> bool" where
  "fresh_fd fd \<longleftrightarrow> fs_bytes fd = [] \<and> fs_pos fd = 0 \<and> Failed \<notin> set (fs_script fd)"

lemma file_pad_view:
  assumes "file_good s" "length (file_view s) = n" "n < 2 ^ 63"
  shows "\<exists>s'. file_pad (of_nat n) s = (0, s') \<and> fs_bytes s' = file_view s"
proof -
  have u: "unat (of_nat n :: u64) = n" using assms(3) by (intro unat_of_nat_small) simp
  then have "sint (of_nat n :: u64) = int n" using sint_small assms(3) by metis
  moreover have "take n (fs_bytes s) @ replicate (n - length (fs_bytes s)) 0 = file_view s"
    using assms(1,2) by (auto simp: file_view_def file_good_def)
  ultimately show ?thesis by (simp add: file_pad_def)
qed

lemma op_pad_file: "op_pad file_ops = file_pad"
  by (simp add: file_ops_def)

lemma write_to_fd_expanded:
  assumes s: "sf_writable src s" and env: "env_ok env src" and fd: "fresh_fd fd"
  shows "\<exists>fd'. write_to env s (output_file_open_fd fd (sf_block_size s) (sf_len s) False chunks crc) = Inr (0, fd') \<and>
    fs_bytes fd' = expanded_image src s"
proof -
  let ?w = "sf_block_size s"
  let ?out = "\<lparr>of_sink = fd, of_ops = file_ops, of_sparse = False, cur_out_ptr = 0, chunk_cnt = 0, of_crc32 = 0,
    use_crc = crc, of_block_size = ?w, of_len = sf_len s\<rparr>"
  note sD = sf_writableD[OF s]
  have open_out: "output_file_open_fd fd ?w (sf_len s) False chunks crc = Inr (Inr ?out)"
    by (simp add: output_file_open_fd_def output_file_init_def)
  have "fd_sink.expanding ?w ?out" using fd by (simp add: fd_sink.expanding_def file_good_def fresh_fd_def)
  from fd_sink.expanded_all_blocks[OF sD(1,2) env sD(4) this] obtain t where
    t: "write_all_blocks env s ?out = Inr (0, ?out\<lparr>of_sink := t\<rparr>)" "file_good t"
      "file_view t = expanded_image src s"
    using fd by (auto simp: fd_sink.expanded_def file_view_def fresh_fd_def expanded_image_def)
  have len: "length (file_view t) = unat (sf_len s)" using expanded_image_spec(1)[OF sD(1-3)] t(3) by simp
  have "unat (sf_len s) < 2 ^ 63" using sf_okD(5)[OF sD(1)] by simp
  from file_pad_view[OF t(2) len this] obtain fd' where
    fd': "file_pad (sf_len s) t = (0, fd')" "fs_bytes fd' = expanded_image src s" using t(3) by auto
  then show ?thesis
    by (simp add: write_to_def open_out t(1) close_with_def output_file_close_def write_end_chunk_def
        write_normal_end_chunk_def op_pad_file)
qed

lemma sparse_file_write_expanded_lemma:
  assumes s: "sf_writable src s" "sf_block_size s \<le> MAX_BACKED_BLOCK_SIZE" and env: "env_ok env src"
    and fd: "fresh_fd fd"
  shows "\<exists>fd' s'. sparse_file_write env s fd False crc = Some (Inr (0, fd', s')) \<and>
    length (fs_bytes fd') = unat (sf_len s) \<and>
    (\<forall>pos<unat (sf_len s). fs_bytes fd' ! pos = or_zero (bbl_image src (sf_list s) pos))"
proof -
  obtain l where l: "split_all 0 (sf_list s) = Some l" "sf_writable src (s\<lparr>sf_list := l\<rparr>)"
    "bbl_image src l = bbl_image src (sf_list s)" using split_file[OF s] by blast
  let ?s = "s\<lparr>sf_list := l\<rparr>"
  note sD = sf_writableD[OF l(2)]
  obtain fd' where fd': "write_to env ?s (output_file_open_fd fd (sf_block_size s) (sf_len s) False
      (of_nat (length (file_chunks src ?s))) crc) = Inr (0, fd')" "fs_bytes fd' = expanded_image src ?s"
    using write_to_fd_expanded[OF l(2) env fd] by auto
  have "sf_block_size s \<noteq> 0" using sf_okD(1)[OF sD(1)] by (simp add: word_neq_0_conv)
  then have "sparse_file_write env s fd False crc = Some (Inr (0, fd', ?s))"
    using fd'(1) l(1) sparse_count_chunks_ok[OF sD(1), of src] by (simp add: sparse_file_write_def Let_def)
  with expanded_image_spec[OF sD(1-3)] show ?thesis by (simp add: fd'(2) l(3))
qed

lemma sparse_file_write_sparse_lemma:
  assumes s: "sf_writable src s" "sf_block_size s \<le> MAX_BACKED_BLOCK_SIZE" and env: "env_ok env src"
    and fd: "fresh_fd fd"
  shows "\<exists>fd' s'. sparse_file_write env s fd True crc = Some (Inr (0, fd', s')) \<and>
    fs_bytes fd' = sparse_image src s' crc \<and> sf_writable src s' \<and>
    sf_block_size s' = sf_block_size s \<and> sf_len s' = sf_len s \<and>
    bbl_image src (sf_list s') = bbl_image src (sf_list s) \<and> block_types (sf_blocks s') \<subseteq> block_types (sf_blocks s) \<and>
    list_all (\<lambda>b. bb_len b \<le> ucast (split_limit (sf_block_size s))) (sf_blocks s')"
proof -
  obtain l where l: "split_all 0 (sf_list s) = Some l" "sf_writable src (s\<lparr>sf_list := l\<rparr>)"
    "bbl_image src l = bbl_image src (sf_list s)" "block_types (bbl_blocks l) \<subseteq> block_types (sf_blocks s)"
    "list_all (\<lambda>b. bb_len b \<le> ucast (split_limit (sf_block_size s))) (bbl_blocks l)" using split_file[OF s] by blast
  let ?s = "s\<lparr>sf_list := l\<rparr>"
  note sD = sf_writableD[OF l(2)]
  have "file_exact fd" using fd by (simp add: file_exact_def fresh_fd_def)
  from fd_bytes.write_to_sparse[OF sD(1,2) env this, of crc] obtain fd' where
    fd': "write_to env ?s (output_file_open_fd fd (sf_block_size s) (sf_len s) True
      (of_nat (length (file_chunks src ?s))) crc) = Inr (0, fd')" "fs_bytes fd' = sparse_image src ?s crc"
    using fd by (auto simp: output_file_open_fd_def fresh_fd_def)
  have "sf_block_size s \<noteq> 0" using sf_okD(1)[OF sD(1)] by (simp add: word_neq_0_conv)
  then have "sparse_file_write env s fd True crc = Some (Inr (0, fd', ?s))"
    using fd'(1) l(1) sparse_count_chunks_ok[OF sD(1), of src] by (simp add: sparse_file_write_def Let_def)
  then show ?thesis by (intro exI[of _ fd'] exI[of _ ?s]) (simp add: fd'(2) l)
qed

section \<open>A callback\<close>

lemma sparse_file_callback_collects:
  assumes "sf_ok s" "list_all (bb_readable src) (sf_blocks s)" "env_ok env src"
  shows "sparse_file_callback env s True crc collect_write p = Inr (0, p @ sparse_image src s crc)"
  using collector_sink.write_to_sparse[OF assms, of p crc] sparse_count_chunks_ok[OF assms(1), of src]
  by (simp add: sparse_file_callback_def output_file_open_callback_def)

lemma sparse_file_len_image:
  assumes ok: "sf_ok s" "list_all (bb_readable src) (sf_blocks s)" "env_ok env src"
  shows "sparse_file_len env s True crc = Inr (of_nat (length (sparse_image src s crc)))"
proof -
  let ?n = "of_nat (length (file_chunks src s))"
  obtain c where c: "write_to env s (output_file_open_callback out_counter_write 0 (sf_block_size s) (sf_len s)
      True ?n crc) = Inr (0, c)" "c = count_bytes 0 (sparse_image src s crc)"
    using counter_sink.write_to_sparse[OF ok, of 0 crc] by (auto simp: output_file_open_callback_def)
  then show ?thesis using sparse_count_chunks_ok[OF ok(1), of src]
    by (auto simp: sparse_file_len_def write_to_def close_with_def run_simps count_bytes_def
        bind_run_def ENOMEM_def split: sum.splits prod.splits)
qed

end
