(* ===== verification/SpReadInv.thy ===== *)
theory SpReadInv imports SpRead SpFileWrite begin

text \<open>
  Reading back what was written. The interface \<open>sparse_source\<close> states what the reader relies on: a
  source delivers the bytes that remain, in order, and the data it hands to the block list are these
  bytes. Inside it, reading the bytes of a chunk list builds its image. The buffer and the descriptor
  keep the interface.
\<close>

section \<open>Adding a chunk to the list\<close>

lemma merge_closed_writable:
  assumes "0 < w" "unat w mod 4 = 0"
  shows "merge_closed w (block_writable src (unat w) n)"
  unfolding merge_closed_def
proof (intro allI impI)
  fix a b ab
  assume ok: "bb_ok (unat w) a" "bb_ok (unat w) b" and ord: "before (unat w) a b"
    and wr: "block_writable src (unat w) n a" "block_writable src (unat w) n b"
    and m: "merge_bb w a (Some b) = Inr (Some ab)"
  have ab: "bb_end (unat w) ab = bb_end (unat w) b" "unat (bb_len ab) = unat (bb_len a) + unat (bb_len b)"
    "unat (bb_len a) mod unat w = 0" "mergeable_backing a b" "bb_backing ab = bb_backing a"
    using merge_bb_ok[OF assms ok ord] m by auto
  have off: "unat (x + bb_len a) = unat x + unat (bb_len a)" if "unat x + unat (bb_len a) < 2 ^ 63" for x
    using that by (intro unat_add_small) simp
  have "bb_readable src ab"
    using ab(2,4,5) wr ok off
    by (cases "bb_backing a"; cases "bb_backing b")
      (auto simp: mergeable_backing_def bb_readable_def block_writable_def bb_ok_def)
  moreover have "fill_aligned (unat w) ab"
    using ab(2-5) wr
    by (cases "bb_backing a"; cases "bb_backing b")
      (auto simp: mergeable_backing_def fill_aligned_def block_writable_def mod_add_eq[symmetric])
  ultimately show "block_writable src (unat w) n ab" using ab(1) wr(2) by (simp add: block_writable_def)
qed

text \<open>A file that has been filled up to block \<open>k\<close>.\<close>

definition reading :: "sources \<Rightarrow> u32 \<Rightarrow> nat \<Rightarrow> sparse_file \<Rightarrow> bool" where
  "reading src w k s \<longleftrightarrow> bbl_ok (sf_list s) \<and> bbl_block_size (sf_list s) = w \<and> sf_block_size s = w \<and>
     list_all (block_writable src (unat w) k) (sf_blocks s)"

lemma readingD:
  assumes "reading src w k s"
  shows "0 < w" "0 < unat w" "unat w mod 4 = 0" "sf_block_size s = w"
  using assms by (auto simp: reading_def bbl_ok_def word_less_nat_alt)

lemma reading_mono: "reading src w k s \<Longrightarrow> k \<le> n \<Longrightarrow> reading src w n s"
  by (auto simp: reading_def block_writable_def list_all_iff)

lemma add_chunk_block:
  assumes s: "reading src w k s" and n: "0 < n" "k + n < 2 ^ 32" "(k + n) * unat w < 2 ^ 63"
    and len: "unat len = n * unat w" and data: "backing_ok d len" "readable src d len"
    and bytes: "\<And>i. i < n * unat w \<Longrightarrow> backing_byte src d i = Some (chunk_expand (unat w) c ! i)"
    and c: "chunk_blocks (unat w) c = n" "c \<noteq> DontCare n"
  shows "\<exists>s'. with_list s (queue_bb (sf_list s) \<lparr>bb_block = of_nat k, bb_len = len, bb_backing = d\<rparr>) = Inr s' \<and>
    reading src w (k + n) s' \<and> sf_len s' = sf_len s \<and> sf_verbose s' = sf_verbose s \<and>
    bbl_image src (sf_list s') = bbl_image src (sf_list s) ++ chunk_at (unat w) k c"
proof -
  let ?b = "\<lparr>bb_block = of_nat k, bb_len = len, bb_backing = d\<rparr>"
  note w = readingD[OF s]
  have k: "unat (of_nat k :: u32) = k" by (rule unat_of_nat_small) (use n(2) in simp)
  have e: "bb_end (unat w) ?b = k + n" using div_up_exact[OF w(2), of "unat len"] w(2) by (simp add: bb_end_def k len)
  have "0 < len" using n(1) w(2) by (simp add: word_less_nat_alt len)
  then have ok: "bb_ok (unat w) ?b" using n data(1) by (simp add: bb_ok_def e)
  have bs: "bbl_block_size (sf_list s) = w" and okl: "bbl_ok (sf_list s)" using s by (simp_all add: reading_def)
  have wr: "list_all (block_writable src (unat w) (k + n)) (sf_blocks s)"
    using reading_mono[OF s, of "k + n"] by (simp add: reading_def)
  have "apart_from (unat w) ?b (sf_blocks s)"
    using s by (auto simp: apart_from_def before_def k reading_def list_all_iff block_writable_def)
  moreover have "block_writable src (unat w) (k + n) ?b"
    using data(2) w(2) by (simp add: block_writable_def bb_readable_def fill_aligned_def e len)
  moreover have "bb_map src (unat w) ?b = chunk_at (unat w) k c"
    using chunk_at_data[of c "unat w" k] c
    by (intro ext) (simp add: bb_map_def bb_start_def k len bytes add_mult_distrib less_diff_conv2)
  ultimately show ?thesis
    using queue_bb_ok[OF okl, of ?b src "block_writable src (unat w) (k + n)"] ok bs wr
      merge_closed_writable[OF w(1,3)] s
    by (auto simp: with_list_def reading_def)
qed

lemma mul_int64_ok:
  assumes "n < 2 ^ 32" "n * unat w < 2 ^ 63"
  shows "mul_int64 (of_nat n) w = Inr (of_nat n * ucast w)" "unat (of_nat n * ucast w :: u64) = n * unat w"
proof -
  have un: "unat (of_nat n :: u32) = n" using assms(1) by (intro unat_of_nat_small) simp
  then have "(ucast (of_nat n :: u32) :: u64) = of_nat n"
    using unat_ucast_u32_u64[of "of_nat n"] of_nat_unat_id[of "ucast (of_nat n :: u32) :: u64"] by simp
  with assms(2) show "mul_int64 (of_nat n) w = Inr (of_nat n * ucast w)" by (simp add: mul_int64_def un)
  have "unat (of_nat n :: u64) = n" using assms(1) by (intro unat_of_nat_small) simp
  then show "unat (of_nat n * ucast w :: u64) = n * unat w" using assms(2) by (subst unat_mult_63) simp_all
qed

text \<open>A new file, before anything is read into it.\<close>

lemma reading_new:
  assumes "0 < w" "unat w mod 4 = 0"
  shows "reading src w 0 ((sparse_file_new w len)\<lparr>sf_verbose := v\<rparr>)"
    "bbl_image src (sf_list ((sparse_file_new w len)\<lparr>sf_verbose := v\<rparr>)) = Map.empty"
  using assms
  by (simp_all add: reading_def sparse_file_new_def backed_block_list_new_def bbl_ok_def blocks_sorted_def bbl_image_def)

section \<open>Images\<close>

text \<open>A chunk as it stands in an image.\<close>

definition chunk_proper :: "nat \<Rightarrow> sparse_chunk \<Rightarrow> bool" where
  "chunk_proper bs c \<longleftrightarrow> chunk_wf bs c \<and> 0 < chunk_blocks bs c \<and> chunk_blocks bs c < 2 ^ 31 \<and>
     (case c of Raw d \<Rightarrow> CHUNK_HEADER_LEN + length d < 2 ^ 32 | _ \<Rightarrow> True)"

lemma sint_u32_small: "n < 2 ^ 31 \<Longrightarrow> sint (of_nat n :: u32) = int n"
  by (simp add: sint_uint unsigned_of_nat take_bit_nat_eq_self signed_take_bit_int_eq_self)

text \<open>The image of a chunk list, with or without a crc chunk.\<close>

definition image_bytes :: "u32 \<Rightarrow> sparse_chunk list \<Rightarrow> u32 option \<Rightarrow> u8 list" where
  "image_bytes w cs crc = enc_sparse_header (sparse_header_of w (of_nat (total_blocks (unat w) cs))
       (of_nat (length cs)) (crc \<noteq> None)) @
     concat (map (chunk_bytes (unat w)) cs) @ (case crc of None \<Rightarrow> [] | Some c \<Rightarrow> crc_chunk_bytes c)"

lemma image_header:
  fixes w :: u32 and crc :: bool
  assumes "length cs < 2 ^ 32 - 1"
  defines "h \<equiv> sparse_header_of w (of_nat (total_blocks (unat w) cs)) (of_nat (length cs)) crc"
  shows "header_acceptable h" "unat (sh_file_hdr_sz h) = SPARSE_HEADER_LEN" "sh_chunk_hdr_sz h = of_nat CHUNK_HEADER_LEN"
    "unat (sh_total_chunks h) = length cs + (if crc then 1 else 0)" "dec_sparse_header (enc_sparse_header h) = h"
    "length (enc_sparse_header h) = SPARSE_HEADER_LEN"
proof -
  have "unat (of_nat (length cs) :: u32) = length cs" "unat (of_nat (length cs + 1) :: u32) = length cs + 1"
    by (rule unat_of_nat_small, use assms(1) in simp)+
  moreover have "sh_total_chunks h = (if crc then of_nat (length cs + 1) else of_nat (length cs))"
    by (simp add: h_def sparse_header_of_def)
  ultimately show "unat (sh_total_chunks h) = length cs + (if crc then 1 else 0)"
    by (simp del: of_nat_add)
qed (simp_all add: h_def sparse_header_of_def header_acceptable_def SPARSE_HEADER_LEN_def CHUNK_HEADER_LEN_def
    sparse_hdr.dec_image sparse_hdr.length_image[unfolded SPARSE_HEADER_LEN_def])

section \<open>The interface of a source\<close>

locale sparse_source =
  fixes ops :: "'x source_ops" and src :: sources and whole :: "u8 list"
    and good :: "'x \<Rightarrow> bool" and rest :: "'x \<Rightarrow> u8 list"
  assumes short: "good x \<Longrightarrow> length (rest x) < 2 ^ 63"
    and read_law: "good x \<Longrightarrow> 0 < n \<Longrightarrow> n \<le> length (rest x) \<Longrightarrow>
      \<exists>x'. so_read ops n x = (0, take n (rest x), x') \<and> good x' \<and> rest x' = drop n (rest x)"
    and seek_law: "good x \<Longrightarrow> 0 < len \<Longrightarrow> unat len \<le> length (rest x) \<Longrightarrow>
      \<exists>x'. so_seek ops len x = (0, x') \<and> good x' \<and> rest x' = drop (unat len) (rest x)"
    and crc_law: "good x \<Longrightarrow> 0 < len \<Longrightarrow> unat len \<le> length (rest x) \<Longrightarrow>
      \<exists>x'. so_crc ops crc len x = (0, sparse_crc32 crc (take (unat len) (rest x)), x') \<and> good x' \<and>
        rest x' = drop (unat len) (rest x)"
    and add_law: "good x \<Longrightarrow> 0 < len \<Longrightarrow> unat len \<le> length (rest x) \<Longrightarrow>
      \<exists>d. so_add ops s len block x = bind_run (with_list s (queue_bb (sf_list s)
          \<lparr>bb_block = block, bb_len = len, bb_backing = d\<rparr>)) (\<lambda>s'. Inr (0, s')) \<and>
        backing_ok d len \<and> readable src d len \<and>
        (\<forall>i<unat len. backing_byte src d i = Some (rest x ! i))"
    and rewind_law: "good x \<Longrightarrow> \<exists>x'. so_rewind ops x = (0, x') \<and> good x' \<and> rest x' = whole"
begin

lemma read_value_ok:
  assumes "good (rs_source st)" "rest (rs_source st) = d @ tail" "0 < length d"
  shows "\<exists>x. read_value ops (length d) k st = k d (st\<lparr>rs_source := x\<rparr>) \<and> good x \<and> rest x = tail"
  using read_law[OF assms(1,3)] assms(2) by (auto simp: read_value_def)

lemma do_seek_ok:
  assumes "good (rs_source st)" "rest (rs_source st) = d @ tail" "unat len = length d" "0 < len"
  shows "\<exists>x. do_seek ops len st = Inr (0, st\<lparr>rs_source := x\<rparr>) \<and> good x \<and> rest x = tail"
  using seek_law[OF assms(1,4)] assms(2,3) by (auto simp: do_seek_def)

lemma do_crc_ok:
  assumes "good (rs_source st)" "rest (rs_source st) = d @ tail" "unat len = length d" "0 < len"
  shows "\<exists>x. do_crc ops c len st = Inr (0, st\<lparr>rs_source := x, rs_crc := Some (sparse_crc32 c d)\<rparr>) \<and> good x \<and> rest x = tail"
  using crc_law[OF assms(1,4), of c] assms(2,3) by (auto simp: do_crc_def)

text \<open>What a chunk does to the state of the reader.\<close>

definition took :: "u32 \<Rightarrow> nat \<Rightarrow> sparse_chunk \<Rightarrow> 'x read_state \<Rightarrow> u8 list \<Rightarrow> 'x read_state \<Rightarrow> bool" where
  "took w k c st tail st' \<longleftrightarrow> good (rs_source st') \<and> rest (rs_source st') = tail \<and>
     reading src w (k + chunk_blocks (unat w) c) (rs_file st') \<and>
     sf_len (rs_file st') = sf_len (rs_file st) \<and> sf_verbose (rs_file st') = sf_verbose (rs_file st) \<and>
     bbl_image src (sf_list (rs_file st')) = bbl_image src (sf_list (rs_file st)) ++ chunk_at (unat w) k c \<and>
     rs_crc st' = map_option (\<lambda>c0. sparse_crc32 c0 (chunk_expand (unat w) c)) (rs_crc st)"

lemma raw_chunk_ok:
  assumes st: "good (rs_source st)" "rest (rs_source st) = d @ tail" "reading src w k (rs_file st)"
    and d: "length d = n * unat w" "0 < n" "length d < 2 ^ 32"
    and fits: "k + n < 2 ^ 32" "(k + n) * unat w < 2 ^ 63"
  shows "\<exists>st'. process_raw_chunk ops (of_nat (length d)) (of_nat n) (of_nat k) st = Inr (0, st') \<and>
    took w k (Raw d) st tail st'"
proof -
  note w = readingD[OF st(3)]
  let ?len = "of_nat n * ucast w :: u64"
  have n32: "n < 2 ^ 32" "n * unat w < 2 ^ 63" using fits(1) d(1,3) by simp_all
  note mul = mul_int64_ok(1)[OF n32] and len = mul_int64_ok(2)[OF n32]
  have ud: "unat (of_nat (length d) :: u32) = length d" using d(3) by (intro unat_of_nat_small) simp
  have pos: "0 < ?len" using len d(2) w(2) by (simp add: word_less_nat_alt)
  have md: "(of_nat (length d) :: u32) mod w = 0"
  proof -
    have "unat ((of_nat (length d) :: u32) mod w) = 0" unfolding unat_mod ud by (simp add: d(1))
    then show ?thesis by (simp add: unat_eq_zero)
  qed
  have dv: "(of_nat (length d) :: u32) div w = of_nat n"
  proof -
    have "unat ((of_nat (length d) :: u32) div w) = n" unfolding unat_div ud using w(2) by (simp add: d(1))
    then show ?thesis using of_nat_unat_id[of "(of_nat (length d) :: u32) div w"] by simp
  qed
  have ll: "unat ?len \<le> length (rest (rs_source st))" using len d(1) st(2) by simp
  from add_law[OF st(1) pos ll, of "rs_file st" "of_nat k"] obtain b where
    b: "so_add ops (rs_file st) ?len (of_nat k) (rs_source st) = bind_run (with_list (rs_file st)
      (queue_bb (sf_list (rs_file st)) \<lparr>bb_block = of_nat k, bb_len = ?len, bb_backing = b\<rparr>)) (\<lambda>s'. Inr (0, s'))"
    "backing_ok b ?len" "readable src b ?len" "\<And>i. i < n * unat w \<Longrightarrow> backing_byte src b i = Some (d ! i)"
    using st(2) d(1) len by (auto simp: nth_append)
  have c: "chunk_blocks (unat w) (Raw d) = n" using d(1) w(2) by simp
  from add_chunk_block[OF st(3) d(2) fits len b(2,3), of "Raw d"] b(4) c obtain s' where
    s': "with_list (rs_file st) (queue_bb (sf_list (rs_file st))
      \<lparr>bb_block = of_nat k, bb_len = ?len, bb_backing = b\<rparr>) = Inr s'"
    "reading src w (k + n) s'" "sf_len s' = sf_len (rs_file st)" "sf_verbose s' = sf_verbose (rs_file st)"
    "bbl_image src (sf_list s') = bbl_image src (sf_list (rs_file st)) ++ chunk_at (unat w) k (Raw d)" by auto
  let ?st = "st\<lparr>rs_file := s'\<rparr>"
  have st': "good (rs_source ?st)" "rest (rs_source ?st) = d @ tail" using st by simp_all
  have ld: "unat ?len = length d" using len d(1) by simp
  have add: "do_add ops ?len (of_nat k) st = Inr (0, ?st)" by (simp add: do_add_def b(1) s'(1))
  have w0: "w \<noteq> 0" using w(1) by (simp add: word_neq_0_conv)
  show ?thesis
  proof (cases "rs_crc st")
    case None
    obtain x where x: "do_seek ops ?len ?st = Inr (0, ?st\<lparr>rs_source := x\<rparr>)" "good x" "rest x = tail"
      using do_seek_ok[OF st' ld pos] by auto
    show ?thesis using None x s' w0 w(4) md dv c
      by (intro exI[of _ "?st\<lparr>rs_source := x\<rparr>"])
        (simp add: process_raw_chunk_def with_len_def mul and_then_def add return_def took_def)
  next
    case (Some c0)
    obtain x where x: "do_crc ops c0 ?len ?st = Inr (0, ?st\<lparr>rs_source := x, rs_crc := Some (sparse_crc32 c0 d)\<rparr>)"
      "good x" "rest x = tail" using do_crc_ok[OF st' ld pos, of c0] by auto
    show ?thesis using Some x s' w0 w(4) md dv c
      by (intro exI[of _ "?st\<lparr>rs_source := x, rs_crc := Some (sparse_crc32 c0 d)\<rparr>"])
        (simp add: process_raw_chunk_def with_len_def mul and_then_def add return_def took_def)
  qed
qed

lemma copybuf_crc_ok:
  assumes "concat (map buf (pieces COPY_BUF_SIZE (unat len))) = d"
  shows "copybuf_crc buf len st = Inr (0, st\<lparr>rs_crc := map_option (\<lambda>c. sparse_crc32 c d) (rs_crc st)\<rparr>)"
proof -
  have "fold (\<lambda>n c. sparse_crc32 c (buf n)) ns c = sparse_crc32 c (concat (map buf ns))" for ns c
    by (induction ns arbitrary: c) (simp_all add: sparse_crc32_append)
  then show ?thesis by (simp add: copybuf_crc_def return_def assms split: option.splits)
qed

lemma fill_chunk_ok:
  assumes st: "good (rs_source st)" "rest (rs_source st) = enc32 v @ tail" "reading src w k (rs_file st)"
    and n: "0 < n" and fits: "k + n < 2 ^ 32" "(k + n) * unat w < 2 ^ 63"
  shows "\<exists>st'. process_fill_chunk ops 4 (of_nat n) (of_nat k) st = Inr (0, st') \<and> took w k (Fill v n) st tail st'"
proof -
  note w = readingD[OF st(3)]
  let ?len = "of_nat n * ucast w :: u64"
  have "n * unat w \<le> (k + n) * unat w" by (rule mult_le_mono1) simp
  then have n32: "n < 2 ^ 32" "n * unat w < 2 ^ 63" using fits by linarith+
  note mul = mul_int64_ok[OF n32]
  have pos: "0 < ?len" using mul(2) n w(2) by (simp add: word_less_nat_alt)
  have "backing_byte src (BB_FILL v) i = Some (chunk_expand (unat w) (Fill v n) ! i)" if "i < n * unat w" for i
    using that nth_fill_bytes[OF that, of v] by (simp add: byte_of_def)
  from add_chunk_block[OF st(3) n fits mul(2), of "BB_FILL v" "Fill v n", OF _ _ this] obtain s' where
    s': "with_list (rs_file st) (queue_bb (sf_list (rs_file st))
      \<lparr>bb_block = of_nat k, bb_len = ?len, bb_backing = BB_FILL v\<rparr>) = Inr s'"
    "reading src w (k + n) s'" "sf_len s' = sf_len (rs_file st)" "sf_verbose s' = sf_verbose (rs_file st)"
    "bbl_image src (sf_list s') = bbl_image src (sf_list (rs_file st)) ++ chunk_at (unat w) k (Fill v n)" by auto
  obtain x where x: "read_value ops 4 f st = f (enc32 v) (st\<lparr>rs_source := x\<rparr>)" "good x" "rest x = tail" for f
    using read_law[OF st(1), of 4] st(2) by (auto simp: read_value_def)
  have crc: "copybuf_crc (fill_bytes v) ?len st1 =
      Inr (0, st1\<lparr>rs_crc := map_option (\<lambda>c. sparse_crc32 c (fill_bytes v (n * unat w))) (rs_crc st1)\<rparr>)"
    for st1 :: "'x read_state"
    by (rule copybuf_crc_ok) (simp add: fill_pieces COPY_BUF_SIZE_def mul(2))
  show ?thesis using s' x(2,3)
    by (intro exI[of _ "st\<lparr>rs_source := x, rs_file := s',
        rs_crc := map_option (\<lambda>c. sparse_crc32 c (fill_bytes v (n * unat w))) (rs_crc st)\<rparr>"])
      (simp add: process_fill_chunk_def with_len_def w(4) mul(1) x(1) codec do_add_fill_def sparse_file_add_fill_def
        backed_block_add_fill_def and_then_def crc took_def)
qed

lemma skip_chunk_ok:
  assumes st: "good (rs_source st)" "rest (rs_source st) = tail" "reading src w k (rs_file st)"
    and fits: "k + n < 2 ^ 32" "(k + n) * unat w < 2 ^ 63"
  shows "\<exists>st'. process_skip_chunk 0 (of_nat n) st = Inr (0, st') \<and> took w k (DontCare n) st tail st'"
proof -
  note w = readingD[OF st(3)]
  have "n * unat w \<le> (k + n) * unat w" by (rule mult_le_mono1) simp
  then have n32: "n < 2 ^ 32" "n * unat w < 2 ^ 63" using fits by linarith+
  note mul = mul_int64_ok[OF n32]
  have crc: "copybuf_crc (\<lambda>n. replicate n 0) (of_nat n * ucast w) st =
      Inr (0, st\<lparr>rs_crc := map_option (\<lambda>c. sparse_crc32 c (replicate (n * unat w) 0)) (rs_crc st)\<rparr>)"
  proof (rule copybuf_crc_ok)
    have "concat (map (\<lambda>k. replicate k (0 :: u8)) ks) = replicate (sum_list ks) 0" for ks
      by (induction ks) (simp_all add: replicate_add)
    then show "concat (map (\<lambda>k. replicate k 0) (pieces COPY_BUF_SIZE (unat (of_nat n * ucast w :: u64)))) =
        replicate (n * unat w) (0 :: u8)"
      by (simp add: sum_list_pieces COPY_BUF_SIZE_def mul(2))
  qed
  show ?thesis
  proof (cases "rs_crc st")
    case None
    with st reading_mono[OF st(3), of "k + n"] show ?thesis
      by (simp add: process_skip_chunk_def return_def took_def)
  next
    case (Some c)
    with st reading_mono[OF st(3), of "k + n"] show ?thesis
      by (simp add: process_skip_chunk_def with_len_def w(4) mul(1) crc took_def)
  qed
qed

text \<open>One round of the loop: the header of a chunk, then the chunk.\<close>

definition read_chunk :: "u32 \<Rightarrow> 'x rstep" where
  "read_chunk cur_block = read_value ops CHUNK_HEADER_LEN (\<lambda>d.
     and_then (return 0) (process_chunk ops (of_nat CHUNK_HEADER_LEN) (dec_chunk_header d) cur_block))"

lemma read_header_ok:
  assumes "good (rs_source st)" "rest (rs_source st) = chunk_image ty sz total_sz @ tail"
  shows "\<exists>x. read_chunk cur st = process_chunk ops (of_nat CHUNK_HEADER_LEN)
      \<lparr>ch_chunk_type = ty, ch_reserved1 = 0, ch_chunk_sz = sz, ch_total_sz = total_sz\<rparr> cur (st\<lparr>rs_source := x\<rparr>) \<and>
    good x \<and> rest x = tail"
proof -
  have l: "length (chunk_image ty sz total_sz) = CHUNK_HEADER_LEN"
    by (simp add: chunk_image_def chunk_hdr.length_image)
  have "0 < length (chunk_image ty sz total_sz)" unfolding l by (simp add: CHUNK_HEADER_LEN_def)
  from read_value_ok[OF assms this, unfolded l, of "\<lambda>d. and_then (return 0)
      (process_chunk ops (of_nat CHUNK_HEADER_LEN) (dec_chunk_header d) cur)"]
  show ?thesis
    by (auto simp: read_chunk_def and_then_def return_def chunk_image_def chunk_hdr.dec_image)
qed

lemma chunk_ok:
  assumes st: "good (rs_source st)" "rest (rs_source st) = chunk_bytes (unat w) c @ tail" "reading src w k (rs_file st)"
    and c: "chunk_proper (unat w) c" and n: "n = chunk_blocks (unat w) c"
    and fits: "k + n < 2 ^ 32" "(k + n) * unat w < 2 ^ 63"
  shows "\<exists>st'. read_chunk (of_nat k) st = Inr (int n, st') \<and> took w k c st tail st'"
proof (cases c)
  case (Raw d)
  note w = readingD[OF st(3)]
  have d: "length d = n * unat w" "0 < n" "length d < 2 ^ 32" "n < 2 ^ 31"
    using c n Raw div_mult_mod_eq[of "length d" "unat w"] by (simp_all add: chunk_proper_def chunk_wf_def)
  have dn: "length d div unat w = n" using n Raw by simp
  obtain x where x: "read_chunk (of_nat k) st = process_chunk ops (of_nat CHUNK_HEADER_LEN)
      \<lparr>ch_chunk_type = CHUNK_TYPE_RAW, ch_reserved1 = 0, ch_chunk_sz = of_nat n,
       ch_total_sz = of_nat (CHUNK_HEADER_LEN + length d)\<rparr> (of_nat k) (st\<lparr>rs_source := x\<rparr>)" "good x" "rest x = d @ tail"
    using read_header_ok[OF st(1), of CHUNK_TYPE_RAW "of_nat n" "of_nat (CHUNK_HEADER_LEN + length d)" "d @ tail"] st(2) Raw dn
    by auto
  have g: "good (rs_source (st\<lparr>rs_source := x\<rparr>))" "rest (rs_source (st\<lparr>rs_source := x\<rparr>)) = d @ tail"
    "reading src w k (rs_file (st\<lparr>rs_source := x\<rparr>))" using x st by simp_all
  from raw_chunk_ok[OF g d(1-3) fits] obtain st' where
    "process_raw_chunk ops (of_nat (length d)) (of_nat n) (of_nat k) (st\<lparr>rs_source := x\<rparr>) = Inr (0, st')"
    "took w k (Raw d) (st\<lparr>rs_source := x\<rparr>) tail st'" by blast
  then show ?thesis using d(4) Raw
    by (auto simp: x(1) process_chunk_def and_then_def return_def sint_u32_small took_def)
next
  case (Fill v m)
  have m: "m = n" "0 < n" "n < 2 ^ 31" using c n Fill by (simp_all add: chunk_proper_def)
  obtain x where x: "read_chunk (of_nat k) st = process_chunk ops (of_nat CHUNK_HEADER_LEN)
      \<lparr>ch_chunk_type = CHUNK_TYPE_FILL, ch_reserved1 = 0, ch_chunk_sz = of_nat n,
       ch_total_sz = of_nat (CHUNK_HEADER_LEN + 4)\<rparr> (of_nat k) (st\<lparr>rs_source := x\<rparr>)" "good x" "rest x = enc32 v @ tail"
    using read_header_ok[OF st(1), of CHUNK_TYPE_FILL "of_nat n" "of_nat (CHUNK_HEADER_LEN + 4)" "enc32 v @ tail"] st(2) Fill m
    by auto
  have g: "good (rs_source (st\<lparr>rs_source := x\<rparr>))" "rest (rs_source (st\<lparr>rs_source := x\<rparr>)) = enc32 v @ tail"
    "reading src w k (rs_file (st\<lparr>rs_source := x\<rparr>))" using x st by simp_all
  from fill_chunk_ok[OF g m(2) fits] obtain st' where
    "process_fill_chunk ops 4 (of_nat n) (of_nat k) (st\<lparr>rs_source := x\<rparr>) = Inr (0, st')"
    "took w k (Fill v n) (st\<lparr>rs_source := x\<rparr>) tail st'" by blast
  then show ?thesis using m Fill
    by (auto simp: x(1) process_chunk_def and_then_def return_def sint_u32_small took_def chunk_type_defs)
next
  case (DontCare m)
  have m: "m = n" "n < 2 ^ 31" using c n DontCare by (simp_all add: chunk_proper_def)
  obtain x where x: "read_chunk (of_nat k) st = process_chunk ops (of_nat CHUNK_HEADER_LEN)
      \<lparr>ch_chunk_type = CHUNK_TYPE_DONT_CARE, ch_reserved1 = 0, ch_chunk_sz = of_nat n,
       ch_total_sz = of_nat CHUNK_HEADER_LEN\<rparr> (of_nat k) (st\<lparr>rs_source := x\<rparr>)" "good x" "rest x = tail"
    using read_header_ok[OF st(1), of CHUNK_TYPE_DONT_CARE "of_nat n" "of_nat CHUNK_HEADER_LEN" tail] st(2) DontCare m
    by auto
  have g: "good (rs_source (st\<lparr>rs_source := x\<rparr>))" "rest (rs_source (st\<lparr>rs_source := x\<rparr>)) = tail"
    "reading src w k (rs_file (st\<lparr>rs_source := x\<rparr>))" using x st by simp_all
  from skip_chunk_ok[OF g fits] obtain st' where
    "process_skip_chunk 0 (of_nat n) (st\<lparr>rs_source := x\<rparr>) = Inr (0, st')"
    "took w k (DontCare n) (st\<lparr>rs_source := x\<rparr>) tail st'" by blast
  then show ?thesis using m DontCare
    by (auto simp: x(1) process_chunk_def and_then_def return_def sint_u32_small took_def chunk_type_defs)
qed

section \<open>Reading a chunk list\<close>

lemma read_chunks_Suc:
  "read_chunks ops (of_nat CHUNK_HEADER_LEN) (Suc n) cur st = bind_run (read_chunk cur st) (\<lambda>(ret, st').
     if ret < 0 then Inr (ret, cur, st')
     else read_chunks ops (of_nat CHUNK_HEADER_LEN) n (cur + word_of_int ret) st')"
proof -
  have "unat (of_nat CHUNK_HEADER_LEN :: u16) = CHUNK_HEADER_LEN"
    "(ucast (of_nat CHUNK_HEADER_LEN :: u16) :: u32) = of_nat CHUNK_HEADER_LEN"
    by (simp_all add: CHUNK_HEADER_LEN_def)
  then show ?thesis by (simp add: read_chunk_def)
qed

definition took_all :: "u32 \<Rightarrow> nat \<Rightarrow> sparse_chunk list \<Rightarrow> 'x read_state \<Rightarrow> u8 list \<Rightarrow> 'x read_state \<Rightarrow> bool" where
  "took_all w k cs st tail st' \<longleftrightarrow> good (rs_source st') \<and> rest (rs_source st') = tail \<and>
     reading src w (k + total_blocks (unat w) cs) (rs_file st') \<and>
     sf_len (rs_file st') = sf_len (rs_file st) \<and> sf_verbose (rs_file st') = sf_verbose (rs_file st) \<and>
     bbl_image src (sf_list (rs_file st')) = bbl_image src (sf_list (rs_file st)) ++ chunks_map (unat w) k cs \<and>
     rs_crc st' = map_option (\<lambda>c0. sparse_crc32 c0 (concat (map (chunk_expand (unat w)) cs))) (rs_crc st)"

lemma chunks_ok:
  assumes "good (rs_source st)" "rest (rs_source st) = concat (map (chunk_bytes (unat w)) cs) @ tail"
    and "reading src w k (rs_file st)" "\<forall>c\<in>set cs. chunk_proper (unat w) c"
    and "k + total_blocks (unat w) cs < 2 ^ 32" "(k + total_blocks (unat w) cs) * unat w < 2 ^ 63"
  shows "\<exists>st'. read_chunks ops (of_nat CHUNK_HEADER_LEN) (length cs + m) (of_nat k) st =
      read_chunks ops (of_nat CHUNK_HEADER_LEN) m (of_nat (k + total_blocks (unat w) cs)) st' \<and>
    took_all w k cs st tail st'"
  using assms
proof (induction cs arbitrary: k st)
  case Nil
  then show ?case by (intro exI[of _ st]) (simp add: took_all_def option.map_ident)
next
  case (Cons c cs)
  let ?n = "chunk_blocks (unat w) c"
  have le: "(k + ?n) * unat w \<le> (k + total_blocks (unat w) (c # cs)) * unat w" by (rule mult_le_mono1) simp
  have fits: "k + ?n < 2 ^ 32" "(k + ?n) * unat w < 2 ^ 63"
    using Cons.prems(5) le_less_trans[OF le Cons.prems(6)] by simp_all
  obtain st1 where st1: "read_chunk (of_nat k) st = Inr (int ?n, st1)"
    "took w k c st (concat (map (chunk_bytes (unat w)) cs) @ tail) st1"
    using chunk_ok[OF Cons.prems(1) _ Cons.prems(3) _ refl fits, of "concat (map (chunk_bytes (unat w)) cs) @ tail"]
      Cons.prems(2,4) by auto
  have step: "read_chunks ops (of_nat CHUNK_HEADER_LEN) (length (c # cs) + m) (of_nat k) st =
      read_chunks ops (of_nat CHUNK_HEADER_LEN) (length cs + m) (of_nat (k + ?n)) st1"
    using st1(1) by (simp add: read_chunks_Suc del: read_chunks.simps)
  from Cons.IH[of st1 "k + ?n"] st1(2) Cons.prems(4-6) obtain st' where
    st': "read_chunks ops (of_nat CHUNK_HEADER_LEN) (length cs + m) (of_nat (k + ?n)) st1 =
      read_chunks ops (of_nat CHUNK_HEADER_LEN) m (of_nat (k + ?n + total_blocks (unat w) cs)) st'"
    "took_all w (k + ?n) cs st1 tail st'" by (auto simp: took_def add.assoc)
  have "dom (chunks_map (unat w) (k + ?n) cs) \<inter> dom (chunk_at (unat w) k c) = {}"
    using chunks_map_dom[of "unat w" "k + ?n" cs] chunk_at_dom[of "unat w" k c] by fastforce
  then have "chunk_at (unat w) k c ++ chunks_map (unat w) (k + ?n) cs = chunks_map (unat w) k (c # cs)"
    by (simp add: map_add_comm)
  then have "took_all w k (c # cs) st tail st'" using st1(2) st'(2)
    by (simp add: took_all_def took_def add.assoc option.map_comp comp_def sparse_crc32_append
        flip: map_add_assoc)
  then show ?case using step st'(1) by (auto simp: add.assoc)
qed

lemma crc_chunk_ok:
  assumes "good (rs_source st)" "rest (rs_source st) = crc_chunk_bytes c @ tail"
    and "rs_crc st = None \<or> rs_crc st = Some c"
  shows "\<exists>x. read_chunk cur st = Inr (0, st\<lparr>rs_source := x\<rparr>) \<and> good x \<and> rest x = tail"
proof -
  obtain x where x: "read_chunk cur st = process_chunk ops (of_nat CHUNK_HEADER_LEN)
      \<lparr>ch_chunk_type = CHUNK_TYPE_CRC32, ch_reserved1 = 0, ch_chunk_sz = 0,
       ch_total_sz = of_nat (CHUNK_HEADER_LEN + 4)\<rparr> cur (st\<lparr>rs_source := x\<rparr>)" "good x" "rest x = enc32 c @ tail"
    using read_header_ok[OF assms(1), of CHUNK_TYPE_CRC32 0 "of_nat (CHUNK_HEADER_LEN + 4)" "enc32 c @ tail"] assms(2)
    by (auto simp: crc_chunk_bytes_def)
  obtain y where y: "so_read ops 4 x = (0, enc32 c, y)" "good y" "rest y = tail"
    using read_law[OF x(2), of 4] x(3) by auto
  show ?thesis using assms(3) y x(1)
    by (intro exI[of _ y]) (auto simp: process_chunk_def chunk_type_defs process_crc32_chunk_def read_value_def codec
        and_then_def return_def)
qed

section \<open>Reading an image\<close>

lemma read_sparse_ok:
  assumes x: "good x" "rest x = image_bytes w cs wcrc" and s: "reading src w 0 s"
    and cs: "\<forall>c\<in>set cs. chunk_proper (unat w) c" "length cs < 2 ^ 32 - 1"
    and fits: "total_blocks (unat w) cs < 2 ^ 32" "total_blocks (unat w) cs * unat w < 2 ^ 63"
    and crc: "rcrc \<Longrightarrow> wcrc \<noteq> None \<Longrightarrow> wcrc = Some (sparse_crc32 0 (concat (map (chunk_expand (unat w)) cs)))"
  shows "\<exists>st'. sparse_file_read_sparse ops s x rcrc = Inr (0, st') \<and> rest (rs_source st') = [] \<and>
    good (rs_source st') \<and> reading src w (total_blocks (unat w) cs) (rs_file st') \<and>
    sf_len (rs_file st') = sf_len s \<and> sf_verbose (rs_file st') = sf_verbose s \<and>
    bbl_image src (sf_list (rs_file st')) = bbl_image src (sf_list s) ++ chunks_map (unat w) 0 cs"
proof -
  let ?n = "total_blocks (unat w) cs"
  define h where "h = sparse_header_of w (of_nat ?n) (of_nat (length cs)) (wcrc \<noteq> None)"
  define c0 where "c0 = (if rcrc then Some (0 :: u32) else None)"
  define m where "m = (if wcrc \<noteq> None then Suc 0 else 0)"
  let ?hs = "of_nat CHUNK_HEADER_LEN :: u16"
  let ?tail = "case wcrc of None \<Rightarrow> [] | Some c \<Rightarrow> crc_chunk_bytes c"
  let ?st0 = "\<lparr>rs_file = s, rs_source = x, rs_crc = c0\<rparr>"
  note hd = image_header[OF cs(2), of w "wcrc \<noteq> None", folded h_def]
  have total: "unat (sh_total_chunks h) = length cs + m" by (simp add: hd(4) m_def)
  obtain x1 where x1: "so_read ops SPARSE_HEADER_LEN x = (0, enc_sparse_header h, x1)" "good x1"
      "rest x1 = concat (map (chunk_bytes (unat w)) cs) @ ?tail"
    using read_law[OF x(1), of SPARSE_HEADER_LEN] hd(6) x(2) by (auto simp: image_bytes_def SPARSE_HEADER_LEN_def h_def)
  let ?st1 = "?st0\<lparr>rs_source := x1\<rparr>"
  obtain st2 where st2: "read_chunks ops ?hs (length cs + m) 0 ?st1 = read_chunks ops ?hs m (of_nat ?n) st2"
    "took_all w 0 cs ?st1 ?tail st2"
    using chunks_ok[of ?st1 w cs ?tail 0 m] x1 s cs(1) fits by auto
  have crc2: "rs_crc st2 = None \<or> rs_crc st2 = wcrc" if "wcrc \<noteq> None"
    using st2(2) crc that by (cases rcrc) (auto simp: took_all_def c0_def)
  have "\<exists>st3. read_chunks ops ?hs m (of_nat ?n) st2 = Inr (0, of_nat ?n, st3) \<and> took_all w 0 cs ?st1 [] st3"
  proof (cases wcrc)
    case None
    with st2(2) show ?thesis by (simp add: m_def)
  next
    case (Some c)
    obtain y where y: "read_chunk (of_nat ?n) st2 = Inr (0, st2\<lparr>rs_source := y\<rparr>)" "good y" "rest y = []"
      using crc_chunk_ok[of st2 c "[]"] st2(2) crc2 Some by (auto simp: took_all_def)
    have "took_all w 0 cs ?st1 [] (st2\<lparr>rs_source := y\<rparr>)" using st2(2) y by (simp add: took_all_def)
    then show ?thesis using y Some by (intro exI[of _ "st2\<lparr>rs_source := y\<rparr>"])
      (simp add: m_def read_chunks_Suc del: read_chunks.simps(2))
  qed
  then obtain st3 where st3: "read_chunks ops ?hs (length cs + m) 0 ?st1 = Inr (0, of_nat ?n, st3)"
    "took_all w 0 cs ?st1 [] st3" using st2(1) by auto
  have "sh_total_blks h = of_nat ?n" by (simp add: h_def sparse_header_of_def)
  then have "sparse_file_read_sparse ops s x rcrc = Inr (0, st3)"
    using st3(1) hd(1-3,5) x1(1) total unfolding sparse_file_read_sparse_def c0_def[symmetric]
    by (simp add: read_value_def Let_def and_then_def return_def)
  with st3(2) show ?thesis by (simp add: took_all_def)
qed

lemma import_ok:
  assumes x: "good x" "rest x = image_bytes w cs wcrc" "whole = image_bytes w cs wcrc"
    and w: "0 < w" "unat w mod 4 = 0"
    and cs: "\<forall>c\<in>set cs. chunk_proper (unat w) c" "length cs < 2 ^ 32 - 1" "0 < total_blocks (unat w) cs"
    and fits: "total_blocks (unat w) cs < 2 ^ 32" "total_blocks (unat w) cs * unat w < 2 ^ 63"
    and crc: "rcrc \<Longrightarrow> wcrc \<noteq> None \<Longrightarrow> wcrc = Some (sparse_crc32 0 (concat (map (chunk_expand (unat w)) cs)))"
  shows "\<exists>s x'. sparse_file_import_source ops x verbose rcrc = Inr (Some s, x') \<and> good x' \<and>
    reading src w (total_blocks (unat w) cs) s \<and> unat (sf_len s) = total_blocks (unat w) cs * unat w \<and>
    sf_verbose s = verbose \<and> bbl_image src (sf_list s) = chunks_map (unat w) 0 cs"
proof -
  let ?n = "total_blocks (unat w) cs"
  define h where "h = sparse_header_of w (of_nat ?n) (of_nat (length cs)) (wcrc \<noteq> None)"
  note hd = image_header[OF cs(2), of w "wcrc \<noteq> None", folded h_def]
  have h: "sh_blk_sz h = w" "sh_total_blks h = of_nat ?n" by (simp_all add: h_def sparse_header_of_def)
  have "unat (of_nat ?n :: u32) = ?n" using fits(1) by (intro unat_of_nat_small) simp
  then have n0: "(of_nat ?n :: u32) \<noteq> 0" using cs(3) by (metis unat_0 less_irrefl)
  note mul = mul_int64_ok[OF fits]
  obtain x1 where x1: "so_read ops SPARSE_HEADER_LEN x = (0, enc_sparse_header h, x1)" "good x1"
    using read_law[OF x(1), of SPARSE_HEADER_LEN] hd(6) x(2) by (auto simp: image_bytes_def SPARSE_HEADER_LEN_def h_def)
  obtain x2 where x2: "so_rewind ops x1 = (0, x2)" "good x2" "rest x2 = image_bytes w cs wcrc"
    using rewind_law[OF x1(2)] x(3) by auto
  let ?s = "(sparse_file_new w (of_nat ?n * ucast w))\<lparr>sf_verbose := verbose\<rparr>"
  obtain st where st: "sparse_file_read_sparse ops ?s x2 rcrc = Inr (0, st)" "good (rs_source st)"
    "reading src w ?n (rs_file st)" "sf_len (rs_file st) = sf_len ?s" "sf_verbose (rs_file st) = sf_verbose ?s"
    "bbl_image src (sf_list (rs_file st)) = bbl_image src (sf_list ?s) ++ chunks_map (unat w) 0 cs"
    using read_sparse_ok[OF x2(2,3) reading_new(1)[OF w] cs(1,2) fits crc] by blast
  have "sparse_file_import_source ops x verbose rcrc = Inr (Some (rs_file st), rs_source st)"
    using x1(1) x2(1) st(1) hd(1,5) h n0 w mul(1)
    by (simp add: sparse_file_import_source_def Let_def word_neq_0_conv)
  moreover have "sf_len ?s = of_nat ?n * ucast w" "sf_verbose ?s = verbose"
    by (simp_all add: sparse_file_new_def)
  ultimately show ?thesis using st reading_new(2)[OF w] mul(2)
    by (intro exI[of _ "rs_file st"] exI[of _ "rs_source st"]) simp
qed

end

section \<open>The sources keep the interface\<close>

definition buf_good :: "u8 list \<Rightarrow> buf_state \<Rightarrow> bool" where
  "buf_good whole x \<longleftrightarrow> bs_bytes x = whole \<and> bs_offset x \<le> length whole \<and> length whole < 2 ^ 63"

definition buf_rest :: "buf_state \<Rightarrow> u8 list" where
  "buf_rest x = drop (bs_offset x) (bs_bytes x)"

lemma access_ok:
  assumes "buf_good whole x" "0 < n" "n \<le> length (buf_rest x)"
  shows "AccessOkay (int n) x = 0" "bs_offset x + n \<le> length whole"
  using assms by (auto simp: AccessOkay_def buf_good_def buf_rest_def)

lemma access_ok_word:
  fixes len :: u64
  assumes "buf_good whole x" "0 < len" "unat len \<le> length (buf_rest x)"
  shows "AccessOkay (sint len) x = 0" "bs_offset x + unat len \<le> length whole"
proof -
  have "0 < unat len" using assms(2) by (simp add: word_less_nat_alt)
  note a = access_ok[OF assms(1) this assms(3)]
  have "unat len < 2 ^ 63" using a(2) assms(1) by (simp add: buf_good_def)
  from sint_small[OF this] a show "AccessOkay (sint len) x = 0" "bs_offset x + unat len \<le> length whole" by metis+
qed

interpretation buf: sparse_source buf_source src whole "buf_good whole" buf_rest for src whole
proof
  fix x n
  assume x: "buf_good whole x" "0 < n" "n \<le> length (buf_rest x)"
  note a = access_ok[OF x]
  show "\<exists>x'. so_read buf_source n x = (0, take n (buf_rest x), x') \<and> buf_good whole x' \<and>
      buf_rest x' = drop n (buf_rest x)"
    using x a by (simp add: buf_source_def buf_read_def buf_good_def buf_rest_def bytes_at_def add.commute)
next
  fix x and len :: u64
  assume x: "buf_good whole x" "0 < len" "unat len \<le> length (buf_rest x)"
  note a = access_ok_word[OF x]
  show "\<exists>x'. so_seek buf_source len x = (0, x') \<and> buf_good whole x' \<and> buf_rest x' = drop (unat len) (buf_rest x)"
    using x a by (simp add: buf_source_def buf_seek_def buf_good_def buf_rest_def add.commute)
  show "\<exists>x'. so_crc buf_source crc len x = (0, sparse_crc32 crc (take (unat len) (buf_rest x)), x') \<and>
      buf_good whole x' \<and> buf_rest x' = drop (unat len) (buf_rest x)" for crc
    using x a by (simp add: buf_source_def buf_crc_def buf_good_def buf_rest_def bytes_at_def add.commute)
  show "\<exists>d. so_add buf_source s len block x = bind_run (with_list s (queue_bb (sf_list s)
        \<lparr>bb_block = block, bb_len = len, bb_backing = d\<rparr>)) (\<lambda>s'. Inr (0, s')) \<and>
      backing_ok d len \<and> readable src d len \<and> (\<forall>i<unat len. backing_byte src d i = Some (buf_rest x ! i))"
    for s block
    using x a by (intro exI[of _ "BB_DATA (buf_rest x)"])
      (simp add: buf_source_def buf_add_def buf_rest_def sparse_file_add_data_def backed_block_add_data_def byte_of_def)
qed (simp_all add: buf_good_def buf_rest_def buf_source_def buf_rewind_def less_imp_diff_less)

subsection \<open>A descriptor\<close>

text \<open>A file on which no read fails; how much a single call returns does not matter.\<close>

definition fd_good :: "sources \<Rightarrow> u8 list \<Rightarrow> fd_state \<Rightarrow> bool" where
  "fd_good src whole x \<longleftrightarrow> src_fd src (rd_fd x) = whole \<and> rd_bytes x = whole \<and> rd_pos x \<le> length whole \<and>
     length whole < 2 ^ 63 \<and> (\<forall>e. ReadFailed e \<notin> set (rd_script x))"

definition fd_rest :: "fd_state \<Rightarrow> u8 list" where
  "fd_rest x = drop (rd_pos x) (rd_bytes x)"

lemma read_loop_ok:
  assumes "\<forall>e. ReadFailed e \<notin> set rs" "want \<le> length (rd_bytes s) - rd_pos s" "rd_pos s \<le> length (rd_bytes s)"
  shows "\<exists>rs'. read_loop rs want acc s = (0, acc @ bytes_at (rd_pos s) want (rd_bytes s),
      s\<lparr>rd_pos := rd_pos s + want, rd_script := rs'\<rparr>) \<and> (\<forall>e. ReadFailed e \<notin> set rs')"
  using assms
proof (induction rs want acc s rule: read_loop.induct)
  case (1 want acc s)
  then show ?case by (intro exI[of _ "[]"]) (simp add: take_bytes_def Let_def)
next
  case (2 r rs want acc s)
  show ?case
  proof (cases "want = 0")
    case True
    with 2 show ?thesis by (intro exI[of _ "r # rs"]) (simp add: bytes_at_def)
  next
    case False
    obtain n where r: "r = ReadUpTo n" using "2.prems"(1) by (cases r) auto
    define k where "k = min (max 1 n) (min want (length (rd_bytes s) - rd_pos s))"
    have k: "k \<noteq> 0" "k \<le> want" using False "2.prems"(2) by (simp_all add: k_def)
    let ?s = "s\<lparr>rd_pos := rd_pos s + k\<rparr>"
    have tb: "take_bytes k s = (bytes_at (rd_pos s) k (rd_bytes s), ?s)" by (simp add: take_bytes_def)
    have "want - k \<le> length (rd_bytes ?s) - rd_pos ?s" "rd_pos ?s \<le> length (rd_bytes ?s)"
      using "2.prems"(2,3) k(2) by simp_all
    from "2.IH"[OF False r k_def k(1) tb[symmetric] refl _ this] "2.prems"(1) obtain rs' where
      rs': "read_loop rs (want - k) (acc @ bytes_at (rd_pos s) k (rd_bytes s)) ?s =
        (0, (acc @ bytes_at (rd_pos s) k (rd_bytes s)) @ bytes_at (rd_pos ?s) (want - k) (rd_bytes ?s),
         ?s\<lparr>rd_pos := rd_pos ?s + (want - k), rd_script := rs'\<rparr>)" "\<forall>e. ReadFailed e \<notin> set rs'" by auto
    have "bytes_at (rd_pos s) k (rd_bytes s) @ bytes_at (rd_pos s + k) (want - k) (rd_bytes s) =
        bytes_at (rd_pos s) want (rd_bytes s)"
      using bytes_at_append[of "rd_pos s" k "rd_bytes s" "want - k"] k(2) by simp
    moreover have "rd_pos s + k + (want - k) = rd_pos s + want" using k(2) by simp
    ultimately have "read_loop (r # rs) want acc s = (0, acc @ bytes_at (rd_pos s) want (rd_bytes s),
        s\<lparr>rd_pos := rd_pos s + want, rd_script := rs'\<rparr>)"
      using False k(1) rs'(1) tb unfolding r read_loop.simps read_result.case Let_def k_def[symmetric] by simp
    with rs'(2) show ?thesis by blast
  qed
qed

lemma read_all_ok:
  assumes "fd_good src whole x" "n \<le> length (fd_rest x)"
  shows "\<exists>x'. read_all n x = (0, take n (fd_rest x), x') \<and> fd_good src whole x' \<and> fd_rest x' = drop n (fd_rest x) \<and>
    rd_fd x' = rd_fd x \<and> rd_pos x' = rd_pos x + n"
proof -
  obtain rs' where "read_all n x = (0, bytes_at (rd_pos x) n (rd_bytes x), x\<lparr>rd_pos := rd_pos x + n, rd_script := rs'\<rparr>)"
    "\<forall>e. ReadFailed e \<notin> set rs'"
    using read_loop_ok[of "rd_script x" n x "[]"] assms by (auto simp: fd_good_def fd_rest_def read_all_def)
  moreover have "rd_pos x + n \<le> length whole" using assms by (auto simp: fd_good_def fd_rest_def)
  ultimately show ?thesis using assms(1) by (simp add: fd_good_def fd_rest_def bytes_at_def add.commute)
qed

lemma fd_crc_loop_ok:
  assumes "fd_good src whole x" "sum_list ns \<le> length (fd_rest x)"
  shows "\<exists>x'. fd_crc_loop ns crc x = (0, sparse_crc32 crc (take (sum_list ns) (fd_rest x)), x') \<and>
    fd_good src whole x' \<and> fd_rest x' = drop (sum_list ns) (fd_rest x)"
  using assms
proof (induction ns arbitrary: crc x)
  case (Cons n ns)
  obtain x1 where x1: "read_all n x = (0, take n (fd_rest x), x1)" "fd_good src whole x1" "fd_rest x1 = drop n (fd_rest x)"
    using read_all_ok[OF Cons.prems(1), of n] Cons.prems(2) by auto
  with Cons.IH[OF x1(2), of "sparse_crc32 crc (take n (fd_rest x))"] Cons.prems(2) show ?case
    by (auto simp: take_add sparse_crc32_append add.commute)
qed simp

interpretation fd: sparse_source fd_source src whole "fd_good src whole" fd_rest for src whole
proof
  fix x n
  assume "fd_good src whole x" "0 < n" "n \<le> length (fd_rest x)"
  from read_all_ok[OF this(1,3)]
  show "\<exists>x'. so_read fd_source n x = (0, take n (fd_rest x), x') \<and> fd_good src whole x' \<and> fd_rest x' = drop n (fd_rest x)"
    by (auto simp: fd_source_def)
next
  fix x and len :: u64
  assume x: "fd_good src whole x" "0 < len" "unat len \<le> length (fd_rest x)"
  have l: "rd_pos x + unat len \<le> length whole" using x by (auto simp: fd_good_def fd_rest_def)
  then have "unat len < 2 ^ 63" using x(1) by (simp add: fd_good_def)
  then have "int (rd_pos x) + sint len = int (rd_pos x + unat len)" using sint_small[of len] by linarith
  then have "fd_seek len x = (0, x\<lparr>rd_pos := rd_pos x + unat len\<rparr>)"
    by (simp only: fd_seek_def Let_def nat_int of_nat_less_0_iff if_False)
  with x l show "\<exists>x'. so_seek fd_source len x = (0, x') \<and> fd_good src whole x' \<and> fd_rest x' = drop (unat len) (fd_rest x)"
    by (simp add: fd_source_def fd_good_def fd_rest_def add.commute)
  have "sum_list (pieces COPY_BUF_SIZE (unat len)) = unat len" by (simp add: sum_list_pieces COPY_BUF_SIZE_def)
  with fd_crc_loop_ok[OF x(1), of "pieces COPY_BUF_SIZE (unat len)"] x(3)
  show "\<exists>x'. so_crc fd_source crc len x = (0, sparse_crc32 crc (take (unat len) (fd_rest x)), x') \<and>
      fd_good src whole x' \<and> fd_rest x' = drop (unat len) (fd_rest x)" for crc
    by (simp add: fd_source_def fd_crc_def)
  have "rd_pos x < 2 ^ 64" using l x(1) by (simp add: fd_good_def)
  then have u: "unat (of_nat (rd_pos x) :: u64) = rd_pos x" by (intro unat_of_nat_small) simp
  show "\<exists>d. so_add fd_source s len block x = bind_run (with_list s (queue_bb (sf_list s)
        \<lparr>bb_block = block, bb_len = len, bb_backing = d\<rparr>)) (\<lambda>s'. Inr (0, s')) \<and>
      backing_ok d len \<and> readable src d len \<and> (\<forall>i<unat len. backing_byte src d i = Some (fd_rest x ! i))"
    for s block
    using x l by (intro exI[of _ "BB_FD (rd_fd x) (of_nat (rd_pos x))"])
      (simp add: fd_source_def fd_add_def sparse_file_add_fd_def backed_block_add_fd_def u fd_good_def fd_rest_def byte_of_def)
qed (auto simp: fd_good_def fd_rest_def fd_source_def fd_rewind_def)

end
