(* ===== verification/SpRoundtrip.thy ===== *)
theory SpRoundtrip imports SpReadInv begin

text \<open>
  Writing and reading together: the image that \<open>sparse_file_write\<close> leaves on a descriptor is accepted
  by \<open>sparse_file_import\<close>, the imported file has the bytes of the original, and expanding it gives
  what expanding the original gives.
\<close>

section \<open>The image of a written file\<close>

lemma split_limit_props:
  assumes "0 < w" "w \<le> MAX_BACKED_BLOCK_SIZE"
  shows "unat (split_limit w) mod unat w = 0" "unat (split_limit w) \<le> 64 * 1024 * 1024"
proof -
  note ad = align_down_props[OF assms(2,1)]
  show "unat (split_limit w) mod unat w = 0" using ad(2) by (simp add: split_limit_def)
  have "unat (split_limit w) \<le> unat MAX_BACKED_BLOCK_SIZE"
    using ad(3) by (simp add: split_limit_def word_le_nat_alt)
  then show "unat (split_limit w) \<le> 64 * 1024 * 1024" by (simp add: MAX_BACKED_BLOCK_SIZE_def)
qed

lemma div_up_mono: "m \<le> n \<Longrightarrow> div_up m k \<le> div_up n k"
  by (simp add: div_up_def div_le_mono)

text \<open>A file whose blocks have been split, with fewer than \<open>2 ^ 31\<close> blocks: its chunks can be read.\<close>

lemma set_block_chunks:
  "c \<in> set (block_chunks src bs k blocks n) \<Longrightarrow>
    (\<exists>b\<in>set blocks. c = block_chunk src bs b) \<or> (\<exists>m>0. c = DontCare m)"
  by (induction blocks arbitrary: k) (auto simp: gap_chunk_def split: if_splits)

lemma chunk_blocks_le_total: "c \<in> set cs \<Longrightarrow> chunk_blocks bs c \<le> total_blocks bs cs"
  by (induction cs) auto

lemma file_chunks_proper:
  assumes s: "sf_writable src s" "sf_block_size s \<le> MAX_BACKED_BLOCK_SIZE"
    and short: "list_all (\<lambda>b. bb_len b \<le> ucast (split_limit (sf_block_size s))) (sf_blocks s)"
    and few: "unat (sf_len s) div unat (sf_block_size s) < 2 ^ 31"
  shows "\<forall>c\<in>set (file_chunks src s). chunk_proper (unat (sf_block_size s)) c"
proof
  fix c assume c: "c \<in> set (file_chunks src s)"
  let ?w = "sf_block_size s"
  note sD = sf_writableD[OF s(1)]
  note fc = file_chunks_props[OF sD(1-3)]
  note ok = sf_okD[OF sD(1)]
  note sl = split_limit_props[OF ok(1) s(2)]
  have less: "chunk_blocks (unat ?w) c < 2 ^ 31"
    using chunk_blocks_le_total[OF c, of "unat ?w"] fc(2) few by simp
  consider (block) b where "b \<in> set (sf_blocks s)" "c = block_chunk src (unat ?w) b" | (gap) m where "0 < m" "c = DontCare m"
    using c set_block_chunks unfolding file_chunks_def Let_def by metis
  then show "chunk_proper (unat ?w) c"
  proof cases
    case block
    have b: "bb_ok (unat ?w) b" "bb_readable src b" "fill_aligned (unat ?w) b" "bb_len b \<le> ucast (split_limit ?w)"
      using block(1) ok(4) sD short by (auto simp: list_all_iff blocks_sorted_def)
    note bc = block_chunk_props[OF ok(2) b(2,3)]
    have "0 < unat (bb_len b)" using b(1) by (simp add: bb_ok_def word_less_nat_alt)
    then have pos: "0 < chunk_blocks (unat ?w) c" using div_up_pos[OF _ ok(2)] bc(2) block(2) by simp
    have "unat (bb_len b) \<le> unat (split_limit ?w)" using b(4) by (simp add: word_le_nat_alt)
    then have "div_up (unat (bb_len b)) (unat ?w) * unat ?w \<le> div_up (unat (split_limit ?w)) (unat ?w) * unat ?w"
      by (intro mult_le_mono1 div_up_mono)
    also have "\<dots> = unat (split_limit ?w)"
      using div_up_exact[OF ok(2) sl(1)] div_mult_mod_eq[of "unat (split_limit ?w)" "unat ?w"] sl(1) by simp
    finally have le: "div_up (unat (bb_len b)) (unat ?w) * unat ?w \<le> 64 * 1024 * 1024" using sl(2) by linarith
    have "length (chunk_expand (unat ?w) c) = div_up (unat (bb_len b)) (unat ?w) * unat ?w"
      using length_chunk_expand[OF bc(1)] bc(2) block(2) by simp
    then have "CHUNK_HEADER_LEN + length d < 2 ^ 32" if "c = Raw d" for d
      using that le by (simp add: CHUNK_HEADER_LEN_def)
    then have "case c of Raw d \<Rightarrow> CHUNK_HEADER_LEN + length d < 2 ^ 32 | _ \<Rightarrow> True"
      by (cases c) auto
    then show ?thesis using bc(1) block(2) pos less by (simp add: chunk_proper_def)
  next
    case gap
    with less show ?thesis by (simp add: chunk_proper_def chunk_wf_def)
  qed
qed

lemma length_le_total: "\<forall>c\<in>set cs. chunk_proper bs c \<Longrightarrow> length cs \<le> total_blocks bs cs"
  by (induction cs) (auto simp: chunk_proper_def)

lemma sparse_image_bytes:
  assumes "sf_writable src s"
  shows "sparse_image src s crc = image_bytes (sf_block_size s) (file_chunks src s)
    (if crc then Some (fold (writer_crc (unat (sf_block_size s))) (file_chunks src s) 0) else None)"
  using file_chunks_props(2)[OF sf_writableD(1-3)[OF assms]]
  by (simp add: sparse_image_def image_bytes_def Let_def)

lemma length_chunk_bytes:
  "chunk_wf bs c \<Longrightarrow> length (chunk_bytes bs c) \<le> 16 + chunk_blocks bs c * bs"
  by (cases c) (auto simp: chunk_image_def chunk_hdr.length_image CHUNK_HEADER_LEN_def chunk_wf_def)

lemma length_image_bytes:
  assumes "\<forall>c\<in>set cs. chunk_wf (unat w) c"
  shows "length (image_bytes w cs crc) \<le> 44 + 16 * length cs + total_blocks (unat w) cs * unat w"
proof -
  have "length (concat (map (chunk_bytes (unat w)) cs)) \<le> 16 * length cs + total_blocks (unat w) cs * unat w"
    using assms
  proof (induction cs)
    case (Cons c cs)
    with length_chunk_bytes[of "unat w" c] show ?case by (simp add: add_mult_distrib)
  qed simp
  then show ?thesis
    by (simp add: image_bytes_def sparse_hdr.length_image SPARSE_HEADER_LEN_def crc_chunk_bytes_def chunk_image_def
        chunk_hdr.length_image CHUNK_HEADER_LEN_def split: option.splits)
qed

text \<open>What is needed of a file to be written and read back.\<close>

definition sf_portable :: "sources \<Rightarrow> sparse_file \<Rightarrow> bool" where
  "sf_portable src s \<longleftrightarrow> sf_writable src s \<and> sf_block_size s \<le> MAX_BACKED_BLOCK_SIZE \<and>
     0 < sf_len s \<and> unat (sf_len s) div unat (sf_block_size s) < 2 ^ 31"

lemma image_readable:
  assumes s: "sf_portable src s"
    and short: "list_all (\<lambda>b. bb_len b \<le> ucast (split_limit (sf_block_size s))) (sf_blocks s)"
  defines "w \<equiv> sf_block_size s" and "cs \<equiv> file_chunks src s"
  shows "\<forall>c\<in>set cs. chunk_proper (unat w) c" "length cs < 2 ^ 32 - 1" "0 < total_blocks (unat w) cs"
    "total_blocks (unat w) cs < 2 ^ 32" "total_blocks (unat w) cs * unat w < 2 ^ 63"
    "total_blocks (unat w) cs * unat w = unat (sf_len s)" "length (sparse_image src s crc) < 2 ^ 63"
proof -
  have p: "sf_writable src s" "w \<le> MAX_BACKED_BLOCK_SIZE" "0 < unat (sf_len s)" "unat (sf_len s) div unat w < 2 ^ 31"
    using s by (simp_all add: sf_portable_def w_def word_less_nat_alt)
  note sD = sf_writableD[OF p(1)]
  note fc = file_chunks_props[OF sD(1-3), folded w_def cs_def] and ok = sf_okD[OF sD(1), folded w_def]
  show proper: "\<forall>c\<in>set cs. chunk_proper (unat w) c"
    using file_chunks_proper[OF p(1) _ short] p(2,4) by (simp add: w_def cs_def)
  have le: "length cs \<le> total_blocks (unat w) cs" by (rule length_le_total[OF proper])
  show "length cs < 2 ^ 32 - 1" using le fc(2) p(4) by simp
  show "total_blocks (unat w) cs < 2 ^ 32" using fc(2) p(4) by simp
  show eq: "total_blocks (unat w) cs * unat w = unat (sf_len s)" using fc(2) ok(6) by simp
  then show "0 < total_blocks (unat w) cs" "total_blocks (unat w) cs * unat w < 2 ^ 63"
    using p(3) ok(5) by (auto intro: Nat.gr0I)
  have w: "unat w \<le> 64 * 1024 * 1024" using p(2) by (simp add: word_le_nat_alt MAX_BACKED_BLOCK_SIZE_def)
  have "total_blocks (unat w) cs * unat w \<le> 2 ^ 31 * (64 * 1024 * 1024)"
    by (rule mult_le_mono[OF _ w]) (use fc(2) p(4) in simp)
  moreover have "length (sparse_image src s crc) \<le> 44 + 16 * length cs + total_blocks (unat w) cs * unat w"
    unfolding sparse_image_bytes[OF p(1)] unfolding w_def[symmetric] cs_def[symmetric]
    by (rule length_image_bytes[OF fc(1)])
  ultimately show "length (sparse_image src s crc) < 2 ^ 63" using le fc(2) p(4) by simp
qed

section \<open>Import\<close>

text \<open>An imported file can be written again, with the bytes of the image.\<close>

lemma reading_writable:
  assumes "reading src w n t" "unat (sf_len t) = n * unat w" "n < 2 ^ 31" "w \<le> MAX_BACKED_BLOCK_SIZE" "0 < n"
  shows "sf_portable src t"
proof -
  note w = readingD[OF assms(1)]
  have "unat w \<le> 64 * 1024 * 1024" using assms(4) by (simp add: word_le_nat_alt MAX_BACKED_BLOCK_SIZE_def)
  then have "n * unat w + unat w \<le> 2 ^ 31 * (64 * 1024 * 1024) + 64 * 1024 * 1024"
    using mult_le_mono[of n "2 ^ 31" "unat w" "64 * 1024 * 1024"] assms(3) by linarith
  moreover have "0 < sf_len t" using assms(2,5) w(2) by (simp add: word_less_nat_alt)
  ultimately show ?thesis using assms w
    by (auto simp: sf_portable_def sf_writable_iff Let_def reading_def)
qed

lemma imported_portable:
  assumes s: "sf_portable src s"
    and t: "reading src' (sf_block_size s) (unat (sf_len s) div unat (sf_block_size s)) t" "sf_len t = sf_len s"
  shows "sf_portable src' t"
proof (rule reading_writable[OF t(1)])
  have wr: "sf_writable src s" and pos: "0 < unat (sf_len s)" using s by (simp_all add: sf_portable_def word_less_nat_alt)
  show eq: "unat (sf_len t) = unat (sf_len s) div unat (sf_block_size s) * unat (sf_block_size s)"
    using sf_okD(6)[OF sf_writableD(1)[OF wr]] t(2) by simp
  then show "0 < unat (sf_len s) div unat (sf_block_size s)" using pos t(2) by (auto intro: Nat.gr0I)
qed (use s in \<open>simp_all add: sf_portable_def\<close>)

text \<open>The crc that the writer computes is the one the reader computes: no gaps, fills of one block.\<close>

definition crc_agrees :: "sources \<Rightarrow> sparse_file \<Rightarrow> bool" where
  "crc_agrees src s \<longleftrightarrow> fold (writer_crc (unat (sf_block_size s))) (file_chunks src s) 0 =
     sparse_crc32 0 (expanded_image src s)"

text \<open>This holds for files without fill blocks whose every block has backing.\<close>

definition fully_backed :: "sources \<Rightarrow> sparse_file \<Rightarrow> bool" where
  "fully_backed src s \<longleftrightarrow> BACKED_BLOCK_FILL \<notin> block_types (sf_blocks s) \<and>
     (\<forall>k<unat (sf_len s) div unat (sf_block_size s). bbl_image src (sf_list s) (k * unat (sf_block_size s)) \<noteq> None)"

lemma chunks_map_below: "pos < k * bs \<Longrightarrow> chunks_map bs k cs pos = None"
proof (induction cs arbitrary: k)
  case (Cons c cs)
  from Cons.prems have "pos < (k + chunk_blocks bs c) * bs" by (simp add: add_mult_distrib)
  moreover have "chunk_at bs k c pos = None"
    using Cons.prems chunk_at_dom[of bs k c pos] by (cases "chunk_at bs k c pos") auto
  ultimately show ?case using Cons.IH by simp
qed simp

lemma no_hole_no_gap:
  assumes "0 < bs" "\<forall>j<total_blocks bs cs. chunks_map bs k cs ((k + j) * bs) \<noteq> None" "\<forall>c\<in>set cs. 0 < chunk_blocks bs c"
  shows "DontCare m \<notin> set cs"
  using assms(2,3)
proof (induction cs arbitrary: k)
  case (Cons c cs)
  let ?n = "chunk_blocks bs c"
  have pos: "0 < ?n" using Cons.prems(2) by simp
  have "k * bs < (k + ?n) * bs" using pos assms(1) by simp
  then have "chunk_at bs k c (k * bs) \<noteq> None"
    using Cons.prems(1) pos chunks_map_below[of "k * bs" "k + ?n" bs cs] by (auto simp: map_add_def dest!: spec[of _ 0] split: option.splits)
  then have "c \<noteq> DontCare m" by auto
  moreover have "DontCare m \<notin> set cs"
  proof (rule Cons.IH[of "k + ?n"])
    show "\<forall>j<total_blocks bs cs. chunks_map bs (k + ?n) cs ((k + ?n + j) * bs) \<noteq> None"
    proof (intro allI impI)
      fix j assume "j < total_blocks bs cs"
      then have "chunks_map bs k (c # cs) ((k + (?n + j)) * bs) \<noteq> None" using Cons.prems(1) by simp
      moreover have "chunk_at bs k c ((k + (?n + j)) * bs) = None"
      proof (rule ccontr)
        assume "\<not> ?thesis"
        then have "(k + (?n + j)) * bs < (k + ?n) * bs"
          using chunk_at_dom[of bs k c "(k + (?n + j)) * bs"] by auto
        then show False using assms(1) by simp
      qed
      ultimately show "chunks_map bs (k + ?n) cs ((k + ?n + j) * bs) \<noteq> None"
        by (auto simp: map_add_def add.assoc split: option.splits)
    qed
  qed (use Cons.prems(2) in simp)
  ultimately show ?case by simp
qed simp

lemma writer_crc_raw:
  assumes "\<forall>c\<in>set cs. \<exists>d. c = Raw d"
  shows "fold (writer_crc bs) cs x = sparse_crc32 x (concat (map (chunk_expand bs) cs))"
  using assms by (induction cs arbitrary: x) (auto simp: sparse_crc32_append)

lemma fully_backed_crc:
  assumes s: "sf_writable src s" "fully_backed src s" and proper: "\<forall>c\<in>set (file_chunks src s). chunk_proper (unat (sf_block_size s)) c"
  shows "crc_agrees src s"
proof -
  let ?bs = "unat (sf_block_size s)" and ?cs = "file_chunks src s"
  note sD = sf_writableD[OF s(1)]
  note fc = file_chunks_props[OF sD(1-3)] and ok = sf_okD[OF sD(1)]
  have "\<forall>j<total_blocks ?bs ?cs. chunks_map ?bs 0 ?cs ((0 + j) * ?bs) \<noteq> None"
    using s(2) fc(2,3) by (force simp: fully_backed_def zero_filled_def)
  then have gap: "DontCare m \<notin> set ?cs" for m
    using no_hole_no_gap[of ?bs ?cs 0] ok(2) proper by (auto simp: chunk_proper_def)
  have "\<forall>c\<in>set ?cs. \<exists>d. c = Raw d"
  proof
    fix c assume c: "c \<in> set ?cs"
    then obtain b where b: "b \<in> set (sf_blocks s)" "c = block_chunk src ?bs b"
      using set_block_chunks gap unfolding file_chunks_def Let_def by metis
    moreover have "type_of (bb_backing b) \<noteq> BACKED_BLOCK_FILL"
      using s(2) b(1) by (force simp: fully_backed_def block_types_def)
    ultimately show "\<exists>d. c = Raw d" by (cases "bb_backing b") (auto simp: block_chunk_def)
  qed
  then show ?thesis by (simp add: crc_agrees_def expanded_image_def writer_crc_raw)
qed

lemma import_buf_written:
  assumes s: "sf_portable src s"
    and short: "list_all (\<lambda>b. bb_len b \<le> ucast (split_limit (sf_block_size s))) (sf_blocks s)"
    and crc: "rcrc \<Longrightarrow> wcrc \<Longrightarrow> crc_agrees src s"
  shows "\<exists>t. sparse_file_import_buf (sparse_image src s wcrc) verbose rcrc = Inr (Some t) \<and>
    reading src' (sf_block_size s) (unat (sf_len s) div unat (sf_block_size s)) t \<and> sf_len t = sf_len s \<and>
    zero_filled (bbl_image src (sf_list s)) (bbl_image src' (sf_list t))"
proof -
  let ?w = "sf_block_size s" and ?cs = "file_chunks src s"
  let ?crc = "if wcrc then Some (fold (writer_crc (unat ?w)) ?cs 0) else None"
  have wr: "sf_writable src s" using s by (simp add: sf_portable_def)
  note sD = sf_writableD[OF wr]
  note im = image_readable[OF s short] and fc = file_chunks_props[OF sD(1-3)] and ok = sf_okD[OF sD(1)]
  have eq: "sparse_image src s wcrc = image_bytes ?w ?cs ?crc" by (rule sparse_image_bytes[OF wr])
  let ?x = "\<lparr>bs_bytes = sparse_image src s wcrc, bs_offset = 0\<rparr>"
  have good: "buf_good (sparse_image src s wcrc) ?x" using im(7) by (simp add: buf_good_def)
  have "buf_rest ?x = image_bytes ?w ?cs ?crc" by (simp add: buf_rest_def eq)
  moreover have "?crc = Some (sparse_crc32 0 (concat (map (chunk_expand (unat ?w)) ?cs)))" if "rcrc" "?crc \<noteq> None"
    using that crc by (auto simp: crc_agrees_def expanded_image_def split: if_splits)
  ultimately obtain t x where t: "sparse_file_import_source buf_source ?x verbose rcrc = Inr (Some t, x)"
    "reading src' ?w (total_blocks (unat ?w) ?cs) t" "unat (sf_len t) = total_blocks (unat ?w) ?cs * unat ?w"
    "bbl_image src' (sf_list t) = chunks_map (unat ?w) 0 ?cs"
    using buf.import_ok[OF good _ eq ok(1,3) im(1-5)] by blast
  have "sf_len t = sf_len s" using t(3) im(6) by (simp add: word_unat_eq_iff)
  with t fc show ?thesis by (simp add: sparse_file_import_buf_def)
qed

lemma import_fd_written:
  assumes s: "sf_portable src s"
    and short: "list_all (\<lambda>b. bb_len b \<le> ucast (split_limit (sf_block_size s))) (sf_blocks s)"
    and crc: "rcrc \<Longrightarrow> wcrc \<Longrightarrow> crc_agrees src s"
    and x: "fd_good src' (sparse_image src s wcrc) x" "rd_pos x = 0"
  shows "\<exists>t x'. sparse_file_import x verbose rcrc = Inr (Some t, x') \<and>
    reading src' (sf_block_size s) (unat (sf_len s) div unat (sf_block_size s)) t \<and> sf_len t = sf_len s \<and>
    zero_filled (bbl_image src (sf_list s)) (bbl_image src' (sf_list t))"
proof -
  let ?w = "sf_block_size s" and ?cs = "file_chunks src s"
  let ?crc = "if wcrc then Some (fold (writer_crc (unat ?w)) ?cs 0) else None"
  have wr: "sf_writable src s" using s by (simp add: sf_portable_def)
  note sD = sf_writableD[OF wr]
  note im = image_readable[OF s short] and fc = file_chunks_props[OF sD(1-3)] and ok = sf_okD[OF sD(1)]
  have eq: "sparse_image src s wcrc = image_bytes ?w ?cs ?crc" by (rule sparse_image_bytes[OF wr])
  have "fd_rest x = image_bytes ?w ?cs ?crc" using x by (simp add: fd_rest_def fd_good_def eq)
  moreover have "?crc = Some (sparse_crc32 0 (concat (map (chunk_expand (unat ?w)) ?cs)))" if "rcrc" "?crc \<noteq> None"
    using that crc by (auto simp: crc_agrees_def expanded_image_def split: if_splits)
  ultimately obtain t x' where t: "sparse_file_import_source fd_source x verbose rcrc = Inr (Some t, x')"
    "reading src' ?w (total_blocks (unat ?w) ?cs) t" "unat (sf_len t) = total_blocks (unat ?w) ?cs * unat ?w"
    "bbl_image src' (sf_list t) = chunks_map (unat ?w) 0 ?cs"
    using fd.import_ok[OF x(1) _ eq ok(1,3) im(1-5)] by blast
  have "sf_len t = sf_len s" using t(3) im(6) by (simp add: word_unat_eq_iff)
  with t fc show ?thesis by (simp add: sparse_file_import_def)
qed

section \<open>Write, then import\<close>

text \<open>The file as \<open>sparse_file_write\<close> leaves it, and what it has put on the descriptor.\<close>

lemma written_image:
  assumes s: "sf_portable src s" "env_ok env src" "fresh_fd fd"
    and crc: "rcrc \<Longrightarrow> wcrc \<Longrightarrow> fully_backed src s"
  shows "\<exists>fd' s'. sparse_file_write env s fd True wcrc = Some (Inr (0, fd', s')) \<and>
    fs_bytes fd' = sparse_image src s' wcrc \<and> sf_portable src s' \<and>
    list_all (\<lambda>b. bb_len b \<le> ucast (split_limit (sf_block_size s'))) (sf_blocks s') \<and>
    (rcrc \<longrightarrow> wcrc \<longrightarrow> crc_agrees src s') \<and>
    sf_block_size s' = sf_block_size s \<and> sf_len s' = sf_len s \<and> bbl_image src (sf_list s') = bbl_image src (sf_list s)"
proof -
  have "sf_writable src s" "sf_block_size s \<le> MAX_BACKED_BLOCK_SIZE" using s(1) by (simp_all add: sf_portable_def)
  from sparse_file_write_sparse_lemma[OF this s(2,3), of wcrc] obtain fd' s' where
    w: "sparse_file_write env s fd True wcrc = Some (Inr (0, fd', s'))" "fs_bytes fd' = sparse_image src s' wcrc"
    "sf_writable src s'" "sf_block_size s' = sf_block_size s" "sf_len s' = sf_len s"
    "bbl_image src (sf_list s') = bbl_image src (sf_list s)" "block_types (sf_blocks s') \<subseteq> block_types (sf_blocks s)"
    "list_all (\<lambda>b. bb_len b \<le> ucast (split_limit (sf_block_size s))) (sf_blocks s')" by blast
  have p: "sf_portable src s'" using s(1) w(3-5) by (simp add: sf_portable_def)
  have short: "list_all (\<lambda>b. bb_len b \<le> ucast (split_limit (sf_block_size s'))) (sf_blocks s')" using w(4,8) by simp
  have "crc_agrees src s'" if "rcrc" "wcrc"
  proof (rule fully_backed_crc[OF w(3) _ image_readable(1)[OF p short]])
    show "fully_backed src s'" using crc[OF that] w(4-7) by (auto simp: fully_backed_def)
  qed
  with w p short show ?thesis by blast
qed

lemma written_import_buf:
  assumes "sf_portable src s" "env_ok env src" "fresh_fd fd" "rcrc \<Longrightarrow> wcrc \<Longrightarrow> fully_backed src s"
  shows "\<exists>fd' s' t. sparse_file_write env s fd True wcrc = Some (Inr (0, fd', s')) \<and>
    sparse_file_import_buf (fs_bytes fd') verbose rcrc = Inr (Some t) \<and>
    sf_block_size t = sf_block_size s \<and> sf_len t = sf_len s \<and> sf_portable src' t \<and>
    (\<forall>pos. or_zero (bbl_image src' (sf_list t) pos) = or_zero (bbl_image src (sf_list s) pos))"
proof -
  obtain fd' s' where w: "sparse_file_write env s fd True wcrc = Some (Inr (0, fd', s'))"
    "fs_bytes fd' = sparse_image src s' wcrc" "sf_portable src s'"
    "list_all (\<lambda>b. bb_len b \<le> ucast (split_limit (sf_block_size s'))) (sf_blocks s')"
    "rcrc \<longrightarrow> wcrc \<longrightarrow> crc_agrees src s'" "sf_block_size s' = sf_block_size s" "sf_len s' = sf_len s"
    "bbl_image src (sf_list s') = bbl_image src (sf_list s)"
    using written_image[OF assms] by blast
  obtain t where t: "sparse_file_import_buf (sparse_image src s' wcrc) verbose rcrc = Inr (Some t)"
    "reading src' (sf_block_size s') (unat (sf_len s') div unat (sf_block_size s')) t" "sf_len t = sf_len s'"
    "zero_filled (bbl_image src (sf_list s')) (bbl_image src' (sf_list t))"
    using import_buf_written[OF w(3,4), of rcrc wcrc verbose src'] w(5) by blast
  have "sf_portable src' t"
    using imported_portable[OF w(3) t(2,3)] .
  then show ?thesis using w t zero_filled_or_zero[OF t(4)] readingD(4)[OF t(2)] by auto
qed

text \<open>Two files with the same bytes are the same when they are written expanded.\<close>

lemma expanded_same:
  assumes a: "sf_portable src s" "env_ok env src" "fresh_fd fd"
    and b: "sf_portable src' t" "env_ok env' src'" "fresh_fd fd'"
    and same: "sf_len t = sf_len s" "\<forall>pos. or_zero (bbl_image src' (sf_list t) pos) = or_zero (bbl_image src (sf_list s) pos)"
  shows "\<exists>x y sx sy. sparse_file_write env s fd False c = Some (Inr (0, x, sx)) \<and>
    sparse_file_write env' t fd' False c' = Some (Inr (0, y, sy)) \<and> fs_bytes y = fs_bytes x"
proof -
  have w: "sf_writable src s" "sf_block_size s \<le> MAX_BACKED_BLOCK_SIZE"
    "sf_writable src' t" "sf_block_size t \<le> MAX_BACKED_BLOCK_SIZE"
    using a b by (simp_all add: sf_portable_def)
  obtain x sx where x: "sparse_file_write env s fd False c = Some (Inr (0, x, sx))" "length (fs_bytes x) = unat (sf_len s)"
    "\<forall>pos<unat (sf_len s). fs_bytes x ! pos = or_zero (bbl_image src (sf_list s) pos)"
    using sparse_file_write_expanded_lemma[OF w(1,2) a(2,3)] by blast
  obtain y sy where y: "sparse_file_write env' t fd' False c' = Some (Inr (0, y, sy))" "length (fs_bytes y) = unat (sf_len t)"
    "\<forall>pos<unat (sf_len t). fs_bytes y ! pos = or_zero (bbl_image src' (sf_list t) pos)"
    using sparse_file_write_expanded_lemma[OF w(3,4) b(2,3)] by blast
  have "fs_bytes y = fs_bytes x" using x(2,3) y(2,3) same by (intro nth_equalityI) simp_all
  with x(1) y(1) show ?thesis by blast
qed

end
