(* ===== verification/SpTheorems.thy ===== *)
theory SpTheorems imports SpRoundtrip begin

text \<open>
  The properties of \<open>libsparse\<close> from the interface of the library: what writing a file leaves on a
  descriptor, reading it back, converting it, and measuring it. Each comes with a concrete file on
  which its hypotheses hold.
\<close>

section \<open>A concrete file\<close>

text \<open>
  Six blocks of four bytes: five bytes of data in the first two, a hole, a fill, four bytes of a
  descriptor, and a hole at the end. The descriptor it is written to is interrupted and takes one
  byte at a time at first.
\<close>

definition demo_bytes :: "u8 list" where "demo_bytes = [10, 11, 12, 13, 14, 15, 16, 17]"

definition demo_src :: sources where
  "demo_src = \<lparr>src_file = \<lambda>_. demo_bytes, src_fd = \<lambda>_. demo_bytes\<rparr>"

definition demo_env :: env where
  "demo_env = \<lparr>env_mmap = \<lambda>fd off n. Inr (bytes_at (unat off) (unat n) demo_bytes),
     env_open = \<lambda>_. 3, env_page_size = 4\<rparr>"

definition demo_file :: sparse_file where
  "demo_file = \<lparr>sf_block_size = 4, sf_len = 24, sf_verbose = False, sf_list =
     \<lparr>bbl_blocks = [\<lparr>bb_block = 0, bb_len = 5, bb_backing = BB_DATA [1, 2, 3, 4, 5]\<rparr>,
        \<lparr>bb_block = 3, bb_len = 4, bb_backing = BB_FILL 7\<rparr>,
        \<lparr>bb_block = 4, bb_len = 4, bb_backing = BB_FD 3 2\<rparr>],
      bbl_last_used = Some 2, bbl_block_size = 4\<rparr>\<rparr>"

definition demo_fd :: file_sink where
  "demo_fd = \<lparr>fs_bytes = [], fs_pos = 0, fs_script = [Interrupted, Wrote 1, Wrote 1, Interrupted]\<rparr>"

lemma demo_file_built:
  "bind_run (sparse_file_add_data (sparse_file_new 4 24) [1, 2, 3, 4, 5] 5 0) (\<lambda>s.
     bind_run (sparse_file_add_fill s 7 4 3) (\<lambda>s. sparse_file_add_fd s 3 2 4 4)) = Inr demo_file"
  by code_simp

lemma demo_portable: "sf_portable demo_src demo_file"
  by code_simp

lemma demo_env_ok: "env_ok demo_env demo_src"
  by (simp add: env_ok_def demo_env_def demo_src_def)

lemma demo_fresh: "fresh_fd demo_fd"
  by code_simp

lemma portableD:
  assumes "sf_portable src s"
  shows "sf_writable src s" "sf_block_size s \<le> MAX_BACKED_BLOCK_SIZE"
  using assms by (simp_all add: sf_portable_def)

section \<open>Writing expanded\<close>

text \<open>
  C22: Writing a well-formed file in expanded form returns 0 and leaves exactly \<open>len\<close> bytes on the
  descriptor: the bytes of the blocks where the file has blocks, zeros elsewhere, however the
  descriptor splits and interrupts the writes.
\<close>

theorem sparse_file_write_expanded:
  assumes "sf_writable src s" "sf_block_size s \<le> MAX_BACKED_BLOCK_SIZE" "env_ok env src" "fresh_fd fd"
  shows "\<exists>fd' s'. sparse_file_write env s fd False crc = Some (Inr (0, fd', s')) \<and>
    length (fs_bytes fd') = unat (sf_len s) \<and>
    (\<forall>pos<unat (sf_len s). fs_bytes fd' ! pos = or_zero (bbl_image src (sf_list s) pos))"
  by (rule sparse_file_write_expanded_lemma[OF assms])

theorem sparse_file_write_expanded_witness:
  "\<exists>fd' s'. sparse_file_write demo_env demo_file demo_fd False False = Some (Inr (0, fd', s')) \<and>
    length (fs_bytes fd') = unat (sf_len demo_file) \<and>
    (\<forall>pos<unat (sf_len demo_file). fs_bytes fd' ! pos = or_zero (bbl_image demo_src (sf_list demo_file) pos))"
  by (rule sparse_file_write_expanded[OF portableD[OF demo_portable] demo_env_ok demo_fresh])

section \<open>Writing and reading back\<close>

text \<open>
  C21: The sparse image that \<open>sparse_file_write\<close> leaves on a descriptor, with or without a crc chunk, is
  accepted by \<open>sparse_file_import_buf\<close>, and the imported file has the block size, the length and at
  every position the byte of the original. With a crc that is checked on import this is promised for
  files without fill blocks and holes, because the crc of the others is not the crc of their bytes.
\<close>

theorem sparse_file_write_import_buf:
  assumes "sf_portable src s" "env_ok env src" "fresh_fd fd"
    and "rcrc \<Longrightarrow> wcrc \<Longrightarrow> fully_backed src s"
  shows "\<exists>fd' s' t. sparse_file_write env s fd True wcrc = Some (Inr (0, fd', s')) \<and>
    sparse_file_import_buf (fs_bytes fd') verbose rcrc = Inr (Some t) \<and>
    sf_block_size t = sf_block_size s \<and> sf_len t = sf_len s \<and> sf_portable src' t \<and>
    (\<forall>pos. or_zero (bbl_image src' (sf_list t) pos) = or_zero (bbl_image src (sf_list s) pos))"
  using written_import_buf[OF assms] by blast

theorem sparse_file_write_import_buf_witness:
  "\<exists>fd' s' t. sparse_file_write demo_env demo_file demo_fd True True = Some (Inr (0, fd', s')) \<and>
    sparse_file_import_buf (fs_bytes fd') False False = Inr (Some t) \<and>
    sf_block_size t = sf_block_size demo_file \<and> sf_len t = sf_len demo_file \<and> sf_portable demo_src t \<and>
    (\<forall>pos. or_zero (bbl_image demo_src (sf_list t) pos) = or_zero (bbl_image demo_src (sf_list demo_file) pos))"
  by (rule sparse_file_write_import_buf[OF demo_portable demo_env_ok demo_fresh]) simp

text \<open>
  C20: Converting to the sparse format and back changes nothing: expanding the file that was imported
  from the sparse image of \<open>s\<close> leaves the same bytes on a descriptor as expanding \<open>s\<close>.
\<close>

theorem sparse_conversion_transparent:
  assumes "sf_portable src s" "env_ok env src" "fresh_fd fd1" "fresh_fd fd2" "env_ok env' src'" "fresh_fd fd3"
  shows "\<exists>plain sp img sm t back st.
    sparse_file_write env s fd1 False crc = Some (Inr (0, plain, sp)) \<and>
    sparse_file_write env s fd2 True crc = Some (Inr (0, img, sm)) \<and>
    sparse_file_import_buf (fs_bytes img) verbose False = Inr (Some t) \<and>
    sparse_file_write env' t fd3 False crc = Some (Inr (0, back, st)) \<and> fs_bytes back = fs_bytes plain"
proof -
  obtain img sm t where t: "sparse_file_write env s fd2 True crc = Some (Inr (0, img, sm))"
    "sparse_file_import_buf (fs_bytes img) verbose False = Inr (Some t)" "sf_len t = sf_len s" "sf_portable src' t"
    "\<forall>pos. or_zero (bbl_image src' (sf_list t) pos) = or_zero (bbl_image src (sf_list s) pos)"
    using written_import_buf[OF assms(1,2,4), of False crc verbose src'] by blast
  from expanded_same[OF assms(1-3) t(4) assms(5,6) t(3,5)] t(1,2) show ?thesis by blast
qed

theorem sparse_conversion_transparent_witness:
  "\<exists>plain sp img sm t back st.
    sparse_file_write demo_env demo_file demo_fd False True = Some (Inr (0, plain, sp)) \<and>
    sparse_file_write demo_env demo_file demo_fd True True = Some (Inr (0, img, sm)) \<and>
    sparse_file_import_buf (fs_bytes img) False False = Inr (Some t) \<and>
    sparse_file_write demo_env t demo_fd False True = Some (Inr (0, back, st)) \<and> fs_bytes back = fs_bytes plain"
  by (rule sparse_conversion_transparent[OF demo_portable demo_env_ok demo_fresh demo_fresh demo_env_ok demo_fresh])

section \<open>Measuring\<close>

text \<open>
  C23: \<open>sparse_file_len\<close> computes without writing the number of bytes that \<open>sparse_file_callback\<close>
  delivers for the same file.
\<close>

theorem sparse_file_len_is_written:
  assumes "sf_writable src s" "env_ok env src"
  shows "\<exists>image. sparse_file_callback env s True crc collect_write [] = Inr (0, image) \<and>
    sparse_file_len env s True crc = Inr (of_nat (length image))"
  using sparse_file_callback_collects[OF sf_writableD(1,2)[OF assms(1)] assms(2), of crc "[]"]
    sparse_file_len_image[OF sf_writableD(1,2)[OF assms(1)] assms(2), of crc] by simp

theorem sparse_file_len_is_written_witness:
  "\<exists>image. sparse_file_callback demo_env demo_file True False collect_write [] = Inr (0, image) \<and>
    sparse_file_len demo_env demo_file True False = Inr (of_nat (length image))"
  by (rule sparse_file_len_is_written[OF portableD(1)[OF demo_portable] demo_env_ok])

section \<open>Splitting before writing\<close>

text \<open>
  C24: The loop of \<open>sparse_file_write\<close> that splits blocks at 64 MiB, and that visits the block each
  split adds, ends when a block of the file is at most 64 MiB. It keeps the file well formed and its
  image, and leaves no block above the limit.
\<close>

theorem split_all_returns:
  assumes "sf_writable src s" "sf_block_size s \<le> MAX_BACKED_BLOCK_SIZE"
  shows "\<exists>l. split_all 0 (sf_list s) = Some l \<and> sf_writable src (s\<lparr>sf_list := l\<rparr>) \<and>
    bbl_image src l = bbl_image src (sf_list s) \<and>
    list_all (\<lambda>b. unat (bb_len b) \<le> 64 * 1024 * 1024) (bbl_blocks l)"
proof -
  obtain l where l: "split_all 0 (sf_list s) = Some l" "sf_writable src (s\<lparr>sf_list := l\<rparr>)"
    "bbl_image src l = bbl_image src (sf_list s)" "list_all (\<lambda>b. bb_len b \<le> ucast (split_limit (sf_block_size s))) (bbl_blocks l)"
    using split_file[OF assms] by blast
  have "unat (split_limit (sf_block_size s)) \<le> 64 * 1024 * 1024"
    by (rule split_limit_props(2)[OF sf_okD(1)[OF sf_writableD(1)[OF assms(1)]] assms(2)])
  with l show ?thesis by (fastforce simp: list_all_iff word_le_nat_alt)
qed

theorem split_all_returns_witness:
  "\<exists>l. split_all 0 (sf_list demo_file) = Some l \<and> sf_writable demo_src (demo_file\<lparr>sf_list := l\<rparr>) \<and>
    bbl_image demo_src l = bbl_image demo_src (sf_list demo_file) \<and>
    list_all (\<lambda>b. unat (bb_len b) \<le> 64 * 1024 * 1024) (bbl_blocks l)"
  by (rule split_all_returns[OF portableD[OF demo_portable]])

end
