(* ===== verification/SpPlain.thy ===== *)
theory SpPlain imports SpRoundtrip begin

text \<open>
  Reading a plain file: \<open>sparse_file_read_normal\<close> turns every block of equal words into a fill, every
  other block into a reference to the descriptor, and the file it builds has the bytes that were read.
\<close>

text \<open>The first bytes of a file as an image.\<close>

definition byte_map :: "u8 list \<Rightarrow> nat \<Rightarrow> nat \<rightharpoonup> u8" where
  "byte_map whole n = (\<lambda>pos. if pos < n then Some (whole ! pos) else None)"

lemma byte_map_add:
  assumes "d = take n (drop k whole)" "k + n \<le> length whole"
  shows "byte_map whole k ++ (\<lambda>pos. if k \<le> pos \<and> pos < k + n then Some (d ! (pos - k)) else None) = byte_map whole (k + n)"
  using assms(2) by (auto simp: assms(1) byte_map_def map_add_def fun_eq_iff)

text \<open>A block of equal words is the fill of its first word.\<close>

lemma same_words_fill:
  assumes "same_words bs d" "length d = bs" "bs mod 4 = 0" "i < bs"
  shows "d ! i = enc32 (dec32 0 d) ! (i mod 4)"
proof -
  have ge: "4 \<le> bs" using assms(3,4) by (cases "bs < 4") (auto simp: mod_less)
  have "bytes_at (4 * (i div 4)) 4 d = bytes_at 0 4 d"
  proof (cases "i div 4 = 0")
    case False
    then have "i div 4 \<in> {1..<bs div 4}" using assms(3,4) by (auto simp: less_mult_imp_div_less)
    then show ?thesis using assms(1) by (auto simp: same_words_def list_all_iff)
  qed simp
  moreover have "d ! i = bytes_at (4 * (i div 4)) 4 d ! (i mod 4)"
    using assms(2-4) by (simp add: bytes_at_def)
  moreover have "enc32 (dec32 0 d) = bytes_at 0 4 d" using enc_dec(2)[of 0 d] ge assms(2) by simp
  ultimately show ?thesis by simp
qed

text \<open>The first \<open>n\<close> blocks of the loop, with \<open>r\<close> bytes to follow.\<close>

lemma read_normal_blocks:
  assumes "reading src w k s" "fd_good src whole fd" "rd_pos fd = k * unat w" "length (fd_rest fd) = n * unat w + r"
    and "k + n < 2 ^ 32" and "bbl_image src (sf_list s) = byte_map whole (k * unat w)"
  shows "\<exists>s' fd'. read_normal_loop (n * unat w + r) (of_nat (k * unat w)) (of_nat k) s fd =
      read_normal_loop r (of_nat ((k + n) * unat w)) (of_nat (k + n)) s' fd' \<and>
    rd_pos fd' = (k + n) * unat w \<and> reading src w (k + n) s' \<and> fd_good src whole fd' \<and> sf_len s' = sf_len s \<and> sf_verbose s' = sf_verbose s \<and>
    bbl_image src (sf_list s') = byte_map whole ((k + n) * unat w)"
  using assms
proof (induction n arbitrary: k s fd)
  case 0
  then show ?case by (intro exI[of _ s] exI[of _ fd]) simp
next
  case (Suc n)
  note w = readingD[OF Suc.prems(1)]
  let ?bs = "unat w"
  define off where "off = (of_nat (k * ?bs) :: u64)"
  have bs4: "4 \<le> ?bs" using w(2,3) by presburger
  have len: "length whole = k * ?bs + (?bs + n * ?bs) + r" "length whole < 2 ^ 63"
    using Suc.prems(2-4) by (auto simp: fd_good_def fd_rest_def)
  have le: "?bs \<le> length (fd_rest fd)" using Suc.prems(4) by simp
  obtain fd1 where fd1: "read_all ?bs fd = (0, take ?bs (fd_rest fd), fd1)" "fd_good src whole fd1"
    "fd_rest fd1 = drop ?bs (fd_rest fd)" "rd_fd fd1 = rd_fd fd" "rd_pos fd1 = (k + 1) * ?bs"
    using read_all_ok[OF Suc.prems(2) le] Suc.prems(3) by auto
  define d where "d = take ?bs (fd_rest fd)"
  have ld: "length d = ?bs" using le by (simp add: d_def)
  have rest: "fd_rest fd = drop (k * ?bs) whole" using Suc.prems(2,3) by (simp add: fd_good_def fd_rest_def)
  define bk where "bk = (if same_words ?bs d then BB_FILL (dec32 0 d) else BB_FD (rd_fd fd) off)"
  have u: "unat off = k * ?bs" unfolding off_def using len by (intro unat_of_nat_small) simp
  have ul: "unat (of_nat ?bs :: u64) = ?bs" by (intro unat_of_nat_small) (rule order.strict_trans[OF unat_u32_lt], simp)
  have src: "src_fd src (rd_fd fd) = whole" using Suc.prems(2) by (simp add: fd_good_def)
  have "backing_ok bk (of_nat ?bs)" "readable src bk (of_nat ?bs)"
    using len by (simp_all add: bk_def u ul src del: of_nat_unat)
  moreover have "backing_byte src bk i = Some (chunk_expand ?bs (Raw d) ! i)" if i: "i < 1 * ?bs" for i
  proof (cases "same_words ?bs d")
    case True
    moreover have "i mod 4 < length (enc32 (dec32 0 d))" by simp
    ultimately show ?thesis using same_words_fill[OF True ld w(3)] i by (simp add: bk_def byte_of_def del: length_enc)
  next
    case False
    have "d ! i = whole ! (k * ?bs + i)" using i len by (simp add: d_def rest)
    then show ?thesis using False i len by (simp add: bk_def u src byte_of_def)
  qed
  moreover have "0 < (1::nat)" "k + 1 < 2 ^ 32" "(k + 1) * ?bs < 2 ^ 63"
    using Suc.prems(5) len by simp_all
  ultimately obtain s1 where s1: "with_list s (queue_bb (sf_list s) \<lparr>bb_block = of_nat k, bb_len = of_nat ?bs, bb_backing = bk\<rparr>) = Inr s1"
    "reading src w (k + 1) s1" "sf_len s1 = sf_len s" "sf_verbose s1 = sf_verbose s"
    "bbl_image src (sf_list s1) = bbl_image src (sf_list s) ++ chunk_at ?bs k (Raw d)"
    using add_chunk_block[OF Suc.prems(1), of 1 "of_nat ?bs" bk "Raw d"] ul ld w(2) by auto
  have img: "bbl_image src (sf_list s1) = byte_map whole ((k + 1) * ?bs)"
    using byte_map_add[of d ?bs "k * ?bs" whole] ld len w(2)
    by (simp add: s1(5) Suc.prems(6) d_def rest add.commute cong: if_cong)
  obtain s' fd' where "read_normal_loop (n * ?bs + r) (of_nat ((k + 1) * ?bs)) (of_nat (k + 1)) s1 fd1 =
      read_normal_loop r (of_nat ((k + Suc n) * ?bs)) (of_nat (k + Suc n)) s' fd'" "rd_pos fd' = (k + Suc n) * ?bs"
    "reading src w (k + Suc n) s'" "fd_good src whole fd'" "sf_len s' = sf_len s" "sf_verbose s' = sf_verbose s"
    "bbl_image src (sf_list s') = byte_map whole ((k + Suc n) * ?bs)"
    using Suc.IH[OF s1(2) fd1(2,5) _ _ img] Suc.prems(4,5) fd1(3) s1(3,4) by auto
  moreover have "read_normal_loop (Suc n * ?bs + r) off (of_nat k) s fd =
      read_normal_loop (n * ?bs + r) (of_nat ((k + 1) * ?bs)) (of_nat (k + 1)) s1 fd1"
  proof -
    have "Suc n * ?bs + r \<noteq> 0" "?bs \<noteq> 0" "min (Suc n * ?bs + r) ?bs = ?bs" "\<not> ?bs < 4" "Suc n * ?bs + r - ?bs = n * ?bs + r"
      using bs4 by auto
    moreover have "(if same_words ?bs d then sparse_file_add_fill s (dec32 0 d) (of_nat ?bs) (of_nat k)
        else sparse_file_add_fd s (rd_fd fd) off (of_nat ?bs) (of_nat k)) = Inr s1"
      using s1(1) by (simp add: bk_def sparse_file_add_fill_def sparse_file_add_fd_def backed_block_add_fill_def
          backed_block_add_fd_def split: if_splits)
    ultimately show ?thesis
      unfolding read_normal_loop.simps[of "Suc n * ?bs + r"] w(4) Let_def
      by (simp add: fd1(1)[folded d_def] off_def add.commute cong: if_cong del: of_nat_unat)
  qed
  ultimately show ?case by (auto simp: off_def)
qed

lemma read_normal_ok:
  assumes s: "reading src w 0 s" "bbl_image src (sf_list s) = Map.empty" "unat (sf_len s) = n * unat w"
    and fd: "fd_good src whole fd" "rd_pos fd = 0" "length whole = n * unat w" and n: "n < 2 ^ 32"
  shows "\<exists>s' fd'. sparse_file_read_normal s fd = Inr (0, s', fd') \<and> reading src w n s' \<and> sf_len s' = sf_len s \<and>
    sf_verbose s' = sf_verbose s \<and> bbl_image src (sf_list s') = byte_map whole (length whole)"
proof -
  note w = readingD[OF s(1)]
  have "unat (sf_len s) < 2 ^ 63" using s(3) fd(1,3) by (simp add: fd_good_def)
  then have l: "nat (sint (sf_len s)) = n * unat w" by (simp only: sint_small nat_int s(3))
  have "length (fd_rest fd) = n * unat w" "rd_pos fd = 0 * unat w" using fd by (simp_all add: fd_rest_def fd_good_def)
  moreover have "bbl_image src (sf_list s) = byte_map whole (0 * unat w)" using s(2) by (simp add: byte_map_def)
  moreover have "w \<noteq> 0" using w(1) by (simp add: word_neq_0_conv)
  ultimately show ?thesis
    using read_normal_blocks[OF s(1) fd(1), where n = n and r = 0] n l w(4) fd(3)
    by (auto simp: sparse_file_read_normal_def do_sparse_file_read_normal_def read_normal_loop.simps[of 0])
qed

end
