(* ===== verification/SpTools.thy ===== *)
theory SpTools imports SpPlain begin

text \<open>
  The command line tools \<open>img2simg\<close> and \<open>simg2img\<close>: what their \<open>main\<close> functions do once the options are
  parsed and the files are open, and the conversion of a plain file to the sparse format and back.
\<close>

section \<open>The tools\<close>

text \<open>
  \<open>img2simg\<close> with the block size and the mode of its options, an open input and an open output. The
  first component of the result is the exit status, \<open>True\<close> for success.
\<close>

definition img2simg ::
  "hole_map \<Rightarrow> env \<Rightarrow> sparse_read_mode \<Rightarrow> u32 \<Rightarrow> fd_state \<Rightarrow> file_sink \<Rightarrow> (bool \<times> file_sink) run option" where
  "img2simg h env mode block_size inp out =
     (if block_size < 1024 \<or> block_size mod 4 \<noteq> 0 then Some (Inr (False, out))
      else let s = sparse_file_verbose (sparse_file_new block_size (of_nat (length (rd_bytes inp))))
           in case sparse_file_read h s (inp\<lparr>rd_pos := 0\<rparr>) mode False of
                None \<Rightarrow> None
              | Some (Inl e) \<Rightarrow> Some (Inl e)
              | Some (Inr (ret, s', _)) \<Rightarrow>
                  if ret \<noteq> 0 then Some (Inr (False, out))
                  else map_option (\<lambda>r. bind_run r (\<lambda>(ret, out', _). Inr (ret = 0, out')))
                         (sparse_file_write env s' out True False))"

text \<open>
  \<open>simg2img\<close> with its open inputs, each with the system it is read on: the descriptor number is used
  again for the next input. Every image is written over the output from its start.
\<close>

fun simg2img :: "(env \<times> fd_state) list \<Rightarrow> file_sink \<Rightarrow> (bool \<times> file_sink) run option" where
  "simg2img [] out = Some (Inr (True, out))"
| "simg2img ((env, inp) # inputs) out =
     (case sparse_file_import inp True False of
        Inl e \<Rightarrow> Some (Inl e)
      | Inr (None, _) \<Rightarrow> Some (Inr (False, out))
      | Inr (Some s, _) \<Rightarrow>
          (case sparse_file_write env s (out\<lparr>fs_pos := 0\<rparr>) False False of
             None \<Rightarrow> None
           | Some (Inl e) \<Rightarrow> Some (Inl e)
           | Some (Inr (ret, out', _)) \<Rightarrow>
               if ret < 0 then Some (Inr (False, out')) else simg2img inputs out'))"

section \<open>There and back\<close>

text \<open>A system with one input file, and a descriptor at its start.\<close>

definition disk :: "u8 list \<Rightarrow> sources" where
  "disk bytes = \<lparr>src_file = \<lambda>_. bytes, src_fd = \<lambda>_. bytes\<rparr>"

definition disk_env :: "u8 list \<Rightarrow> env" where
  "disk_env bytes = \<lparr>env_mmap = \<lambda>fd off n. Inr (bytes_at (unat off) (unat n) bytes), env_open = \<lambda>_. 3,
     env_page_size = 4096\<rparr>"

definition disk_fd :: "u8 list \<Rightarrow> read_result list \<Rightarrow> fd_state" where
  "disk_fd bytes script = \<lparr>rd_fd = 3, rd_bytes = bytes, rd_pos = 0, rd_script = script\<rparr>"

definition no_failure :: "read_result list \<Rightarrow> bool" where
  "no_failure script \<longleftrightarrow> list_all (\<lambda>r. case r of ReadFailed e \<Rightarrow> False | _ \<Rightarrow> True) script"

lemma disk_env_ok: "env_ok (disk_env bytes) (disk bytes)"
  by (simp add: env_ok_def disk_env_def disk_def)

lemma disk_fd_good:
  assumes "length bytes < 2 ^ 63" "no_failure script"
  shows "fd_good (disk bytes) bytes (disk_fd bytes script)" "rd_pos (disk_fd bytes script) = 0"
  using assms by (auto simp: fd_good_def disk_def disk_fd_def no_failure_def list_all_iff)

text \<open>A file of \<open>n\<close> blocks that the tools can convert.\<close>

definition convertible :: "u32 \<Rightarrow> u8 list \<Rightarrow> bool" where
  "convertible w bytes \<longleftrightarrow> 1024 \<le> w \<and> w \<le> MAX_BACKED_BLOCK_SIZE \<and> w mod 4 = 0 \<and> bytes \<noteq> [] \<and>
     length bytes mod unat w = 0 \<and> length bytes div unat w < 2 ^ 31"

lemma convertibleD:
  assumes "convertible w bytes"
  defines "n \<equiv> length bytes div unat w"
  shows "0 < w" "unat w mod 4 = 0" "w \<le> MAX_BACKED_BLOCK_SIZE" "length bytes = n * unat w" "0 < n" "n < 2 ^ 31"
    "length bytes < 2 ^ 63" "\<not> w < 1024" "w mod 4 = 0"
proof -
  show w: "\<not> w < 1024" "w mod 4 = 0" and le: "w \<le> MAX_BACKED_BLOCK_SIZE" and n: "n < 2 ^ 31"
    using assms by (simp_all add: convertible_def not_less)
  have "1024 \<le> unat w" using w(1) by (simp add: word_less_nat_alt)
  then show "0 < w" by (simp add: word_less_nat_alt)
  have "unat (w mod 4) = 0" using w(2) by simp
  then show "unat w mod 4 = 0" by (simp add: unat_mod)
  show eq: "length bytes = n * unat w" using assms(1) div_mult_mod_eq[of "length bytes" "unat w"]
    by (simp add: convertible_def n_def)
  then show "0 < n" using assms(1) by (auto simp: convertible_def intro: Nat.gr0I)
  have "unat w \<le> 64 * 1024 * 1024" using le by (simp add: word_le_nat_alt MAX_BACKED_BLOCK_SIZE_def)
  then have "n * unat w \<le> 2 ^ 31 * (64 * 1024 * 1024)" using n by (intro mult_le_mono) simp_all
  then show "length bytes < 2 ^ 63" using eq by simp
qed

lemma img2simg_ok:
  assumes c: "convertible w bytes" and rd: "no_failure script" and out: "fresh_fd out"
  shows "\<exists>img s. img2simg h (disk_env bytes) SPARSE_READ_MODE_NORMAL w (disk_fd bytes script) out = Some (Inr (True, img)) \<and>
    fs_bytes img = sparse_image (disk bytes) s False \<and> sf_portable (disk bytes) s \<and>
    list_all (\<lambda>b. bb_len b \<le> ucast (split_limit (sf_block_size s))) (sf_blocks s) \<and> unat (sf_len s) = length bytes \<and>
    bbl_image (disk bytes) (sf_list s) = byte_map bytes (length bytes)"
proof -
  let ?n = "length bytes div unat w" and ?src = "disk bytes"
  note cD = convertibleD[OF c] and fd = disk_fd_good[OF convertibleD(7)[OF c] rd]
  let ?s = "(sparse_file_new w (of_nat (length bytes)))\<lparr>sf_verbose := True\<rparr>"
  have u: "unat (of_nat (length bytes) :: u64) = length bytes" using cD(7) by (intro unat_of_nat_small) simp
  have len: "unat (sf_len ?s) = ?n * unat w" using u cD(4) by (simp add: sparse_file_new_def del: of_nat_unat)
  have n32: "?n < 2 ^ 32" using cD(6) by simp
  from read_normal_ok[OF reading_new[OF cD(1,2)] len fd cD(4) n32] obtain s fd' where
    s: "sparse_file_read_normal ?s (disk_fd bytes script) = Inr (0, s, fd')" "reading ?src w ?n s" "sf_len s = sf_len ?s"
    "bbl_image ?src (sf_list s) = byte_map bytes (length bytes)" by blast
  have p: "sf_portable ?src s"
    by (rule reading_writable[OF s(2)]) (use cD len s(3) in simp_all)
  obtain img s' where w: "sparse_file_write (disk_env bytes) s out True False = Some (Inr (0, img, s'))"
    "fs_bytes img = sparse_image ?src s' False" "sf_portable ?src s'"
    "list_all (\<lambda>b. bb_len b \<le> ucast (split_limit (sf_block_size s'))) (sf_blocks s')"
    "sf_len s' = sf_len s" "bbl_image ?src (sf_list s') = bbl_image ?src (sf_list s)"
    using written_image[OF p disk_env_ok out, of False False] by blast
  have "img2simg h (disk_env bytes) SPARSE_READ_MODE_NORMAL w (disk_fd bytes script) out = Some (Inr (True, img))"
    using s(1) w(1) cD(8,9) by (simp add: img2simg_def sparse_file_read_def sparse_file_verbose_def disk_fd_def)
  with w s(3,4) len cD(4) show ?thesis by (intro exI[of _ img] exI[of _ s']) simp
qed

lemma simg2img_ok:
  assumes s: "sf_portable src s" "list_all (\<lambda>b. bb_len b \<le> ucast (split_limit (sf_block_size s))) (sf_blocks s)"
    and rd: "no_failure script" and out: "fresh_fd out"
  shows "\<exists>out'. simg2img [(disk_env (sparse_image src s crc), disk_fd (sparse_image src s crc) script)] out = Some (Inr (True, out')) \<and>
    length (fs_bytes out') = unat (sf_len s) \<and>
    (\<forall>pos<unat (sf_len s). fs_bytes out' ! pos = or_zero (bbl_image src (sf_list s) pos))"
proof -
  let ?img = "sparse_image src s crc"
  note fd = disk_fd_good[OF image_readable(7)[OF s, of crc] rd]
  obtain t x' where t: "sparse_file_import (disk_fd ?img script) True False = Inr (Some t, x')"
    "reading (disk ?img) (sf_block_size s) (unat (sf_len s) div unat (sf_block_size s)) t" "sf_len t = sf_len s"
    "zero_filled (bbl_image src (sf_list s)) (bbl_image (disk ?img) (sf_list t))"
    using import_fd_written[OF s _ fd, of False True] by blast
  have p: "sf_portable (disk ?img) t" by (rule imported_portable[OF s(1) t(2,3)])
  then have wr: "sf_writable (disk ?img) t" "sf_block_size t \<le> MAX_BACKED_BLOCK_SIZE" by (simp_all add: sf_portable_def)
  have out0: "out\<lparr>fs_pos := 0\<rparr> = out" using out by (cases out) (simp add: fresh_fd_def)
  obtain out' t' where w: "sparse_file_write (disk_env ?img) t out False False = Some (Inr (0, out', t'))"
    "length (fs_bytes out') = unat (sf_len t)"
    "\<forall>pos<unat (sf_len t). fs_bytes out' ! pos = or_zero (bbl_image (disk ?img) (sf_list t) pos)"
    using sparse_file_write_expanded_lemma[OF wr disk_env_ok out] by blast
  show ?thesis using t(1,3) w zero_filled_or_zero[OF t(4)] by (simp add: out0)
qed

lemma convert_and_back:
  assumes c: "convertible w bytes" and rd: "no_failure script" "no_failure script'" and out: "fresh_fd out" "fresh_fd out2"
  shows "\<exists>img back1. img2simg h (disk_env bytes) SPARSE_READ_MODE_NORMAL w (disk_fd bytes script) out = Some (Inr (True, img)) \<and>
    simg2img [(disk_env (fs_bytes img), disk_fd (fs_bytes img) script')] out2 = Some (Inr (True, back1)) \<and> fs_bytes back1 = bytes"
proof -
  obtain img s where i: "img2simg h (disk_env bytes) SPARSE_READ_MODE_NORMAL w (disk_fd bytes script) out = Some (Inr (True, img))"
    "fs_bytes img = sparse_image (disk bytes) s False" "sf_portable (disk bytes) s"
    "list_all (\<lambda>b. bb_len b \<le> ucast (split_limit (sf_block_size s))) (sf_blocks s)" "unat (sf_len s) = length bytes"
    "bbl_image (disk bytes) (sf_list s) = byte_map bytes (length bytes)"
    using img2simg_ok[OF c rd(1) out(1)] by blast
  from simg2img_ok[OF i(3,4) rd(2) out(2), of False] obtain b where
    b: "simg2img [(disk_env (fs_bytes img), disk_fd (fs_bytes img) script')] out2 = Some (Inr (True, b))"
    "length (fs_bytes b) = length bytes" "\<forall>pos<length bytes. fs_bytes b ! pos = or_zero (byte_map bytes (length bytes) pos)"
    unfolding i(2)[symmetric] i(5) i(6) by blast
  have "fs_bytes b = bytes" using b(2,3) by (intro nth_equalityI) (simp_all add: byte_map_def or_zero_def)
  with i(1) b(1) show ?thesis by blast
qed

end
