(* ===== verification/SpOverrun.thy ===== *)
theory SpOverrun imports SpTools begin

text \<open>
  Files whose length is not a multiple of the block size: a block that begins inside the file and ends
  behind it. The assertion of \<open>write_all_blocks\<close> does not allow it, so \<open>img2simg\<close> aborts on every such
  file.
\<close>

section \<open>Writing a file that overruns its length\<close>

definition overruns :: "sources \<Rightarrow> sparse_file \<Rightarrow> bool" where
  "overruns src s \<longleftrightarrow> (\<exists>b\<in>set (sf_blocks s). unat (sf_len s) < bb_end (unat (sf_block_size s)) b * unat (sf_block_size s))"

lemma last_is_max:
  assumes "blocks_sorted bs blocks" "b \<in> set blocks" "0 < bs"
  shows "bb_end bs b \<le> bb_end bs (last blocks)"
  using assms
proof (induction blocks)
  case (Cons a blocks)
  moreover have "unat (bb_block (last blocks)) \<le> bb_end bs (last blocks)" by (simp add: bb_end_def)
  ultimately show ?case
    by (cases "blocks = []") (auto simp: blocks_sorted_def before_def dest!: bspec[where x = "last blocks"])
qed simp

lemma backed_in_block:
  assumes "image_map src bs blocks pos \<noteq> None" "0 < bs"
  shows "\<exists>b\<in>set blocks. pos < bb_end bs b * bs"
  using assms(1)
proof (induction blocks)
  case (Cons b blocks)
  show ?case
  proof (cases "bb_map src bs b pos = None")
    case True
    with Cons show ?thesis by (auto simp: map_add_def)
  next
    case False
    then show ?thesis using bb_range[OF assms(2), of b] by (auto simp: bb_map_def split: if_splits)
  qed
qed simp

lemma negative_pad:
  fixes a b :: u64
  assumes "unat a < unat b" "unat b < 2 ^ 63"
  shows "sint (a - b) < 0"
proof (rule ccontr)
  assume "\<not> ?thesis"
  then have "sint (a - b) = int (unat (a - b))" by (intro sint_nonneg_unat) simp
  moreover have "sint (a - b) < 2 ^ 63" using sint_lt[of "a - b"] by simp
  ultimately have "int (unat (a - b)) < int (2 ^ 63)" by simp
  then have "unat (a - b) < 2 ^ 63" by (simp only: of_nat_less_iff)
  moreover have "unat (a - b) = unat a + 2 ^ 64 - unat b" using assms(1) by (simp add: unat_sub_if_size word_size)
  ultimately show False using assms(2) by simp
qed

context byte_sink begin

lemma overrun_aborts:
  assumes ok: "bbl_ok (sf_list s)" "bbl_block_size (sf_list s) = sf_block_size s"
    and rd: "list_all (bb_readable src) (sf_blocks s)" "env_ok env src" and over: "overruns src s"
    and out: "ready out" "of_sparse out" "of_block_size out = sf_block_size s"
  shows "write_all_blocks env s out = Inl CheckFailed"
proof -
  let ?w = "sf_block_size s" and ?P = "\<lambda>out :: 's output_file. ready out \<and> of_sparse out \<and> of_block_size out = sf_block_size s"
  have w: "0 < ?w" "0 < unat ?w" and sorted: "blocks_sorted (unat ?w) (sf_blocks s)"
    using ok by (auto simp: bbl_ok_def word_less_nat_alt)
  obtain b where b: "b \<in> set (sf_blocks s)" "unat (sf_len s) < bb_end (unat ?w) b * unat ?w"
    using over by (auto simp: overruns_def)
  let ?last = "last (sf_blocks s)"
  have ne: "sf_blocks s \<noteq> []" using b(1) by auto
  then have okl: "bb_ok (unat ?w) ?last" using sorted by (auto simp: blocks_sorted_def list_all_iff)
  have P0: "?P out" using out by simp
  have "\<exists>out'. write_blocks env ?w (sf_blocks s) 0 out =
      Inr (0, if sf_blocks s = [] then 0 else block_behind ?w ?last, out') \<and>
    wrote out (block_chunks src (unat ?w) (unat (0 :: u32)) (sf_blocks s) 0) out'"
  proof (rule write_blocks_rel[where P = ?P and R = wrote, OF _ _ _ _ _ w(1) sorted P0])
    show "\<exists>out'. sparse_file_write_block env b out = Inr (0, out') \<and> wrote out [block_chunk src (unat ?w) b] out'"
      if "?P out" "b \<in> set (sf_blocks s)" for out b
      using sparse_block[OF that(1) _ _ rd(2), of b] that(2) rd(1) sorted by (auto simp: list_all_iff blocks_sorted_def)
    show "?P out'" if "wrote out cs out'" "?P out" for out cs out'
      using wrote_ready[OF that(1)] that(2) by simp
  qed (auto intro: wrote_Nil wrote_append sparse_skip)
  then obtain out' where o: "write_blocks env ?w (sf_blocks s) 0 out = Inr (0, block_behind ?w ?last, out')"
    using ne by auto
  have l: "unat (block_behind ?w ?last) = bb_end (unat ?w) ?last" by (rule unat_block_behind[OF w(1) okl])
  have lt: "bb_end (unat ?w) ?last * unat ?w < 2 ^ 63" using okl by (simp add: bb_ok_def)
  let ?n = "ucast (block_behind ?w ?last) * ucast ?w :: u64"
  have n: "unat ?n = bb_end (unat ?w) ?last * unat ?w" "mul_int64 (block_behind ?w ?last) ?w = Inr ?n"
    using lt by (simp_all add: unat_mult_63 mul_int64_def l)
  have "bb_end (unat ?w) b * unat ?w \<le> bb_end (unat ?w) ?last * unat ?w"
    by (intro mult_le_mono1 last_is_max[OF sorted b(1) w(2)])
  with b(2) have "unat (sf_len s) < bb_end (unat ?w) ?last * unat ?w" by (rule less_le_trans)
  then have "sint (sf_len s - ?n) < 0" using lt n(1) by (intro negative_pad) simp_all
  then show ?thesis by (simp add: write_all_blocks_def o n(2) check_def)
qed

end

text \<open>Writing such a file to a descriptor. Splitting keeps the position that is backed.\<close>

lemma write_overrun:
  assumes s: "bbl_ok (sf_list s)" "bbl_block_size (sf_list s) = sf_block_size s" "sf_block_size s \<le> MAX_BACKED_BLOCK_SIZE"
    and rd: "list_all (block_writable src (unat (sf_block_size s)) k) (sf_blocks s)" and env: "env_ok env src"
    and pos: "bbl_image src (sf_list s) pos \<noteq> None" "unat (sf_len s) < (pos div unat (sf_block_size s) + 1) * unat (sf_block_size s)"
    and blks: "signed_div_round_up (sf_len s) (sf_block_size s) = Inr (int n)" and fd: "fresh_fd fd"
  shows "sparse_file_write env s fd True crc = Some (Inl CheckFailed)"
proof -
  let ?w = "sf_block_size s"
  have w: "0 < ?w" "0 < unat ?w" using s by (auto simp: bbl_ok_def word_less_nat_alt)
  obtain l where l: "split_all 0 (sf_list s) = Some l" "bbl_ok l" "bbl_block_size l = ?w"
    "bbl_image src l = bbl_image src (sf_list s)" "list_all (block_writable src (unat ?w) k) (bbl_blocks l)"
    using split_all_ok[OF s(1), of src k 0] s(2,3) rd by auto
  let ?s = "s\<lparr>sf_list := l\<rparr>"
  obtain b where b: "b \<in> set (bbl_blocks l)" "pos < bb_end (unat ?w) b * unat ?w"
    using backed_in_block[of src "unat ?w" "bbl_blocks l" pos] pos(1) w(2) l(3,4) by (auto simp: bbl_image_def s(2))
  have "pos div unat ?w < bb_end (unat ?w) b" using b(2) w(2) by (simp add: div_less_iff_less_mult)
  then have "(pos div unat ?w + 1) * unat ?w \<le> bb_end (unat ?w) b * unat ?w" by (intro mult_le_mono1) simp
  with pos(2) have "unat (sf_len s) < bb_end (unat ?w) b * unat ?w" by (rule less_le_trans)
  then have over: "overruns src ?s" using b(1) by (auto simp: overruns_def)
  have rd': "list_all (bb_readable src) (sf_blocks ?s)" using l(5) by (auto simp: block_writable_def list_all_iff)
  obtain c where c: "sparse_count_chunks ?s = Inr c"
    using blks by (cases "count_chunks ?w (bbl_blocks l) 0 0") (simp add: sparse_count_chunks_def)
  have ex: "file_exact fd" using fd by (simp add: file_exact_def fresh_fd_def)
  obtain out where out: "output_file_open_fd fd ?w (sf_len s) True c crc = Inr (Inr out)" "fd_bytes.ready out"
    "of_sparse out" "of_block_size out = ?w"
    using fd_bytes.open_sparse[OF ex w(1) blks, of c crc] by (auto simp: output_file_open_fd_def)
  have "write_all_blocks env ?s out = Inl CheckFailed"
    by (rule fd_bytes.overrun_aborts[OF _ _ rd' env over out(2,3)]) (use l out(4) in simp_all)
  then show ?thesis using w(1) l(1) c out(1)
    by (simp add: sparse_file_write_def write_to_def word_neq_0_conv Let_def)
qed

section \<open>Reading a last block that is not full\<close>

text \<open>
  \<open>n\<close> full blocks and \<open>r\<close> bytes. The block list that results is well formed, reaches past the length of
  the file and has the first byte of its last block behind it.
\<close>

lemma div_up_one: "0 < r \<Longrightarrow> r \<le> bs \<Longrightarrow> div_up r bs = 1"
  unfolding div_up_def by (rule div_nat_eqI) simp_all

lemma read_normal_partial:
  assumes s: "reading src w 0 s" "bbl_image src (sf_list s) = Map.empty" "unat (sf_len s) = n * unat w + r"
    and fd: "fd_good src whole fd" "rd_pos fd = 0" "length whole = n * unat w + r"
    and n: "n + 1 < 2 ^ 32" "0 < r" "r < unat w" "(n + 1) * unat w < 2 ^ 63"
  shows "\<exists>s' fd'. sparse_file_read_normal s fd = Inr (0, s', fd') \<and> reading src w (n + 1) s' \<and> sf_len s' = sf_len s \<and>
    bbl_image src (sf_list s') (n * unat w) \<noteq> None"
proof -
  note w = readingD[OF s(1)]
  let ?bs = "unat w"
  define off where "off = (of_nat (n * ?bs) :: u64)"
  have small: "unat (sf_len s) < 2 ^ 63" using s(3) n by simp
  have l: "nat (sint (sf_len s)) = n * ?bs + r" using small by (simp only: sint_small nat_int s(3))
  have pre: "length (fd_rest fd) = n * ?bs + r" "rd_pos fd = 0 * ?bs" "bbl_image src (sf_list s) = byte_map whole (0 * ?bs)"
    using fd s(2) by (simp_all add: fd_rest_def fd_good_def byte_map_def)
  obtain s1 fd1 where one: "read_normal_loop (n * ?bs + r) 0 0 s fd = read_normal_loop r off (of_nat n) s1 fd1"
    "rd_pos fd1 = n * ?bs" "reading src w n s1" "fd_good src whole fd1" "sf_len s1 = sf_len s"
    using read_normal_blocks[OF s(1) fd(1) pre(2,1) _ pre(3)] n(1) by (auto simp: off_def)
  have "r \<le> length (fd_rest fd1)" using one(2,4) fd(3) by (simp add: fd_rest_def fd_good_def)
  from read_all_ok[OF one(4) this] obtain fd2 where fd2: "read_all r fd1 = (0, take r (fd_rest fd1), fd2)" by blast
  let ?b = "\<lparr>bb_block = of_nat n, bb_len = of_nat r, bb_backing = BB_FD (rd_fd fd1) off\<rparr>"
  have u: "unat (of_nat n :: u32) = n" "unat (of_nat r :: u64) = r" "unat off = n * ?bs"
    unfolding off_def by (rule unat_of_nat_small, use n in simp)+
  have e: "bb_end ?bs ?b = n + 1" using div_up_one[of r ?bs] n by (simp add: bb_end_def u)
  have wh: "length whole < 2 ^ 63" "src_fd src (rd_fd fd1) = whole" using one(4) by (simp_all add: fd_good_def)
  have "bb_ok ?bs ?b" using n wh(1) fd(3) by (simp add: bb_ok_def e u word_less_nat_alt)
  moreover have "apart_from ?bs ?b (sf_blocks s1)"
    using one(3) by (auto simp: apart_from_def before_def u reading_def list_all_iff block_writable_def)
  moreover have "block_writable src ?bs (n + 1) ?b"
    using fd(3) by (simp add: block_writable_def bb_readable_def fill_aligned_def e u wh)
  moreover have "list_all (block_writable src ?bs (n + 1)) (sf_blocks s1)" "bbl_ok (sf_list s1)" "bbl_block_size (sf_list s1) = w"
    using one(3) reading_mono[OF one(3), of "n + 1"] by (simp_all add: reading_def)
  ultimately obtain s2 where s2: "with_list s1 (queue_bb (sf_list s1) ?b) = Inr s2" "reading src w (n + 1) s2" "sf_len s2 = sf_len s1"
    "bbl_image src (sf_list s2) = bbl_image src (sf_list s1) ++ bb_map src ?bs ?b"
    using queue_bb_ok[of "sf_list s1" ?b src "block_writable src ?bs (n + 1)"] merge_closed_writable[OF w(1,3)] one(3)
    by (auto simp: with_list_def reading_def)
  have "bb_map src ?bs ?b (n * ?bs) \<noteq> None"
    using n fd(3) by (simp add: bb_map_def bb_start_def u wh byte_of_def)
  then have image: "bbl_image src (sf_list s2) (n * ?bs) \<noteq> None" by (auto simp: s2(4) map_add_def split: option.splits)
  have "read_normal_loop r off (of_nat n) s1 fd1 = Inr (0, s2, fd2)"
    unfolding read_normal_loop.simps[of r] readingD(4)[OF one(3)] Let_def using n fd2 s2(1)
    by (simp add: read_normal_loop.simps[of 0] sparse_file_add_fd_def backed_block_add_fd_def)
  moreover have "w \<noteq> 0" using w(1) by (simp add: word_neq_0_conv)
  ultimately have "sparse_file_read_normal s fd = Inr (0, s2, fd2)" using one(1) l w(4)
    by (simp add: sparse_file_read_normal_def do_sparse_file_read_normal_def)
  with image s2(2,3) one(5) show ?thesis by auto
qed

section \<open>Converting such a file\<close>

lemma signed_div_up_ok:
  assumes "0 < w" "unat len + unat w < 2 ^ 63"
  shows "\<exists>n. signed_div_round_up len w = Inr (int n)"
proof -
  have d: "0 < unat w" using assms(1) by (simp add: word_less_nat_alt)
  have "sint len = int (unat len)" by (rule sint_small) (use assms(2) in simp)
  then have n: "sint len + int (unat w) - 1 = int (unat len + unat w - 1)" using d by linarith
  have "int (unat len + unat w) < int (2 ^ 63)" using assms(2) by (simp only: of_nat_less_iff)
  then have "(2 ^ 63 \<le> sint len + int (unat w)) = False" using \<open>sint len = int (unat len)\<close> by simp
  moreover have "(int (unat w) = 0) = False" using d by (simp del: of_nat_unat)
  ultimately have "signed_div_round_up len w = Inr (int ((unat len + unat w - 1) div unat w))"
    by (simp only: signed_div_round_up_def Let_def if_False n of_nat_less_0_iff zdiv_int[symmetric])
  then show ?thesis by blast
qed

lemma img2simg_partial:
  assumes w: "1024 \<le> w" "w \<le> MAX_BACKED_BLOCK_SIZE" "w mod 4 = 0"
    and len: "length bytes mod unat w \<noteq> 0" "length bytes div unat w < 2 ^ 31"
    and rd: "no_failure script" and out: "fresh_fd out"
  shows "img2simg h (disk_env bytes) SPARSE_READ_MODE_NORMAL w (disk_fd bytes script) out = Some (Inl CheckFailed)"
proof -
  let ?bs = "unat w"
  define n where "n = length bytes div ?bs"
  define r where "r = length bytes mod ?bs"
  have w0: "0 < w" "?bs mod 4 = 0" "\<not> w < 1024"
  proof -
    show "\<not> w < 1024" using w(1) by simp
    have "1024 \<le> ?bs" using w(1) by (simp add: word_le_nat_alt)
    then show "0 < w" by (simp add: word_less_nat_alt)
    have "unat (w mod 4) = 0" using w(3) by simp
    then show "?bs mod 4 = 0" by (simp add: unat_mod)
  qed
  have bs: "0 < ?bs" using w0(1) by (simp add: word_less_nat_alt)
  have le: "?bs \<le> 64 * 1024 * 1024" using w(2) by (simp add: word_le_nat_alt MAX_BACKED_BLOCK_SIZE_def)
  have eq: "length bytes = n * ?bs + r" and r: "0 < r" "r < ?bs" and n: "n < 2 ^ 31"
    using len bs by (simp_all add: n_def r_def)
  have "(n + 2) * ?bs \<le> (2 ^ 31 + 1) * (64 * 1024 * 1024)" using n le by (intro mult_le_mono) simp_all
  then have fits: "(n + 2) * ?bs < 2 ^ 63" by simp
  then have small: "length bytes + ?bs < 2 ^ 63" using eq r by simp
  let ?s = "(sparse_file_new w (of_nat (length bytes)))\<lparr>sf_verbose := True\<rparr>" and ?src = "disk bytes"
  have u: "unat (sf_len ?s) = length bytes" using small by (simp add: sparse_file_new_def unat_of_nat_small del: of_nat_unat)
  have "length bytes < 2 ^ 63" using small by simp
  note fd = disk_fd_good[OF this rd]
  have n1: "n + 1 < 2 ^ 32" "(n + 1) * ?bs < 2 ^ 63" using n fits by simp_all
  obtain s fd' where s: "sparse_file_read_normal ?s (disk_fd bytes script) = Inr (0, s, fd')" "reading ?src w (n + 1) s"
    "sf_len s = sf_len ?s" "bbl_image ?src (sf_list s) (n * ?bs) \<noteq> None"
    using read_normal_partial[OF reading_new[OF w0(1,2)] u[unfolded eq] fd eq n1(1) r n1(2)] unfolding eq by blast
  have D: "sf_block_size s = w" "bbl_ok (sf_list s)" "bbl_block_size (sf_list s) = w"
    "list_all (block_writable ?src ?bs (n + 1)) (sf_blocks s)"
    using s(2) by (simp_all add: reading_def)
  obtain m where m: "signed_div_round_up (sf_len s) w = Inr (int m)"
    using signed_div_up_ok[OF w0(1), of "sf_len s"] small u s(3) by auto
  have "sparse_file_write (disk_env bytes) s out True False = Some (Inl CheckFailed)"
    by (rule write_overrun[OF D(2) _ _ _ disk_env_ok s(4) _ _ out, unfolded D(1), OF D(3) w(2) D(4) _ m])
      (use u s(3) eq r bs in simp)
  then show ?thesis using s(1) w(3) w0(3)
    by (simp add: img2simg_def sparse_file_read_def sparse_file_verbose_def disk_fd_def)
qed

end
