(* ===== verification/SpCut.thy ===== *)
theory SpCut imports SpRoundtrip begin

text \<open>
  \<open>move_chunks_up_to_len\<close>: how many bytes the chunks of a block list take, and which prefix of the list
  the loop cuts off.
\<close>

section \<open>The bytes of a block list\<close>

text \<open>The bytes of the chunks of some blocks, without header, crc and the gap behind the last block.\<close>

definition list_bytes :: "sources \<Rightarrow> nat \<Rightarrow> nat \<Rightarrow> backed_block list \<Rightarrow> nat" where
  "list_bytes src bs last0 blocks = length (concat (map (chunk_bytes bs) (block_chunks src bs last0 blocks 0)))"

definition block_bytes :: "sources \<Rightarrow> nat \<Rightarrow> backed_block \<Rightarrow> nat" where
  "block_bytes src bs b = length (chunk_bytes bs (block_chunk src bs b))"

definition list_end :: "nat \<Rightarrow> backed_block list \<Rightarrow> nat" where
  "list_end bs blocks = (if blocks = [] then 0 else bb_end bs (last blocks))"

lemma list_end_simps [simp]: "list_end bs [] = 0" "list_end bs (xs @ [b]) = bb_end bs b"
  by (simp_all add: list_end_def)

lemma block_chunks_append:
  "block_chunks src bs last0 (xs @ ys) n =
    block_chunks src bs last0 xs 0 @ block_chunks src bs (if xs = [] then last0 else bb_end bs (last xs)) ys n"
  by (induction xs arbitrary: last0) (auto simp: gap_chunk_def)

lemma list_bytes_snoc:
  "list_bytes src bs 0 (xs @ [b]) = list_bytes src bs 0 xs +
    (if list_end bs xs < unat (bb_block b) then 12 else 0) + block_bytes src bs b"
  by (simp add: list_bytes_def block_bytes_def list_end_def block_chunks_append gap_chunk_def chunk_image_def
      chunk_hdr.length_image CHUNK_HEADER_LEN_def)

lemma block_bytes_le:
  assumes "0 < bs" "bb_readable src b"
  shows "block_bytes src bs b \<le> 16 + div_up (unat (bb_len b)) bs * bs"
  using assms by (cases "bb_backing b")
    (simp_all add: block_bytes_def block_chunk_def chunk_image_def chunk_hdr.length_image CHUNK_HEADER_LEN_def
      length_pad_to length_block_data)

text \<open>A block of at most \<open>m\<close> bytes, a multiple of the block size.\<close>

lemma block_bytes_short:
  assumes "0 < bs" "bb_readable src b" "unat (bb_len b) \<le> m" "m mod bs = 0" "4 \<le> m"
  shows "block_bytes src bs b \<le> 12 + m"
proof -
  have "div_up (unat (bb_len b)) bs * bs \<le> div_up m bs * bs"
    using assms(3) by (intro mult_le_mono1 div_up_mono)
  also have "\<dots> = m" using div_up_exact[OF assms(1,4)] assms(4) div_mult_mod_eq[of m bs] by simp
  finally show ?thesis using assms(1,2,5)
    by (cases "bb_backing b")
      (simp_all add: block_bytes_def block_chunk_def chunk_image_def chunk_hdr.length_image CHUNK_HEADER_LEN_def
        length_pad_to length_block_data)
qed

section \<open>The loop\<close>

text \<open>A block list whose blocks can be written, inside \<open>k\<close> blocks.\<close>

definition writable_list :: "sources \<Rightarrow> u32 \<Rightarrow> nat \<Rightarrow> backed_block_list \<Rightarrow> bool" where
  "writable_list src w k l \<longleftrightarrow> bbl_ok l \<and> bbl_block_size l = w \<and> list_all (block_writable src (unat w) k) (bbl_blocks l) \<and>
     k * unat w < 2 ^ 62"

lemma writable_listD:
  assumes "writable_list src w k l"
  shows "0 < w" "0 < unat w" "unat w mod 4 = 0" "4 \<le> unat w" "blocks_sorted (unat w) (bbl_blocks l)"
proof -
  show w: "0 < w" "0 < unat w" "unat w mod 4 = 0" and "blocks_sorted (unat w) (bbl_blocks l)"
    using assms by (auto simp: writable_list_def bbl_ok_def word_less_nat_alt)
  then show "4 \<le> unat w" by presburger
qed

lemma writable_block:
  assumes l: "writable_list src w k l" and b: "b \<in> set (bbl_blocks l)"
  shows "bb_ok (unat w) b" "bb_readable src b" "block_bytes src (unat w) b < 2 ^ 62 + 16"
proof -
  show ok: "bb_ok (unat w) b" "bb_readable src b"
    using l b writable_listD(5)[OF l] by (auto simp: writable_list_def blocks_sorted_def list_all_iff block_writable_def)
  have "div_up (unat (bb_len b)) (unat w) * unat w \<le> k * unat w"
    using l b by (intro mult_le_mono1) (auto simp: writable_list_def list_all_iff block_writable_def bb_end_def)
  then show "block_bytes src (unat w) b < 2 ^ 62 + 16"
    using block_bytes_le[OF writable_listD(2)[OF l] ok(2)] l unfolding writable_list_def by linarith
qed

text \<open>A prefix of a list that the loop may cut off.\<close>

definition cut_ok :: "sources \<Rightarrow> u32 \<Rightarrow> nat \<Rightarrow> nat \<Rightarrow> backed_block_list \<Rightarrow> cut_result \<Rightarrow> bool" where
  "cut_ok src w k len l c = (case c of
     Done \<Rightarrow> list_bytes src (unat w) 0 (bbl_blocks l) \<le> len
   | Stop l' j \<Rightarrow> writable_list src w k l' \<and> bbl_image src l' = bbl_image src l \<and> j < length (bbl_blocks l') \<and>
       list_bytes src (unat w) 0 (take (Suc j) (bbl_blocks l')) \<le> len + 12 \<and>
       sum_list (map (unat \<circ> bb_len) (bbl_blocks l')) = sum_list (map (unat \<circ> bb_len) (bbl_blocks l))
   | Abort \<Rightarrow> False)"

lemma split_sum:
  assumes l: "writable_list src w k l" and i: "i < length (bbl_blocks l)" and n: "w \<le> n"
  shows "sum_list (map (unat \<circ> bb_len) (bbl_blocks (backed_block_split l i n))) = sum_list (map (unat \<circ> bb_len) (bbl_blocks l))"
proof -
  let ?m = "align_down n w" and ?b = "bbl_blocks l ! i"
  have bs: "bbl_block_size l = w" using l by (simp add: writable_list_def)
  have d: "bbl_blocks l = take i (bbl_blocks l) @ ?b # drop (Suc i) (bbl_blocks l)" by (rule id_take_nth_drop[OF i])
  note b = writable_block[OF l nth_mem[OF i]] and w = writable_listD[OF l]
  have wr: "block_writable src (unat w) k ?b" using l i by (simp add: writable_list_def list_all_length)
  show ?thesis
  proof (cases "bb_len ?b \<le> ucast ?m")
    case True
    then show ?thesis by (simp add: backed_block_split_def Let_def bs)
  next
    case False
    obtain b1 b2 where s: "split_blocks w ?b ?m = (b1, b2)" by force
    have sum: "unat (bb_len b1) + unat (bb_len b2) = unat (bb_len ?b)"
      by (rule split_blocks_writable(3)[OF w(1,3) b(1) n False s wr])
    have "bbl_blocks (backed_block_split l i n) = take i (bbl_blocks l) @ b1 # b2 # drop (Suc i) (bbl_blocks l)"
      using False s by (simp add: backed_block_split_def Let_def bs)
    moreover have "sum_list (map (unat \<circ> bb_len) (bbl_blocks l)) =
        sum_list (map (unat \<circ> bb_len) (take i (bbl_blocks l) @ ?b # drop (Suc i) (bbl_blocks l)))"
      by (rule arg_cong[OF d])
    ultimately show ?thesis using sum by simp
  qed
qed

lemma cut_split_ok:
  assumes l: "writable_list src w k l" and i: "i < length (bbl_blocks l)" and n: "w \<le> n"
    and len: "list_bytes src (unat w) 0 (take i (bbl_blocks l)) + 12 + unat n = len"
  shows "cut_ok src w k len l (Stop (backed_block_split l i n) i)"
proof -
  let ?l = "backed_block_split l i n" and ?bs = "unat w"
  have bs: "bbl_block_size l = w" and ok: "bbl_ok l" and wr: "list_all (block_writable src ?bs k) (bbl_blocks l)"
    using l by (simp_all add: writable_list_def)
  note w = writable_listD[OF l] and ad = align_down_props[OF n writable_listD(1)[OF l]]
  note sp = backed_block_split_ok[OF ok i, unfolded bs, OF n] and st = split_step[OF ok i, unfolded bs, OF n wr]
  have wl: "writable_list src w k ?l" using sp(1) st(1,2) l by (simp add: writable_list_def)
  let ?b = "bbl_blocks ?l ! i"
  have b: "bb_readable src ?b" using writable_block(2)[OF wl nth_mem[OF st(3)]] .
  have "unat (bb_len ?b) \<le> unat (align_down n w)" using sp(3) by (simp add: word_le_nat_alt)
  moreover have "unat (align_down n w) mod ?bs = 0" by (simp add: ad(2))
  moreover have "4 \<le> unat (align_down n w)"
  proof -
    have "unat (align_down n w) \<noteq> 0" using ad(1) by (simp add: word_less_nat_alt)
    then have "0 < unat (n div w)" by (simp only: ad(2) mult_eq_0_iff) simp
    then have "1 * ?bs \<le> unat (n div w) * ?bs" by (intro mult_le_mono1) simp
    then show ?thesis unfolding ad(2) using w(4) by linarith
  qed
  ultimately have "block_bytes src ?bs ?b \<le> 12 + unat (align_down n w)" by (rule block_bytes_short[OF w(2) b])
  also have "\<dots> \<le> 12 + unat n" using ad(3) by (simp add: word_le_nat_alt)
  finally have "block_bytes src ?bs ?b \<le> 12 + unat n" .
  then have "list_bytes src ?bs 0 (take (Suc i) (bbl_blocks ?l)) \<le> len + 12"
    using len by (simp add: take_Suc_conv_app_nth[OF st(3)] st(4) list_bytes_snoc)
  then show ?thesis using wl sp(2) st(3) split_sum[OF l i n] by (simp add: cut_ok_def)
qed

definition behind :: "u32 \<Rightarrow> backed_block list \<Rightarrow> u32" where
  "behind w xs = (if xs = [] then 0 else block_behind w (last xs))"

lemma sint_of_nat_small: "n < 2 ^ 63 \<Longrightarrow> sint (of_nat n :: u64) = int n"
  by (subst sint_small) (simp_all add: unat_of_nat_small del: of_nat_unat)

lemma cut_loop_ok:
  assumes l: "writable_list src w k l" and env: "env_ok env src"
    and len: "unat w + 12 \<le> unat len" "8 * unat w \<le> unat len"
    and out: "counter_sink.ready out" "of_sparse out" "of_block_size out = w"
    and i: "bbl_blocks l = xs @ bbs" "last_block = behind w xs"
    and fits: "file_len = int (list_bytes src (unat w) 0 xs)" "list_bytes src (unat w) 0 xs \<le> unat len"
  shows "\<exists>c. cut_loop env l w len bbs (length xs) last_block file_len out = Inr c \<and> cut_ok src w k (unat len) l c \<and>
    (\<forall>l' j. c = Stop l' j \<longrightarrow> bbl_blocks l \<noteq> [])"
  using out i fits
proof (induction bbs arbitrary: xs last_block file_len out)
  case Nil
  then show ?case by (simp add: cut_ok_def)
next
  case (Cons b bbs)
  note w = writable_listD[OF l]
  have b: "b \<in> set (bbl_blocks l)" using Cons.prems(4) by simp
  note wb = writable_block[OF l b]
  let ?gap = "if list_end (unat w) xs < unat (bb_block b) then 12 else (0 :: nat)"
  have end_xs: "unat (behind w xs) = list_end (unat w) xs"
    using unat_block_behind[OF w(1)] writable_block(1)[OF l] Cons.prems(4)
    by (cases "xs = []") (simp_all add: behind_def list_end_def)
  let ?start = "if bb_block b > last_block then 12 else 0 :: u64"
  have start: "?start = of_nat ?gap" by (simp add: Cons.prems(5) end_xs word_less_nat_alt)
  let ?out = "out\<lparr>of_sink := ?start\<rparr>"
  have P: "counter_sink.ready ?out \<and> of_sparse ?out \<and> of_block_size ?out = w"
    using Cons.prems(1-3) by (simp add: counter_sink.ready_def)
  obtain out' where o: "sparse_file_write_block env b ?out = Inr (0, out')"
    "counter_sink.wrote ?out [block_chunk src (unat w) b] out'"
    using counter_sink.sparse_block[OF P wb(1,2) env] by blast
  have o': "counter_sink.ready out'" "of_sparse out'" "of_block_size out' = w"
    using counter_sink.wrote_ready[OF o(2)] P by simp_all
  let ?n = "?gap + block_bytes src (unat w) b"
  have "of_sink out' = of_nat ?n"
    using o(2) Cons.prems(3) by (simp add: counter_sink.wrote_def count_bytes_def start block_bytes_def Let_def)
  moreover have "?n < 2 ^ 63" using wb(3) by simp
  ultimately have count: "sint (of_sink out') = int ?n" by (simp only: sint_of_nat_small)
  let ?xs = "xs @ [b]"
  have bytes: "list_bytes src (unat w) 0 ?xs = list_bytes src (unat w) 0 xs + ?n" by (simp add: list_bytes_snoc)
  show ?case
  proof (cases "list_bytes src (unat w) 0 ?xs \<le> unat len")
    case True
    have "bbl_blocks l = ?xs @ bbs" "block_behind w b = behind w ?xs" "file_len + int ?n = int (list_bytes src (unat w) 0 ?xs)"
      using Cons.prems(4,6) by (simp_all add: behind_def bytes)
    from Cons.IH[OF o' this True] have
      "\<exists>c. cut_loop env l w len bbs (length ?xs) (block_behind w b) (file_len + int ?n) out' = Inr c \<and>
        cut_ok src w k (unat len) l c \<and> (\<forall>l' j. c = Stop l' j \<longrightarrow> bbl_blocks l \<noteq> [])" .
    moreover have "\<not> file_len + int ?n > int (unat len)" using True by (simp add: Cons.prems(6) bytes del: of_nat_unat)
    ultimately show ?thesis by (simp add: o(1) count del: of_nat_add of_nat_unat)
  next
    case False
    then have over: "file_len + int ?n > int (unat len)" by (simp add: Cons.prems(6) bytes del: of_nat_unat)
    let ?left = "int (unat len) - (file_len + 12)"
    have ne: "bbl_blocks l \<noteq> []" using b by auto
    show ?thesis
    proof (cases "length xs = 0 \<or> ?left > int (unat (len div 8))")
      case True
      define n where "n = unat len - (list_bytes src (unat w) 0 xs + 12)"
      have big: "unat w \<le> n \<and> list_bytes src (unat w) 0 xs + 12 + n = unat len"
      proof (cases "xs = []")
        case True
        then show ?thesis using len by (simp add: n_def list_bytes_def gap_chunk_def)
      next
        case False
        then have "?left > int (unat len div 8)" using True by (simp add: unat_div del: of_nat_unat)
        moreover have "unat w \<le> unat len div 8" using len(2) by linarith
        ultimately show ?thesis unfolding n_def Cons.prems(6) by linarith
      qed
      have nat_n: "?left = int n" using big by (simp add: Cons.prems(6) del: of_nat_unat)
      have un: "unat (word_of_int ?left :: u32) = n"
      proof -
        have "n < 2 ^ 32" using conjunct2[OF big] unat_u32_lt[of len] by (simp del: unat_u32_lt)
        then show ?thesis unfolding nat_n by (simp add: unat_of_nat_small)
      qed
      have i: "length xs < length (bbl_blocks l)" using Cons.prems(4) by simp
      have "w \<le> word_of_int ?left" unfolding word_le_nat_alt un using big by simp
      moreover have "list_bytes src (unat w) 0 (take (length xs) (bbl_blocks l)) + 12 + unat (word_of_int ?left :: u32) = unat len"
        unfolding un using big by (simp add: Cons.prems(4))
      ultimately have "cut_ok src w k (unat len) l (Stop (backed_block_split l (length xs) (word_of_int ?left)) (length xs))"
        by (rule cut_split_ok[OF l i])
      then show ?thesis using True over ne by (simp add: o(1) count del: of_nat_add of_nat_unat)
    next
      case False
      then have xs: "xs \<noteq> []" by auto
      have "take (Suc (length xs - 1)) (bbl_blocks l) = xs" using xs by (simp add: Cons.prems(4))
      then have "cut_ok src w k (unat len) l (Stop l (length xs - 1))"
        using l Cons.prems(4,7) xs by (simp add: cut_ok_def less_Suc_eq_le)
      then show ?thesis using False over ne by (simp add: o(1) count del: of_nat_add of_nat_unat)
    qed
  qed
qed

end
