(* ===== verification/SpResparse.thy ===== *)
theory SpResparse imports SpCut begin

text \<open>
  \<open>sparse_file_resparse\<close>: cutting a file into pieces of at most \<open>max_len\<close> bytes. The loop ends, the
  blocks of the pieces one after the other are a block list with the image of the file, and every piece
  fits.
\<close>

section \<open>One piece\<close>

lemma blocks_sorted_append:
  "blocks_sorted bs (xs @ ys) \<longleftrightarrow> blocks_sorted bs xs \<and> blocks_sorted bs ys \<and> (\<forall>x\<in>set xs. \<forall>y\<in>set ys. before bs x y)"
  by (auto simp: blocks_sorted_def sorted_wrt_append)

lemma blocks_sorted_ok: "blocks_sorted bs xs \<Longrightarrow> b \<in> set xs \<Longrightarrow> bb_ok bs b"
  by (auto simp: blocks_sorted_def list_all_iff)

lemma blocks_sorted_Nil [simp]: "blocks_sorted bs []"
  by (simp add: blocks_sorted_def)

abbreviation block_sum :: "backed_block list \<Rightarrow> nat" where
  "block_sum blocks \<equiv> sum_list (map (unat \<circ> bb_len) blocks)"

text \<open>\<open>len\<close> is what is left of \<open>max_len\<close> for chunks; below eight blocks the loop may split at 0.\<close>

definition enough :: "u32 \<Rightarrow> u32 \<Rightarrow> bool" where
  "enough w max_len \<longleftrightarrow> 68 + 8 * unat w \<le> unat max_len"

definition fits_in :: "sources \<Rightarrow> u32 \<Rightarrow> u32 \<Rightarrow> backed_block list \<Rightarrow> bool" where
  "fits_in src w max_len blocks \<longleftrightarrow> 44 + list_bytes src (unat w) 0 blocks \<le> unat max_len"

lemma new_file [simp]:
  "sf_block_size (sparse_file_new w len) = w" "sf_len (sparse_file_new w len) = len"
  "sf_blocks (sparse_file_new w len) = []" "bbl_block_size (sf_list (sparse_file_new w len)) = w"
  by (simp_all add: sparse_file_new_def backed_block_list_new_def)

lemma counter_open:
  assumes "0 < w" "signed_div_round_up len w = Inr (int n)"
  shows "\<exists>out. output_file_open_callback out_counter_write 0 w len True 0 False = Inr (Inr out) \<and>
    counter_sink.ready out \<and> of_sparse out \<and> of_block_size out = w"
  using counter_sink.open_sparse[OF _ assms, of 0 0 False] by (auto simp: output_file_open_callback_def)

lemma move_prefix:
  assumes "j < length (bbl_blocks l)" "bbl_blocks dst = []"
  shows "backed_block_list_move l dst (Some 0) (Some j) =
    (l\<lparr>bbl_blocks := drop (Suc j) (bbl_blocks l), bbl_last_used := None\<rparr>,
     dst\<lparr>bbl_blocks := take (Suc j) (bbl_blocks l), bbl_last_used := None\<rparr>)"
  using assms by (auto simp: backed_block_list_move_def Let_def insert_run_def)

lemma writable_part:
  assumes "writable_list src w k l" "bbl_blocks l = xs @ ys" "bbl_blocks l' = xs \<or> bbl_blocks l' = ys"
    and "bbl_block_size l' = w" "bbl_last_used l' = None"
  shows "writable_list src w k l'"
  using assms by (auto simp: writable_list_def bbl_ok_def blocks_sorted_append)

lemma one_piece:
  assumes l: "writable_list src w k (sf_list from)" "sf_block_size from = w" and env: "env_ok env src"
    and len: "enough w max_len" "signed_div_round_up (sf_len from) w = Inr (int n)"
  shows "\<exists>further from' to. move_chunks_up_to_len env from (sparse_file_new w (sf_len from)) max_len = Inr (0, further, from', to) \<and>
    sf_block_size from' = w \<and> sf_len from' = sf_len from \<and> writable_list src w k (sf_list from') \<and>
    sf_block_size to = w \<and> sf_len to = sf_len from \<and> writable_list src w k (sf_list to) \<and>
    blocks_sorted (unat w) (sf_blocks to @ sf_blocks from') \<and>
    image_map src (unat w) (sf_blocks to @ sf_blocks from') = image_map src (unat w) (sf_blocks from) \<and>
    fits_in src w max_len (sf_blocks to) \<and> (if further then block_sum (sf_blocks from') < block_sum (sf_blocks from) else sf_blocks from' = [])"
proof -
  let ?to = "sparse_file_new w (sf_len from)" and ?len = "max_len - chunk_overhead" and ?l = "sf_list from"
  note w = writable_listD[OF l(1)]
  have "unat chunk_overhead = 56" by (simp add: chunk_overhead_def)
  moreover from this have "chunk_overhead \<le> max_len" using len(1) by (simp add: enough_def word_le_nat_alt)
  ultimately have ul: "unat ?len = unat max_len - 56" "56 \<le> unat max_len" using len(1) by (simp_all add: unat_sub enough_def)
  then have room: "unat w + 12 \<le> unat ?len" "8 * unat w \<le> unat ?len" using len(1) by (simp_all add: enough_def)
  obtain out where out: "output_file_open_callback out_counter_write 0 w (sf_len from) True 0 False = Inr (Inr out)"
    "counter_sink.ready out" "of_sparse out" "of_block_size out = w"
    using counter_open[OF w(1) len(2)] by blast
  have "0 = int (list_bytes src (unat w) 0 [])" "list_bytes src (unat w) 0 [] \<le> unat ?len"
    by (simp_all add: list_bytes_def gap_chunk_def)
  from cut_loop_ok[OF l(1) env room out(2-4), of "[]" "sf_blocks from" 0 0] this obtain c where
    c: "cut_loop env ?l w ?len (sf_blocks from) 0 0 0 out = Inr c" "cut_ok src w k (unat ?len) ?l c"
    by (auto simp: behind_def)
  have bs: "bbl_block_size ?l = w" using l(1) by (simp add: writable_list_def)
  show ?thesis
  proof (cases c)
    case (Stop l' j)
    let ?from = "from\<lparr>sf_list := l'\<lparr>bbl_blocks := drop (Suc j) (bbl_blocks l'), bbl_last_used := None\<rparr>\<rparr>"
    let ?new = "?to\<lparr>sf_list := (sf_list ?to)\<lparr>bbl_blocks := take (Suc j) (bbl_blocks l'), bbl_last_used := None\<rparr>\<rparr>"
    have s: "writable_list src w k l'" "bbl_image src l' = bbl_image src ?l" "j < length (bbl_blocks l')"
      "list_bytes src (unat w) 0 (take (Suc j) (bbl_blocks l')) \<le> unat ?len + 12"
      "block_sum (bbl_blocks l') = block_sum (sf_blocks from)"
      using c(2) by (simp_all add: Stop cut_ok_def)
    have bs': "bbl_block_size l' = w" using s(1) by (simp add: writable_list_def)
    have cat: "bbl_blocks l' = take (Suc j) (bbl_blocks l') @ drop (Suc j) (bbl_blocks l')" by simp
    have "move_chunks_up_to_len env from ?to max_len = Inr (0, True, ?from, ?new)"
      using out(1) c(1) move_prefix[OF s(3), of "sf_list ?to"] by (simp add: move_chunks_up_to_len_def Let_def Stop)
    moreover have "writable_list src w k (sf_list ?from)" "writable_list src w k (sf_list ?new)"
      by (rule writable_part[OF s(1) cat]; simp add: bs')+
    moreover have "block_sum (drop (Suc j) (bbl_blocks l')) < block_sum (bbl_blocks l')"
    proof -
      have "0 < unat (bb_len (bbl_blocks l' ! j))"
        using writable_block(1)[OF s(1) nth_mem[OF s(3)]] by (simp add: bb_ok_def word_less_nat_alt)
      then have "0 < block_sum (take (Suc j) (bbl_blocks l'))" using s(3) by (simp add: take_Suc_conv_app_nth)
      moreover have "block_sum (bbl_blocks l') = block_sum (take (Suc j) (bbl_blocks l')) + block_sum (drop (Suc j) (bbl_blocks l'))"
        by (metis append_take_drop_id map_append sum_list.append)
      ultimately show ?thesis by linarith
    qed
    ultimately show ?thesis using writable_listD(5)[OF s(1)] s(2,4,5) l(2) ul
      by (intro exI[of _ True] exI[of _ ?from] exI[of _ ?new])
        (simp add: fits_in_def bbl_image_def bs bs')
  next
    case Done
    let ?m = "backed_block_list_move ?l (sf_list ?to) (Some 0) None"
    let ?from = "from\<lparr>sf_list := fst ?m\<rparr>" and ?new = "?to\<lparr>sf_list := snd ?m\<rparr>"
    have m: "bbl_blocks (fst ?m) = []" "bbl_blocks (snd ?m) = sf_blocks from"
      by (auto simp: backed_block_list_move_def Let_def insert_run_def)
    have m2: "bbl_block_size (fst ?m) = w" "bbl_block_size (snd ?m) = w" "bbl_last_used (snd ?m) = None"
      "sf_blocks from = [] \<longrightarrow> fst ?m = ?l" "sf_blocks from \<noteq> [] \<longrightarrow> bbl_last_used (fst ?m) = None"
      by (auto simp: backed_block_list_move_def Let_def bs sparse_file_new_def backed_block_list_new_def)
    have "move_chunks_up_to_len env from ?to max_len = Inr (0, False, ?from, ?new)"
      using out(1) c(1) by (simp add: move_chunks_up_to_len_def Let_def Done case_prod_beta)
    moreover have "writable_list src w k (sf_list ?new)"
      by (rule writable_part[OF l(1), of "sf_blocks from" "[]"]) (simp_all add: m m2)
    moreover have "writable_list src w k (sf_list ?from)"
    proof (cases "sf_blocks from = []")
      case True
      then show ?thesis using l(1) m2(4) by simp
    next
      case False
      show ?thesis by (rule writable_part[OF l(1), of "sf_blocks from" "[]"]) (use False in \<open>simp_all add: m m2\<close>)
    qed
    moreover have "list_bytes src (unat w) 0 (sf_blocks from) \<le> unat ?len" using c(2) by (simp add: Done cut_ok_def)
    ultimately show ?thesis using writable_listD(5)[OF l(1)] l(2) ul
      by (intro exI[of _ False] exI[of _ ?from] exI[of _ ?new]) (simp add: fits_in_def m)
  next
    case Abort
    then show ?thesis using c(2) by (simp add: cut_ok_def)
  qed
qed

section \<open>Putting a piece back\<close>

lemma insert_run_append:
  assumes "blocks_sorted bs (xs @ ys)" "ys \<noteq> []" "0 < bs"
  shows "insert_run xs ys = xs @ ys"
proof (cases xs)
  case (Cons x xs')
  have "\<not> bb_block b > bb_block (hd ys)" if "b \<in> set xs" for b
  proof -
    have "before bs b (hd ys)" "bb_ok bs b" using that assms(1,2)
      by (auto simp: blocks_sorted_append dest: blocks_sorted_ok)
    then show ?thesis using bb_block_less_end[of bs b] assms(3) by (simp add: before_def word_less_nat_alt)
  qed
  then have "length (takeWhile (\<lambda>b. \<not> bb_block (hd ys) < bb_block b) xs') = length xs'"
    by (intro arg_cong[where f = length]) (simp add: Cons)
  then show ?thesis by (simp add: insert_run_def Cons)
qed (simp add: insert_run_def)

lemma move_whole_append:
  assumes p: "writable_list src w k (sf_list p)" and t: "writable_list src w k (sf_list t)"
    and sorted: "blocks_sorted (unat w) (sf_blocks t @ sf_blocks p)"
  defines "t' \<equiv> snd (move_whole p t)"
  shows "sf_blocks t' = sf_blocks t @ sf_blocks p" "writable_list src w k (sf_list t')" "sf_block_size t' = sf_block_size t"
    "sf_len t' = sf_len t"
proof -
  note w = writable_listD[OF p]
  show blocks: "sf_blocks t' = sf_blocks t @ sf_blocks p"
    using insert_run_append[OF sorted _ w(2)] by (simp add: t'_def move_whole_def backed_block_list_move_def Let_def)
  show "sf_block_size t' = sf_block_size t" "sf_len t' = sf_len t"
    by (simp_all add: t'_def move_whole_def case_prod_beta)
  have l: "bbl_block_size (sf_list t') = bbl_block_size (sf_list t)"
    "sf_blocks p = [] \<Longrightarrow> sf_list t' = sf_list t" "sf_blocks p \<noteq> [] \<Longrightarrow> bbl_last_used (sf_list t') = None"
    by (simp_all add: t'_def move_whole_def backed_block_list_move_def Let_def)
  then show "writable_list src w k (sf_list t')"
    using p t sorted blocks by (cases "sf_blocks p = []") (auto simp: writable_list_def bbl_ok_def)
qed

text \<open>A list with the image of blocks that all lie behind \<open>x\<close> lies behind \<open>x\<close>.\<close>

lemma image_before:
  assumes "0 < bs" "image_map src bs l = image_map src bs l'" "\<forall>b\<in>set l'. before bs x b"
    and y: "y \<in> set l" "bb_ok bs y" "bb_readable src y"
  shows "before bs x y"
proof -
  have "0 < unat (bb_len y)" using y(2) by (simp add: bb_ok_def word_less_nat_alt)
  then have "bb_map src bs y (bb_start bs y) \<noteq> None" using backing_byte_data[OF y(3), of 0] by (simp add: bb_map_def)
  then have "bb_start bs y \<in> dom (image_map src bs l)" unfolding dom_image_map using y(1) by blast
  then obtain b where b: "b \<in> set l'" "bb_start bs y \<in> dom (bb_map src bs b)"
    unfolding assms(2) dom_image_map by blast
  have "bb_start bs b \<le> bb_start bs y" using dom_bb_map[OF assms(1), of src b] b(2) by auto
  then have "unat (bb_block b) \<le> unat (bb_block y)" using assms(1) by (simp add: bb_start_def)
  then show ?thesis using assms(3) b(1) by (auto simp: before_def)
qed

section \<open>All pieces\<close>

definition piece_ok :: "sources \<Rightarrow> u32 \<Rightarrow> nat \<Rightarrow> u64 \<Rightarrow> sparse_file \<Rightarrow> bool" where
  "piece_ok src w k len p \<longleftrightarrow> sf_block_size p = w \<and> sf_len p = len \<and> writable_list src w k (sf_list p)"

lemma sorted_before_list:
  assumes "0 < bs" "blocks_sorted bs (xs @ ys)" "image_map src bs zs = image_map src bs ys" "blocks_sorted bs zs"
    and "list_all (bb_readable src) zs"
  shows "blocks_sorted bs (xs @ zs)"
proof -
  have "before bs x z" if "x \<in> set xs" "z \<in> set zs" for x z
    by (rule image_before[OF assms(1,3) _ that(2)])
      (use assms(2,4,5) that in \<open>auto simp: blocks_sorted_append list_all_iff dest: blocks_sorted_ok\<close>)
  then show ?thesis using assms(2,4) by (simp add: blocks_sorted_append)
qed

lemma resparse_loop_ok:
  assumes "piece_ok src w k len in_s" "piece_ok src w k len tmp" "blocks_sorted (unat w) (sf_blocks tmp @ sf_blocks in_s)"
    and "int c < cnt \<longrightarrow> sf_blocks tmp = []"
    and env: "env_ok env src" and len: "enough w max_len" "signed_div_round_up len w = Inr (int n)"
  shows "\<exists>m in' outs'. resparse_loop env max_len cnt in_s tmp outs c = Some (Inr (int (c + m), in', outs @ outs')) \<and> 0 < m \<and>
    length outs' = min m (nat (cnt - int c)) \<and> piece_ok src w k len in' \<and>
    (\<forall>p\<in>set outs'. piece_ok src w k len p \<and> fits_in src w max_len (sf_blocks p)) \<and>
    blocks_sorted (unat w) (concat (map sf_blocks outs') @ sf_blocks in') \<and>
    image_map src (unat w) (concat (map sf_blocks outs') @ sf_blocks in') = image_map src (unat w) (sf_blocks tmp @ sf_blocks in_s)"
  using assms(1-4)
proof (induction "block_sum (sf_blocks in_s)" arbitrary: in_s tmp outs c rule: less_induct)
  case less
  have l: "writable_list src w k (sf_list in_s)" "sf_block_size in_s = w" "sf_len in_s = len"
    and tmp: "writable_list src w k (sf_list tmp)" "sf_block_size tmp = w" "sf_len tmp = len"
    using less.prems by (simp_all add: piece_ok_def)
  note w = writable_listD[OF l(1)]
  obtain further in1 p where p: "move_chunks_up_to_len env in_s (sparse_file_new w len) max_len = Inr (0, further, in1, p)"
    "piece_ok src w k len in1" "piece_ok src w k len p" "blocks_sorted (unat w) (sf_blocks p @ sf_blocks in1)"
    "image_map src (unat w) (sf_blocks p @ sf_blocks in1) = image_map src (unat w) (sf_blocks in_s)"
    "fits_in src w max_len (sf_blocks p)"
    "if further then block_sum (sf_blocks in1) < block_sum (sf_blocks in_s) else sf_blocks in1 = []"
    using one_piece[OF l(1,2) env len(1), of n] len(2) l(3) unfolding piece_ok_def by auto
  have rd: "list_all (bb_readable src) (sf_blocks q)" if "piece_ok src w k len q" for q
    using that by (auto simp: piece_ok_def writable_list_def list_all_iff block_writable_def)
  have all: "blocks_sorted (unat w) (sf_blocks tmp @ (sf_blocks p @ sf_blocks in1))"
    by (rule sorted_before_list[OF w(2) less.prems(3) p(5,4)]) (use rd p(2,3) in simp)
  then have sorted3: "blocks_sorted (unat w) (sf_blocks tmp @ sf_blocks p)" "blocks_sorted (unat w) ((sf_blocks tmp @ sf_blocks p) @ sf_blocks in1)"
    by (auto simp: blocks_sorted_append)
  have image3: "image_map src (unat w) (sf_blocks tmp @ sf_blocks p @ sf_blocks in1) = image_map src (unat w) (sf_blocks tmp @ sf_blocks in_s)"
    using p(5) by (simp add: image_map_append)
  define tmp1 where "tmp1 = (if int c < cnt then tmp else snd (move_whole p tmp))"
  define new where "new = (if int c < cnt then [p] else [])"
  have wp: "writable_list src w k (sf_list p)" using p(3) by (simp add: piece_ok_def)
  note mw = move_whole_append[OF wp tmp(1) sorted3(1)]
  have tmp1: "piece_ok src w k len tmp1" "sf_blocks tmp1 = (if int c < cnt then [] else sf_blocks tmp @ sf_blocks p)"
    using less.prems(2,4) mw tmp by (simp_all add: tmp1_def piece_ok_def)
  have newp: "\<forall>q\<in>set new. piece_ok src w k len q \<and> fits_in src w max_len (sf_blocks q)"
    using p(3,6) by (simp add: new_def)
  have split_blocks: "concat (map sf_blocks new) @ sf_blocks tmp1 = sf_blocks tmp @ sf_blocks p"
    using less.prems(4) by (simp add: new_def tmp1(2))
  have step: "resparse_loop env max_len cnt in_s tmp outs c = (if further
      then resparse_loop env max_len cnt in1 tmp1 (outs @ new) (Suc c)
      else Some (Inr (int (Suc c), snd (move_whole tmp1 in1), outs @ new)))"
    using p(1) by (subst resparse_loop.simps) (simp add: l(2,3) tmp1_def new_def Let_def)
  show ?case
  proof (cases further)
    case True
    have sorted1: "blocks_sorted (unat w) (sf_blocks tmp1 @ sf_blocks in1)"
      using sorted3(2) by (auto simp: tmp1(2) blocks_sorted_append)
    have "block_sum (sf_blocks in1) < block_sum (sf_blocks in_s)" using p(7) True by simp
    from less.hyps[OF this p(2) tmp1(1) sorted1, of "Suc c" "outs @ new"] obtain m in' outs' where
      r: "resparse_loop env max_len cnt in1 tmp1 (outs @ new) (Suc c) = Some (Inr (int (Suc c + m), in', (outs @ new) @ outs'))"
      "0 < m" "length outs' = min m (nat (cnt - int (Suc c)))" "piece_ok src w k len in'"
      "\<forall>p\<in>set outs'. piece_ok src w k len p \<and> fits_in src w max_len (sf_blocks p)"
      "blocks_sorted (unat w) (concat (map sf_blocks outs') @ sf_blocks in')"
      "image_map src (unat w) (concat (map sf_blocks outs') @ sf_blocks in') = image_map src (unat w) (sf_blocks tmp1 @ sf_blocks in1)"
      using tmp1(2) by auto
    have "list_all (bb_readable src) (concat (map sf_blocks outs') @ sf_blocks in')"
      using rd r(4,5) by (auto simp: list_all_iff)
    moreover have "blocks_sorted (unat w) (concat (map sf_blocks new) @ (sf_blocks tmp1 @ sf_blocks in1))"
      using sorted3(2) unfolding append_assoc[symmetric] split_blocks by simp
    ultimately have "blocks_sorted (unat w) (concat (map sf_blocks new) @ (concat (map sf_blocks outs') @ sf_blocks in'))"
      using sorted_before_list[OF w(2) _ r(7,6)] by blast
    moreover have "image_map src (unat w) (concat (map sf_blocks new) @ (concat (map sf_blocks outs') @ sf_blocks in')) =
        image_map src (unat w) (sf_blocks tmp @ sf_blocks in_s)"
    proof -
      have "image_map src (unat w) (concat (map sf_blocks new) @ (concat (map sf_blocks outs') @ sf_blocks in')) =
          image_map src (unat w) ((concat (map sf_blocks new) @ sf_blocks tmp1) @ sf_blocks in1)"
        using r(7) by (simp add: image_map_append)
      then show ?thesis using image3 by (simp add: split_blocks)
    qed
    moreover have "length (new @ outs') = min (Suc m) (nat (cnt - int c))" using r(3) by (auto simp: new_def)
    ultimately show ?thesis using r(1,2,4,5) newp True
      by (intro exI[of _ "Suc m"] exI[of _ in'] exI[of _ "new @ outs'"]) (simp add: step ball_Un)
  next
    case False
    then have empty: "sf_blocks in1 = []" using p(7) by simp
    let ?in = "snd (move_whole tmp1 in1)"
    have wt: "writable_list src w k (sf_list tmp1)" "writable_list src w k (sf_list in1)"
      using tmp1(1) p(2) by (simp_all add: piece_ok_def)
    have "blocks_sorted (unat w) (sf_blocks in1 @ sf_blocks tmp1)" using writable_listD(5)[OF wt(1)] by (simp add: empty)
    note mi = move_whole_append[OF wt this]
    have "piece_ok src w k len ?in" using mi p(2) by (simp add: piece_ok_def)
    moreover have "concat (map sf_blocks new) @ sf_blocks ?in = sf_blocks tmp @ sf_blocks p"
      using mi(1) split_blocks by (simp add: empty)
    moreover have "image_map src (unat w) (sf_blocks tmp @ sf_blocks p) = image_map src (unat w) (sf_blocks tmp @ sf_blocks in_s)"
      using image3 by (simp add: empty)
    moreover have "length new = min 1 (nat (cnt - int c))" by (simp add: new_def)
    ultimately show ?thesis using sorted3(1) newp False
      by (intro exI[of _ 1] exI[of _ ?in] exI[of _ new]) (simp add: step)
  qed
qed

end
