(* ===== verification/SpSafe.thy ===== *)
theory SpSafe imports SpRead SpSparseInv begin

text \<open>
  Importing an image from a buffer, whatever bytes it holds: reading stays inside the buffer, the blocks
  of an accepted file refer to bytes of the buffer, and an image can stop the import only by a failed
  assertion on the order of the blocks or by a length that overflows.
\<close>

section \<open>Blocks that hold their bytes\<close>

definition held :: "backed_block \<Rightarrow> bool" where
  "held b \<longleftrightarrow> (case bb_backing b of BB_DATA d \<Rightarrow> unat (bb_len b) \<le> length d | BB_FILL v \<Rightarrow> True | _ \<Rightarrow> False)"

lemma merge_bb_held:
  assumes "w \<noteq> 0" "held a"
  shows "merge_bb w a next0 = Inl CheckFailed \<or> merge_bb w a next0 = Inr None \<or>
    (\<exists>ab. merge_bb w a next0 = Inr (Some ab) \<and> held ab)"
  using assms by (cases next0; cases "bb_backing a")
    (auto simp: merge_bb_def check_def mergeable_backing_def held_def split: backing.splits)

lemma merge_at_held:
  assumes "w \<noteq> 0" "list_all held blocks" "i < length blocks"
  shows "merge_at w blocks i = Inl CheckFailed \<or>
    (\<exists>m. merge_at w blocks i = Inr m \<and> (case m of None \<Rightarrow> True | Some l \<Rightarrow> list_all held l \<and> i < length l))"
proof -
  have "held (blocks ! i)" using assms(2,3) by (simp add: list_all_length)
  moreover have "list_all held (take i blocks @ ab # drop (i + 2) blocks)" if "held ab" for ab
    using assms(2) that in_set_takeD[of _ i blocks] in_set_dropD[of _ "i + 2" blocks] by (auto simp: list_all_iff)
  ultimately show ?thesis using merge_bb_held[OF assms(1), of "blocks ! i" "elem_at blocks (Suc i)"] assms(3)
    by (fastforce simp: merge_at_def)
qed

lemma seek_from_less: "i < length blocks \<Longrightarrow> seek_from blocks block i < length blocks"
  using length_takeWhile_le[of "\<lambda>b. bb_block b < block" "drop (Suc i) blocks"] by (simp add: seek_from_def)

text \<open>The pointer to the block queued last stays inside the list.\<close>

definition list_held :: "u32 \<Rightarrow> backed_block_list \<Rightarrow> bool" where
  "list_held w l \<longleftrightarrow> bbl_block_size l = w \<and> list_all held (bbl_blocks l) \<and>
     (case bbl_last_used l of None \<Rightarrow> True | Some k \<Rightarrow> k < length (bbl_blocks l))"

lemma queue_bb_held:
  assumes "w \<noteq> 0" "list_held w l" "held b"
  shows "queue_bb l b = Inl CheckFailed \<or> (\<exists>l'. queue_bb l b = Inr l' \<and> list_held w l')"
proof (cases "bbl_blocks l")
  case Nil
  then show ?thesis using assms by (auto simp: queue_bb_def list_held_def split: option.splits)
next
  case (Cons first rest)
  let ?bl = "bbl_blocks l"
  have h: "list_all held ?bl" "bbl_block_size l = w" using assms(2) by (simp_all add: list_held_def)
  show ?thesis
  proof (cases "bb_block first > bb_block b")
    case True
    then show ?thesis using assms Cons by (auto simp: queue_bb_def list_held_def split: option.splits)
  next
    case False
    define i where "i = seek_from ?bl (bb_block b) (seek_start l (bb_block b))"
    define blocks1 where "blocks1 = take (Suc i) ?bl @ b # drop (Suc i) ?bl"
    have "seek_start l (bb_block b) < length ?bl"
      using assms(2) Cons by (auto simp: seek_start_def list_held_def split: option.splits)
    then have i: "i < length ?bl" unfolding i_def by (rule seek_from_less)
    have b1: "list_all held blocks1" "Suc i < length blocks1"
      using h(1) assms(3) i by (auto simp: blocks1_def list_all_iff dest: in_set_takeD in_set_dropD)
    have q: "queue_bb l b = bind_run (merge_at w blocks1 (Suc i)) (\<lambda>m1.
        let blocks2 = (case m1 of Some l \<Rightarrow> l | None \<Rightarrow> blocks1)
        in bind_run (merge_at w blocks2 i) (\<lambda>m2. case m2 of
             Some blocks3 \<Rightarrow> Inr (l\<lparr>bbl_blocks := blocks3, bbl_last_used := Some i\<rparr>)
           | None \<Rightarrow> Inr (l\<lparr>bbl_blocks := blocks2, bbl_last_used := Some (Suc i)\<rparr>)))"
      unfolding blocks1_def i_def queue_bb_def Let_def Cons h(2) list.case using False by simp
    from merge_at_held[OF assms(1) b1] show ?thesis
    proof (elim disjE exE conjE)
      fix m1 assume m1: "merge_at w blocks1 (Suc i) = Inr m1"
        "case m1 of None \<Rightarrow> True | Some l \<Rightarrow> list_all held l \<and> Suc i < length l"
      define blocks2 where "blocks2 = (case m1 of Some l \<Rightarrow> l | None \<Rightarrow> blocks1)"
      have b2: "list_all held blocks2" "Suc i < length blocks2"
        using m1(2) b1 by (auto simp: blocks2_def split: option.splits)
      then have "i < length blocks2" by simp
      have q2: "queue_bb l b = bind_run (merge_at w blocks2 i) (\<lambda>m2. case m2 of
             Some blocks3 \<Rightarrow> Inr (l\<lparr>bbl_blocks := blocks3, bbl_last_used := Some i\<rparr>)
           | None \<Rightarrow> Inr (l\<lparr>bbl_blocks := blocks2, bbl_last_used := Some (Suc i)\<rparr>))"
        unfolding q m1(1) bind_run_Inr Let_def blocks2_def ..
      from merge_at_held[OF assms(1) b2(1) \<open>i < length blocks2\<close>] show ?thesis
      proof (elim disjE exE conjE)
        fix m2 assume m2: "merge_at w blocks2 i = Inr m2" "case m2 of None \<Rightarrow> True | Some l \<Rightarrow> list_all held l \<and> i < length l"
        show ?thesis using m2 b2 h(2) by (cases m2) (simp_all add: q2 list_held_def)
      qed (simp add: q2)
    qed (simp add: q)
  qed
qed

section \<open>Steps that stay inside the buffer\<close>

definition reader_inv :: "u32 \<Rightarrow> u8 list \<Rightarrow> buf_state read_state \<Rightarrow> bool" where
  "reader_inv w bytes st \<longleftrightarrow> sf_block_size (rs_file st) = w \<and> list_held w (sf_list (rs_file st)) \<and>
     bs_bytes (rs_source st) = bytes \<and> bs_offset (rs_source st) \<le> length bytes"

definition stops :: "fault \<Rightarrow> bool" where
  "stops f \<longleftrightarrow> f = CheckFailed \<or> f = SignedOverflow"

definition safe_result :: "u32 \<Rightarrow> u8 list \<Rightarrow> u64 \<Rightarrow> (int \<times> buf_state read_state) run \<Rightarrow> bool" where
  "safe_result w bytes len r = (case r of Inl f \<Rightarrow> stops f
     | Inr (ret, st) \<Rightarrow> reader_inv w bytes st \<and> sf_len (rs_file st) = len)"

definition safe :: "u32 \<Rightarrow> u8 list \<Rightarrow> buf_state rstep \<Rightarrow> bool" where
  "safe w bytes m \<longleftrightarrow> (\<forall>st. reader_inv w bytes st \<longrightarrow> safe_result w bytes (sf_len (rs_file st)) (m st))"

lemma safeI: "(\<And>st. reader_inv w bytes st \<Longrightarrow> safe_result w bytes (sf_len (rs_file st)) (m st)) \<Longrightarrow> safe w bytes m"
  by (simp add: safe_def)

lemma safeD: "safe w bytes m \<Longrightarrow> reader_inv w bytes st \<Longrightarrow> safe_result w bytes (sf_len (rs_file st)) (m st)"
  by (simp add: safe_def)

named_theorems safe_steps

lemma safe_return [safe_steps]: "safe w bytes (return ret)"
  by (simp add: safe_def safe_result_def return_def)

lemma safe_and_then [safe_steps]:
  assumes "safe w bytes m" "safe w bytes k"
  shows "safe w bytes (and_then m k)"
proof (rule safeI)
  fix st assume st: "reader_inv w bytes st"
  show "safe_result w bytes (sf_len (rs_file st)) (and_then m k st)"
  proof (cases "m st")
    case (Inl f)
    then show ?thesis using safeD[OF assms(1) st] by (simp add: and_then_def safe_result_def)
  next
    case (Inr p)
    obtain ret st' where p: "p = (ret, st')" by force
    then have st': "reader_inv w bytes st'" "sf_len (rs_file st') = sf_len (rs_file st)"
      using safeD[OF assms(1) st] Inr by (simp_all add: safe_result_def)
    then show ?thesis using safeD[OF assms(2) st'(1)] Inr p by (simp add: and_then_def safe_result_def)
  qed
qed

lemma access_inside:
  assumes "AccessOkay n x \<ge> 0"
  shows "0 < n" "int (bs_offset x) + n \<le> int (length (bs_bytes x))"
  using assms by (auto simp: AccessOkay_def EINVAL_def EOVERFLOW_def split: if_splits)

lemma access_inside_word:
  fixes n :: u64
  assumes "AccessOkay (sint n) x \<ge> 0"
  shows "bs_offset x + unat n \<le> length (bs_bytes x)"
proof -
  have "sint n = int (unat n)" using access_inside(1)[OF assms] by (intro sint_nonneg_unat) simp
  then show ?thesis using access_inside(2)[OF assms] by linarith
qed

lemma safe_do_seek [safe_steps]: "safe w bytes (do_seek buf_source n)"
  using access_inside_word by (intro safeI) (auto simp: do_seek_def buf_source_def buf_seek_def safe_result_def reader_inv_def Let_def)

lemma safe_do_crc [safe_steps]: "safe w bytes (do_crc buf_source c n)"
  using access_inside_word by (intro safeI) (auto simp: do_crc_def buf_source_def buf_crc_def safe_result_def reader_inv_def Let_def)

lemma safe_read_value [safe_steps]:
  assumes "\<And>d. length d = n \<Longrightarrow> safe w bytes (k d)"
  shows "safe w bytes (read_value buf_source n k)"
proof (rule safeI)
  fix st assume st: "reader_inv w bytes st"
  let ?x = "rs_source st"
  show "safe_result w bytes (sf_len (rs_file st)) (read_value buf_source n k st)"
  proof (cases "AccessOkay (int n) ?x < 0")
    case True
    then show ?thesis using st by (simp add: read_value_def buf_source_def buf_read_def safe_result_def reader_inv_def)
  next
    case False
    let ?st = "st\<lparr>rs_source := ?x\<lparr>bs_offset := bs_offset ?x + n\<rparr>\<rparr>" and ?d = "bytes_at (bs_offset ?x) n (bs_bytes ?x)"
    have le: "bs_offset ?x + n \<le> length (bs_bytes ?x)" using access_inside(2)[of "int n" ?x] False by linarith
    have "reader_inv w bytes ?st" using st le by (simp add: reader_inv_def)
    moreover have "safe w bytes (k ?d)" by (rule assms) (use le in \<open>simp add: bytes_at_def\<close>)
    ultimately have "safe_result w bytes (sf_len (rs_file ?st)) (k ?d ?st)" by (rule safeD[rotated])
    then show ?thesis using False by (simp add: read_value_def buf_source_def buf_read_def)
  qed
qed

lemma with_list_held:
  assumes "w \<noteq> 0" "list_held w (sf_list s)" "sf_block_size s = w" "held b"
  shows "with_list s (queue_bb (sf_list s) b) = Inl CheckFailed \<or> (\<exists>s'. with_list s (queue_bb (sf_list s) b) = Inr s' \<and>
    list_held w (sf_list s') \<and> sf_block_size s' = w \<and> sf_len s' = sf_len s)"
  using queue_bb_held[OF assms(1,2,4)] assms(3) by (auto simp: with_list_def)

lemma safe_do_add [safe_steps]:
  assumes "w \<noteq> 0"
  shows "safe w bytes (do_add buf_source len block)"
proof (rule safeI)
  fix st assume st: "reader_inv w bytes st"
  let ?x = "rs_source st"
  let ?b = "\<lparr>bb_block = block, bb_len = len, bb_backing = BB_DATA (drop (bs_offset ?x) (bs_bytes ?x))\<rparr>"
  show "safe_result w bytes (sf_len (rs_file st)) (do_add buf_source len block st)"
  proof (cases "AccessOkay (sint len) ?x < 0")
    case True
    then show ?thesis using st by (simp add: do_add_def buf_source_def buf_add_def safe_result_def reader_inv_def)
  next
    case False
    then have "held ?b" using access_inside_word[of len ?x] by (simp add: held_def)
    from with_list_held[OF assms _ _ this, of "rs_file st"] st False show ?thesis
      by (auto simp: do_add_def buf_source_def buf_add_def sparse_file_add_data_def backed_block_add_data_def
          safe_result_def stops_def reader_inv_def)
  qed
qed

lemma safe_do_add_fill [safe_steps]:
  assumes "w \<noteq> 0"
  shows "safe w bytes (do_add_fill v len block)"
proof (rule safeI)
  fix st assume st: "reader_inv w bytes st"
  have "held \<lparr>bb_block = block, bb_len = len, bb_backing = BB_FILL v\<rparr>" by (simp add: held_def)
  from with_list_held[OF assms _ _ this, of "rs_file st"] st
  show "safe_result w bytes (sf_len (rs_file st)) (do_add_fill v len block st)"
    by (auto simp: do_add_fill_def sparse_file_add_fill_def backed_block_add_fill_def safe_result_def stops_def reader_inv_def)
qed

lemma safe_copybuf_crc [safe_steps]: "safe w bytes (copybuf_crc buf len)"
  by (rule safeI) (simp add: copybuf_crc_def safe_result_def return_def reader_inv_def split: option.splits)

lemma safe_with_len [safe_steps]:
  assumes "\<And>len. safe w bytes (k len)"
  shows "safe w bytes (with_len blocks k)"
  using safeD[OF assms] by (intro safeI) (auto simp: with_len_def mul_int64_def safe_result_def stops_def)

lemma safe_if [safe_steps]: "(c \<Longrightarrow> safe w bytes a) \<Longrightarrow> (\<not> c \<Longrightarrow> safe w bytes b) \<Longrightarrow> safe w bytes (if c then a else b)"
  by simp

lemma safe_cong: "safe w bytes m' \<Longrightarrow> (\<And>st. reader_inv w bytes st \<Longrightarrow> m st = m' st) \<Longrightarrow> safe w bytes m"
  by (simp add: safe_def)

text \<open>A step that looks at the checksum first.\<close>

lemma safe_crc_case:
  assumes "\<And>c. safe w bytes (a c)" "safe w bytes b"
  shows "safe w bytes (\<lambda>st. case rs_crc st of Some c \<Rightarrow> a c st | None \<Rightarrow> b st)"
  using safeD[OF assms(1)] safeD[OF assms(2)] by (intro safeI) (simp split: option.splits)

section \<open>The chunks\<close>

lemma safe_raw_chunk [safe_steps]:
  assumes "w \<noteq> 0"
  shows "safe w bytes (process_raw_chunk buf_source chunk_size blocks block)"
  unfolding process_raw_chunk_def
proof (rule safe_with_len)
  fix len
  let ?k = "\<lambda>st. case rs_crc st of Some c \<Rightarrow> and_then (do_crc buf_source c len) (return 0) st
      | None \<Rightarrow> and_then (do_seek buf_source len) (return 0) st"
  let ?m = "if chunk_size mod w \<noteq> 0 then return (- EINVAL)
      else if chunk_size div w \<noteq> blocks then return (- EINVAL) else and_then (do_add buf_source len block) ?k"
  show "safe w bytes (\<lambda>st. let bs = sf_block_size (rs_file st)
     in if bs = 0 then Inl DivisionByZero
        else if chunk_size mod bs \<noteq> 0 then return (- EINVAL) st
        else if chunk_size div bs \<noteq> blocks then return (- EINVAL) st
        else and_then (do_add buf_source len block) ?k st)"
  proof (rule safe_cong)
    show "safe w bytes ?m"
      by (intro safe_steps safe_crc_case assms)
  qed (simp add: reader_inv_def assms)
qed

lemma safe_fill_chunk [safe_steps]:
  assumes "w \<noteq> 0"
  shows "safe w bytes (process_fill_chunk buf_source chunk_size blocks block)"
  unfolding process_fill_chunk_def
proof (rule safe_with_len)
  fix len
  let ?r = "read_value buf_source 4 (\<lambda>d. let fill_val = dec32 0 d in
            and_then (do_add_fill fill_val len block) (copybuf_crc (fill_bytes fill_val) len))"
  show "safe w bytes (\<lambda>st. if chunk_size \<noteq> 4 then return (- EINVAL) st else ?r st)"
  proof (rule safe_cong)
    show "safe w bytes (if chunk_size \<noteq> 4 then return (- EINVAL) else ?r)"
      unfolding Let_def by (intro safe_steps assms)
  qed simp
qed

lemma safe_skip_chunk [safe_steps]: "safe w bytes (process_skip_chunk chunk_size blocks)"
proof (rule safe_cong)
  show "safe w bytes (if chunk_size \<noteq> 0 then return (- EINVAL)
      else (\<lambda>st. case rs_crc st of Some c \<Rightarrow> with_len blocks (\<lambda>len. copybuf_crc (\<lambda>n. replicate n 0) len) st | None \<Rightarrow> return 0 st))"
    by (intro safe_steps safe_crc_case)
qed (simp add: process_skip_chunk_def split: option.splits)

lemma safe_crc32_chunk [safe_steps]: "safe w bytes (process_crc32_chunk buf_source chunk_size)"
proof (rule safe_cong)
  let ?k = "\<lambda>d st. case rs_crc st of Some c \<Rightarrow> if dec32 0 d \<noteq> c then return (- EINVAL) st else return 0 st | None \<Rightarrow> return 0 st"
  show "safe w bytes (if chunk_size \<noteq> 4 then return (- EINVAL) else read_value buf_source 4 ?k)"
  proof (intro safe_if safe_return safe_read_value)
    show "safe w bytes (?k d)" for d
      by (rule safe_crc_case) (simp_all add: safe_def safe_result_def return_def)
  qed
qed (simp add: process_crc32_chunk_def)

lemma safe_chunk:
  assumes "w \<noteq> 0"
  shows "safe w bytes (process_chunk buf_source chunk_hdr_sz hdr cur_block)"
proof (rule safe_cong)
  let ?n = "ch_total_sz hdr - chunk_hdr_sz"
  show "safe w bytes (if ch_chunk_type hdr = CHUNK_TYPE_RAW
         then and_then (process_raw_chunk buf_source ?n (ch_chunk_sz hdr) cur_block) (return (sint (ch_chunk_sz hdr)))
         else if ch_chunk_type hdr = CHUNK_TYPE_FILL
         then and_then (process_fill_chunk buf_source ?n (ch_chunk_sz hdr) cur_block) (return (sint (ch_chunk_sz hdr)))
         else if ch_chunk_type hdr = CHUNK_TYPE_DONT_CARE
         then and_then (process_skip_chunk ?n (ch_chunk_sz hdr)) (return (sint (ch_chunk_sz hdr)))
         else if ch_chunk_type hdr = CHUNK_TYPE_CRC32
         then and_then (process_crc32_chunk buf_source ?n) (return 0) else return 0)"
    by (intro safe_steps assms)
qed (simp add: process_chunk_def Let_def)

section \<open>A whole image\<close>

lemma safe_chunks:
  assumes "w \<noteq> 0" "reader_inv w bytes st"
  shows "case read_chunks buf_source chunk_hdr_sz n cur st of Inl f \<Rightarrow> stops f
     | Inr (ret, cur', st') \<Rightarrow> reader_inv w bytes st' \<and> sf_len (rs_file st') = sf_len (rs_file st)"
  using assms(2)
proof (induction n arbitrary: cur st)
  case 0
  then show ?case by simp
next
  case (Suc n)
  let ?seek = "if unat chunk_hdr_sz > CHUNK_HEADER_LEN
      then do_seek buf_source (of_nat (unat chunk_hdr_sz - CHUNK_HEADER_LEN)) else return 0"
  define m where "m = read_value buf_source CHUNK_HEADER_LEN (\<lambda>d.
      and_then ?seek (process_chunk buf_source (ucast chunk_hdr_sz) (dec_chunk_header d) cur))"
  have "safe w bytes m" unfolding m_def by (intro safe_steps safe_chunk assms(1))
  note r = safeD[OF this Suc.prems]
  have eq: "read_chunks buf_source chunk_hdr_sz (Suc n) cur st = bind_run (m st) (\<lambda>(ret, st').
      if ret < 0 then Inr (ret, cur, st') else read_chunks buf_source chunk_hdr_sz n (cur + word_of_int ret) st')"
    unfolding m_def by (rule read_chunks.simps(2))
  show ?case
  proof (cases "m st")
    case (Inl f)
    then show ?thesis using r unfolding eq by (simp add: safe_result_def)
  next
    case (Inr p)
    obtain ret st' where p: "p = (ret, st')" by force
    have st': "reader_inv w bytes st'" "sf_len (rs_file st') = sf_len (rs_file st)"
      using r by (simp_all add: Inr p safe_result_def)
    show ?thesis using Suc.IH[OF st'(1), of "cur + word_of_int ret"] st' unfolding eq Inr p by (auto split: sum.splits)
  qed
qed

lemma safe_read_sparse:
  assumes "w \<noteq> 0" "reader_inv w bytes \<lparr>rs_file = s, rs_source = x, rs_crc = (if crc then Some 0 else None)\<rparr>"
  shows "safe_result w bytes (sf_len s) (sparse_file_read_sparse buf_source s x crc)"
proof -
  let ?st = "\<lparr>rs_file = s, rs_source = x, rs_crc = (if crc then Some 0 else None)\<rparr>"
  define k where "k = (\<lambda>(h :: sparse_header) st. bind_run (read_chunks buf_source (sh_chunk_hdr_sz h) (unat (sh_total_chunks h)) 0 st)
     (\<lambda>(ret, cur_block, st'). if ret < 0 then Inr (ret, st')
        else if sh_total_blks h \<noteq> cur_block then return (- EINVAL) st' else return 0 st'))"
  have k: "safe w bytes (k h)" for h
  proof (rule safeI)
    fix st assume st: "reader_inv w bytes st"
    show "safe_result w bytes (sf_len (rs_file st)) (k h st)"
      using safe_chunks[OF assms(1) st, of "sh_chunk_hdr_sz h" "unat (sh_total_chunks h)" 0]
      by (auto simp: k_def safe_result_def return_def split: sum.splits if_splits)
  qed
  define m where "m = read_value buf_source SPARSE_HEADER_LEN (\<lambda>d.
      let h = dec_sparse_header d in if \<not> header_acceptable h then return (- EINVAL)
        else and_then (if unat (sh_file_hdr_sz h) > SPARSE_HEADER_LEN
                       then do_seek buf_source (of_nat (unat (sh_file_hdr_sz h) - SPARSE_HEADER_LEN)) else return 0) (k h))"
  have "safe w bytes m" unfolding m_def Let_def by (intro safe_steps k)
  from safeD[OF this assms(2)] have "safe_result w bytes (sf_len s) (m ?st)" by simp
  moreover have "sparse_file_read_sparse buf_source s x crc = m ?st"
    unfolding sparse_file_read_sparse_def m_def k_def Let_def
    by (rule arg_cong[where f = "\<lambda>k. read_value buf_source SPARSE_HEADER_LEN k ?st"]) (simp add: fun_eq_iff)
  ultimately show ?thesis by simp
qed

text \<open>What an accepted file is like.\<close>

definition accepted :: "u8 list \<Rightarrow> sparse_file \<Rightarrow> bool" where
  "accepted bytes t \<longleftrightarrow> (let h = dec_sparse_header (take SPARSE_HEADER_LEN bytes) in
     SPARSE_HEADER_LEN \<le> length bytes \<and> header_acceptable h \<and> sf_block_size t = sh_blk_sz h \<and>
     0 < unat (sh_blk_sz h) \<and> unat (sh_blk_sz h) mod 4 = 0 \<and> 0 < unat (sh_total_blks h) \<and>
     unat (sf_len t) = unat (sh_total_blks h) * unat (sh_blk_sz h) \<and> list_all held (sf_blocks t))"

lemma import_buf_safe:
  "case sparse_file_import_buf bytes verbose crc of
     Inl f \<Rightarrow> f = CheckFailed \<or> f = SignedOverflow
   | Inr None \<Rightarrow> True
   | Inr (Some t) \<Rightarrow> accepted bytes t"
proof -
  let ?x = "\<lparr>bs_bytes = bytes, bs_offset = 0\<rparr>" and ?d = "take SPARSE_HEADER_LEN bytes"
  let ?h = "dec_sparse_header ?d"
  show ?thesis
  proof (cases "AccessOkay (int SPARSE_HEADER_LEN) ?x < 0")
    case True
    then show ?thesis by (simp add: sparse_file_import_buf_def sparse_file_import_source_def buf_source_def buf_read_def)
  next
    case False
    have len: "SPARSE_HEADER_LEN \<le> length bytes" using access_inside(2)[of "int SPARSE_HEADER_LEN" ?x] False by simp
    have read: "so_read buf_source SPARSE_HEADER_LEN ?x = (0, ?d, ?x\<lparr>bs_offset := SPARSE_HEADER_LEN\<rparr>)"
      using False by (simp add: buf_source_def buf_read_def bytes_at_def)
    show ?thesis
    proof (cases "header_acceptable ?h \<and> sh_blk_sz ?h \<noteq> 0 \<and> unat (sh_blk_sz ?h) mod 4 = 0 \<and> sh_total_blks ?h \<noteq> 0")
      case False
      then show ?thesis by (auto simp: sparse_file_import_buf_def sparse_file_import_source_def read Let_def)
    next
      case ok: True
      let ?w = "sh_blk_sz ?h"
      show ?thesis
      proof (cases "mul_int64 (sh_total_blks ?h) ?w")
        case (Inl f)
        then have "f = SignedOverflow" by (auto simp: mul_int64_def split: if_splits)
        then show ?thesis using ok Inl
          by (simp add: sparse_file_import_buf_def sparse_file_import_source_def read Let_def)
      next
        case (Inr n)
        then have n: "unat n = unat (sh_total_blks ?h) * unat ?w"
          by (auto simp: mul_int64_def unat_mult_63 split: if_splits)
        let ?s = "(sparse_file_new ?w n)\<lparr>sf_verbose := verbose\<rparr>"
        have "reader_inv ?w bytes \<lparr>rs_file = ?s, rs_source = ?x, rs_crc = (if crc then Some 0 else None)\<rparr>"
          by (simp add: reader_inv_def list_held_def sparse_file_new_def backed_block_list_new_def)
        from safe_read_sparse[OF _ this] have r: "safe_result ?w bytes n (sparse_file_read_sparse buf_source ?s ?x crc)"
          using ok by (simp add: sparse_file_new_def)
        have rew: "so_rewind buf_source \<lparr>bs_bytes = bytes, bs_offset = SPARSE_HEADER_LEN\<rparr> = (0, ?x)"
          by (simp add: buf_source_def buf_rewind_def)
        define rd where "rd = sparse_file_read_sparse buf_source ?s ?x crc"
        have "sparse_file_import_source buf_source ?x verbose crc =
            bind_run rd (\<lambda>(ret, st). Inr (if ret < 0 then None else Some (rs_file st), rs_source st))"
          using ok Inr by (simp add: sparse_file_import_source_def read rew Let_def rd_def)
        then have imp: "sparse_file_import_buf bytes verbose crc =
            bind_run rd (\<lambda>(ret, st). Inr (if ret < 0 then None else Some (rs_file st)))"
          by (cases rd) (auto simp: sparse_file_import_buf_def)
        have "accepted bytes t" if "reader_inv ?w bytes st" "t = rs_file st" "sf_len t = n" for t st
          using that ok n len by (auto simp: accepted_def reader_inv_def list_held_def Let_def unat_gt_0)
        then show ?thesis using r unfolding imp rd_def[symmetric]
          by (auto simp: safe_result_def stops_def split: sum.splits)
      qed
    qed
  qed
qed

end
