(* ===== verification/SpProperties.thy ===== *)
theory SpProperties imports SpTheorems SpOverrun SpResparse SpSafe begin

text \<open>
  The properties of the tools and of \<open>sparse_file_resparse\<close>, with their concrete instances.
\<close>

section \<open>The tools\<close>

text \<open>
  C25: Converting a plain file of whole blocks with \<open>img2simg\<close> and the result with \<open>simg2img\<close> succeeds and
  gives back the file, however the reads and writes are split.
\<close>

theorem img2simg_simg2img:
  assumes "convertible w bytes" "no_failure script" "no_failure script'" "fresh_fd out" "fresh_fd out'"
  shows "\<exists>img plain.
    img2simg h (disk_env bytes) SPARSE_READ_MODE_NORMAL w (disk_fd bytes script) out = Some (Inr (True, img)) \<and>
    simg2img [(disk_env (fs_bytes img), disk_fd (fs_bytes img) script')] out' = Some (Inr (True, plain)) \<and>
    fs_bytes plain = bytes"
  by (rule convert_and_back[OF assms])

definition demo_script :: "read_result list" where "demo_script = [ReadUpTo 1, ReadUpTo 0, ReadUpTo 700]"

lemma demo_script_ok: "no_failure demo_script"
  by (simp add: no_failure_def demo_script_def)

theorem img2simg_simg2img_witness:
  "\<exists>img plain.
    img2simg \<lparr>next_data = id, next_hole = id\<rparr> (disk_env (replicate 2048 7)) SPARSE_READ_MODE_NORMAL 1024
      (disk_fd (replicate 2048 7) demo_script) demo_fd = Some (Inr (True, img)) \<and>
    simg2img [(disk_env (fs_bytes img), disk_fd (fs_bytes img) [])] demo_fd = Some (Inr (True, plain)) \<and>
    fs_bytes plain = replicate 2048 7"
proof (rule img2simg_simg2img[OF _ demo_script_ok _ demo_fresh demo_fresh])
  show "convertible 1024 (replicate 2048 7)"
    by (simp add: convertible_def MAX_BACKED_BLOCK_SIZE_def word_le_nat_alt)
qed (simp add: no_failure_def)



section \<open>Pieces\<close>

lemma concat_images:
  assumes "0 < bs" "blocks_sorted bs (concat (map sf_blocks ps))"
  shows "image_map src bs (concat (map sf_blocks ps)) pos = Some b \<longleftrightarrow> (\<exists>p\<in>set ps. image_map src bs (sf_blocks p) pos = Some b)"
    "sorted_wrt (\<lambda>p q. dom (image_map src bs (sf_blocks p)) \<inter> dom (image_map src bs (sf_blocks q)) = {}) ps"
proof -
  have dis: "dom (image_map src bs xs) \<inter> dom (image_map src bs ys) = {}" if "blocks_sorted bs (xs @ ys)" for xs ys
    unfolding dom_image_map using that dom_disjoint[OF assms(1)] by (fastforce simp: blocks_sorted_append)
  show "image_map src bs (concat (map sf_blocks ps)) pos = Some b \<longleftrightarrow> (\<exists>p\<in>set ps. image_map src bs (sf_blocks p) pos = Some b)"
    using assms(2)
  proof (induction ps)
    case (Cons p ps)
    let ?rest = "concat (map sf_blocks ps)"
    have "dom (image_map src bs (sf_blocks p)) \<inter> dom (image_map src bs ?rest) = {}" using Cons.prems by (intro dis) simp
    moreover have "blocks_sorted bs ?rest" using Cons.prems by (simp add: blocks_sorted_append)
    ultimately show ?case using Cons.IH by (auto simp: image_map_append map_add_Some_iff)
  qed simp
  show "sorted_wrt (\<lambda>p q. dom (image_map src bs (sf_blocks p)) \<inter> dom (image_map src bs (sf_blocks q)) = {}) ps"
    using assms(2)
  proof (induction ps)
    case (Cons p ps)
    have "dom (image_map src bs (sf_blocks p)) \<inter> dom (image_map src bs (sf_blocks q)) = {}" if q: "q \<in> set ps" for q
    proof (rule dis)
      obtain pre post where "ps = pre @ q # post" using split_list[OF q] by blast
      with Cons.prems show "blocks_sorted bs (sf_blocks p @ sf_blocks q)" by (simp add: blocks_sorted_append)
    qed
    moreover have "blocks_sorted bs (concat (map sf_blocks ps))" using Cons.prems by (simp add: blocks_sorted_append)
    ultimately show ?case using Cons.IH by simp
  qed simp
qed

lemma piece_writable:
  assumes p: "piece_ok src w (unat len div unat w) len p" and s: "sf_writable src s" "sf_block_size s = w" "sf_len s = len"
  shows "sf_writable src p"
  using assms by (auto simp: sf_writable_iff piece_ok_def writable_list_def Let_def)

lemma piece_length:
  assumes p: "sf_writable src p" "fits_in src (sf_block_size p) max_len (sf_blocks p)" and env: "env_ok env src"
  shows "\<exists>n. sparse_file_len env p True False = Inr (of_nat n) \<and> n \<le> unat max_len"
proof -
  let ?bs = "unat (sf_block_size p)" and ?n = "unat (sf_len p) div unat (sf_block_size p)"
  have "file_chunks src p = block_chunks src ?bs 0 (sf_blocks p) 0 @ gap_chunk (list_end ?bs (sf_blocks p)) ?n"
    unfolding file_chunks_def Let_def list_end_def block_chunks_end ..
  then have "length (sparse_image src p False) \<le> 40 + list_bytes src ?bs 0 (sf_blocks p)"
    by (simp add: sparse_image_def Let_def list_bytes_def gap_chunk_def chunk_image_def chunk_hdr.length_image
        sparse_hdr.length_image CHUNK_HEADER_LEN_def SPARSE_HEADER_LEN_def)
  then show ?thesis using sparse_file_len_image[OF sf_writableD(1,2)[OF p(1)] env, of False] p(2)
    by (intro exI[of _ "length (sparse_image src p False)"]) (simp add: fits_in_def)
qed

text \<open>
  C26: \<open>sparse_file_resparse\<close> with room for at least eight blocks ends. It returns the number \<open>m\<close> of pieces;
  the first of them, as many as the caller has room for, are stored and every stored piece takes at most
  \<open>max_len\<close> bytes when it is written. The stored pieces and what remains in the file are well formed,
  disjoint, and together have exactly the bytes of the file.
\<close>

theorem sparse_file_resparse_pieces:
  assumes "sf_writable src s" "env_ok env src" "unat (sf_len s) < 2 ^ 62"
    and "68 + 8 * unat (sf_block_size s) \<le> unat max_len"
  shows "\<exists>m rest outs. sparse_file_resparse env s max_len cnt = Some (Inr (int m, rest, outs)) \<and> 0 < m \<and>
    length outs = min m (nat cnt) \<and>
    (\<forall>p\<in>set (outs @ [rest]). sf_writable src p \<and> sf_block_size p = sf_block_size s \<and> sf_len p = sf_len s) \<and>
    (\<forall>p\<in>set outs. \<exists>n. sparse_file_len env p True False = Inr (of_nat n) \<and> n \<le> unat max_len) \<and>
    (\<forall>pos b. bbl_image src (sf_list s) pos = Some b \<longleftrightarrow> (\<exists>p\<in>set (outs @ [rest]). bbl_image src (sf_list p) pos = Some b)) \<and>
    sorted_wrt (\<lambda>p q. dom (bbl_image src (sf_list p)) \<inter> dom (bbl_image src (sf_list q)) = {}) (outs @ [rest])"
proof -
  let ?w = "sf_block_size s" and ?len = "sf_len s" and ?k = "unat (sf_len s) div unat (sf_block_size s)"
  note ok = sf_okD[OF sf_writableD(1)[OF assms(1)]]
  have s: "piece_ok src ?w ?k ?len s" using assms(1,3) ok(6) by (simp add: piece_ok_def writable_list_def sf_writable_iff Let_def)
  have tmp: "piece_ok src ?w ?k ?len (sparse_file_new ?w ?len)"
    using ok(1,3,6) assms(3) by (simp add: piece_ok_def writable_list_def bbl_ok_def sparse_file_new_def backed_block_list_new_def)
  have "blocks_sorted (unat ?w) (sf_blocks (sparse_file_new ?w ?len) @ sf_blocks s)" using ok(4) by simp
  moreover have "enough ?w max_len" using assms(4) by (simp add: enough_def)
  ultimately have "\<exists>m in' outs'. resparse_loop env max_len cnt s (sparse_file_new ?w ?len) [] 0 = Some (Inr (int (0 + m), in', [] @ outs')) \<and> 0 < m \<and>
      length outs' = min m (nat (cnt - int 0)) \<and> piece_ok src ?w ?k ?len in' \<and>
      (\<forall>p\<in>set outs'. piece_ok src ?w ?k ?len p \<and> fits_in src ?w max_len (sf_blocks p)) \<and>
      blocks_sorted (unat ?w) (concat (map sf_blocks outs') @ sf_blocks in') \<and>
      image_map src (unat ?w) (concat (map sf_blocks outs') @ sf_blocks in') =
        image_map src (unat ?w) (sf_blocks (sparse_file_new ?w ?len) @ sf_blocks s)"
    by (intro resparse_loop_ok[OF s tmp _ _ assms(2) _ sf_len_blocks[OF sf_writableD(1)[OF assms(1)]]]) simp_all
  then obtain m rest outs where
    "resparse_loop env max_len cnt s (sparse_file_new ?w ?len) [] 0 = Some (Inr (int (0 + m), rest, [] @ outs))" "0 < m"
    "length outs = min m (nat (cnt - int 0))" and r1: "piece_ok src ?w ?k ?len rest"
    "\<forall>p\<in>set outs. piece_ok src ?w ?k ?len p \<and> fits_in src ?w max_len (sf_blocks p)"
    "blocks_sorted (unat ?w) (concat (map sf_blocks outs) @ sf_blocks rest)"
    "image_map src (unat ?w) (concat (map sf_blocks outs) @ sf_blocks rest) =
      image_map src (unat ?w) (sf_blocks (sparse_file_new ?w ?len) @ sf_blocks s)" by blast
  then have r0: "sparse_file_resparse env s max_len cnt = Some (Inr (int m, rest, outs))" "0 < m" "length outs = min m (nat cnt)"
    by (simp_all add: sparse_file_resparse_def)
  have "image_map src (unat ?w) (concat (map sf_blocks outs) @ sf_blocks rest) = image_map src (unat ?w) (sf_blocks s)"
    using r1(4) by simp
  note r = r0 r1(1-3) this
  let ?ps = "outs @ [rest]"
  have p: "piece_ok src ?w ?k ?len p" if "p \<in> set ?ps" for p using that r(4,5) by auto
  have wr: "sf_writable src p \<and> sf_block_size p = ?w \<and> sf_len p = ?len" if "p \<in> set ?ps" for p
    using piece_writable[OF p[OF that] assms(1) refl refl] p[OF that] unfolding piece_ok_def by blast
  have img: "bbl_image src (sf_list p) = image_map src (unat ?w) (sf_blocks p)" if "p \<in> set ?ps" for p
    using p[OF that] unfolding piece_ok_def writable_list_def bbl_image_def by metis
  have img_s: "bbl_image src (sf_list s) = image_map src (unat ?w) (sf_blocks s)"
    using s by (simp add: bbl_image_def piece_ok_def writable_list_def)
  have cat: "concat (map sf_blocks ?ps) = concat (map sf_blocks outs) @ sf_blocks rest" by simp
  note ci = concat_images[OF ok(2) r(6)[folded cat], of src]
  have "bbl_image src (sf_list s) pos = Some b \<longleftrightarrow> (\<exists>p\<in>set ?ps. bbl_image src (sf_list p) pos = Some b)" for pos b
    using ci(1)[of pos b] img unfolding cat r(7) img_s by metis
  moreover have "sorted_wrt (\<lambda>p q. dom (bbl_image src (sf_list p)) \<inter> dom (bbl_image src (sf_list q)) = {}) ?ps"
    by (rule sorted_wrt_mono_rel[OF _ ci(2)]) (simp only: img)
  moreover have "\<exists>n. sparse_file_len env p True False = Inr (of_nat n) \<and> n \<le> unat max_len" if "p \<in> set outs" for p
  proof -
    have "sf_writable src p" "sf_block_size p = ?w" using wr[of p] that by simp_all
    then show ?thesis using piece_length[OF _ _ assms(2), of p max_len] r(5) that by metis
  qed
  ultimately show ?thesis using r(1-3) wr by blast
qed

theorem sparse_file_resparse_pieces_witness:
  "\<exists>m rest outs. sparse_file_resparse demo_env demo_file 100 2 = Some (Inr (int m, rest, outs)) \<and> 0 < m \<and>
    length outs = min m (nat 2) \<and>
    (\<forall>p\<in>set (outs @ [rest]). sf_writable demo_src p \<and> sf_block_size p = sf_block_size demo_file \<and> sf_len p = sf_len demo_file) \<and>
    (\<forall>p\<in>set outs. \<exists>n. sparse_file_len demo_env p True False = Inr (of_nat n) \<and> n \<le> unat (100 :: u32)) \<and>
    (\<forall>pos b. bbl_image demo_src (sf_list demo_file) pos = Some b \<longleftrightarrow>
      (\<exists>p\<in>set (outs @ [rest]). bbl_image demo_src (sf_list p) pos = Some b)) \<and>
    sorted_wrt (\<lambda>p q. dom (bbl_image demo_src (sf_list p)) \<inter> dom (bbl_image demo_src (sf_list q)) = {}) (outs @ [rest])"
  by (rule sparse_file_resparse_pieces[OF portableD(1)[OF demo_portable] demo_env_ok]) (simp_all add: demo_file_def)

section \<open>Any image\<close>


text \<open>The assertion does fail: for an image whose first chunk fills no block.\<close>

definition zero_fill_image :: "u8 list" where
  "zero_fill_image = enc_sparse_header (sparse_header_of 4 1 2 False) @ chunk_bytes 4 (Fill 0 0) @ chunk_bytes 4 (Fill 0 1)"

lemma zero_fill_image_aborts: "sparse_file_import_buf zero_fill_image False False = Inl CheckFailed"
  by code_simp

text \<open>
  The crc of a file with a hole is not the crc of its bytes: the writer leaves the hole out, the reader
  (and the comment in \<open>sparse_format.h\<close>) counts it as zeros.
\<close>

lemma hole_crc_differs: "\<not> crc_agrees src (sparse_file_new 4 4)"
proof -
  have "file_chunks src (sparse_file_new 4 4) = [DontCare 1]"
    by (simp add: file_chunks_def sparse_file_new_def backed_block_list_new_def gap_chunk_def)
  moreover have "sparse_crc32 0 (replicate 4 0) \<noteq> 0" by code_simp
  ultimately show ?thesis
    by (simp add: crc_agrees_def expanded_image_def sparse_file_new_def)
qed

end
