(* ===== verification/LpImages.thy ===== *)
theory LpImages imports LpWriter SpRead begin

text \<open>
  The first part of \<open>fs_mgr/liblp/images.cpp\<close>: metadata in a regular file (\<open>super_empty.img\<close>), and the
  two functions of \<open>libbase/file.cpp\<close> that move all the bytes asked for. A file that is read is the list
  of its bytes (\<open>None\<close> when it cannot be opened), a file that is written a \<open>file_sink\<close>.
\<close>

section \<open>All the bytes\<close>

text \<open>
  \<open>WriteFully\<close> and \<open>ReadFully\<close> go on after a short or an interrupted call; the loops are those of
  \<open>file_write\<close> and \<open>read_all\<close>, and only their success is reported.
\<close>

definition WriteFully :: "u8 list \<Rightarrow> file_sink \<Rightarrow> bool \<times> file_sink" where
  "WriteFully data fd = (let (ret, fd') = file_write_loop (fs_script fd) data fd in (ret = 0, fd'))"

definition fd_ReadFully :: "nat \<Rightarrow> fd_state \<Rightarrow> bool \<times> u8 list \<times> fd_state" where
  "fd_ReadFully n fd = (let (ret, d, fd') = read_loop (rd_script fd) n [] fd in (ret = 0, d, fd'))"

section \<open>Reading\<close>

definition IsEmptySuperImage :: "u8 list option \<Rightarrow> bool" where
  "IsEmptySuperImage opened =
     (case opened of None \<Rightarrow> False | Some bytes \<Rightarrow>
      if length bytes < LP_METADATA_GEOMETRY_SIZE then False
      else case ReadFully sizeof_geometry bytes of
             None \<Rightarrow> False
           | Some (buffer, _) \<Rightarrow> g_magic (dec_geometry buffer) = LP_METADATA_GEOMETRY_MAGIC)"

definition ReadFromImageFile :: "(u8 list \<Rightarrow> u8 list) \<Rightarrow> u8 list option \<Rightarrow> LpMetadata option run" where
  "ReadFromImageFile sha opened =
     (case opened of None \<Rightarrow> Inr None | Some bytes \<Rightarrow>
      case SeekFile64 bytes 0 of None \<Rightarrow> Inr None | Some reader \<Rightarrow>
      case ReadFully LP_METADATA_GEOMETRY_SIZE reader of None \<Rightarrow> Inr None | Some (buffer, reader') \<Rightarrow>
        bind_null (ParseGeometry sha buffer) (\<lambda>geometry. ParseMetadata sha geometry reader'))"

definition ReadFromImageBlob :: "(u8 list \<Rightarrow> u8 list) \<Rightarrow> u8 list \<Rightarrow> LpMetadata option run" where
  "ReadFromImageBlob sha data =
     (if length data < LP_METADATA_GEOMETRY_SIZE then Inr None
      else bind_null (ParseGeometry sha data) (\<lambda>geometry.
             ParseMetadata sha geometry (drop LP_METADATA_GEOMETRY_SIZE data)))"

section \<open>Writing\<close>

definition WriteToImageFd :: "(u8 list \<Rightarrow> u8 list) \<Rightarrow> LpMetadata \<Rightarrow> file_sink \<Rightarrow> (bool \<times> file_sink) run" where
  "WriteToImageFd sha input fd =
     bind_run (SerializeMetadata sha input) (\<lambda>metadata.
       Inr (WriteFully (SerializeGeometry sha (m_geometry input) @ metadata) fd))"

text \<open>
  The file system is a map from paths to contents. \<open>tmpfile\<close> is the temporary file in the directory of
  \<open>file\<close> (\<open>None\<close> when \<open>mkstemp\<close> fails, and every write to descriptor \<open>- 1\<close> with it), \<open>renamed\<close> whether
  \<open>rename\<close> succeeds. The temporary file has a fresh name and is removed on failure, so it is not an
  entry of the map. The results of \<open>fsync\<close> and \<open>FsyncDirectory\<close> are not looked at.
\<close>

definition WriteToImageFile ::
  "(u8 list \<Rightarrow> u8 list) \<Rightarrow> file_sink option \<Rightarrow> bool \<Rightarrow> string \<Rightarrow> LpMetadata \<Rightarrow> (string \<rightharpoonup> u8 list)
    \<Rightarrow> (bool \<times> (string \<rightharpoonup> u8 list)) run" where
  "WriteToImageFile sha tmpfile renamed file input fs =
     bind_run (case tmpfile of
                 None \<Rightarrow> bind_run (SerializeMetadata sha input) (\<lambda>_. Inr (False, []))
               | Some fd \<Rightarrow> bind_run (WriteToImageFd sha input fd) (\<lambda>(ok, fd'). Inr (ok, fs_bytes fd')))
       (\<lambda>(ok, bytes).
          if \<not> ok then Inr (False, fs)
          else if \<not> renamed then Inr (False, fs)
          else Inr (True, fs(file \<mapsto> bytes)))"

end
