(* ===== verification/LpLayout.thy ===== *)
theory LpLayout imports LpImages LpAlloc LpExport begin

text \<open>
  \<open>fs_mgr/liblp/super_layout_builder.cpp\<close> and its header: the layout of a super image as a list of
  extents, computed from a \<open>super_empty.img\<close> and the images of its partitions.
\<close>

section \<open>Extents of the image\<close>

datatype extent_type = INVALID | DATA | PARTITION | ZERO | DONTCARE

text \<open>\<open>blob\<close> is a shared pointer, null unless the type is \<open>DATA\<close>.\<close>

record SuperImageExtent =
  se_offset :: u64
  se_size :: u64
  se_type :: extent_type
  se_blob :: "u8 list option"
  se_image_name :: string
  se_image_offset :: u64

text \<open>The three constructors.\<close>

definition plain_extent :: "u64 \<Rightarrow> u64 \<Rightarrow> extent_type \<Rightarrow> SuperImageExtent" where
  "plain_extent offset size0 ty = \<lparr>se_offset = offset, se_size = size0, se_type = ty, se_blob = None,
     se_image_name = [], se_image_offset = 0\<rparr>"

definition data_extent :: "u64 \<Rightarrow> u8 list \<Rightarrow> SuperImageExtent" where
  "data_extent offset blob = (plain_extent offset (of_nat (length blob)) DATA)\<lparr>se_blob := Some blob\<rparr>"

definition partition_extent :: "u64 \<Rightarrow> u64 \<Rightarrow> string \<Rightarrow> u64 \<Rightarrow> SuperImageExtent" where
  "partition_extent offset size0 image_name image_offset =
     (plain_extent offset size0 PARTITION)\<lparr>se_image_name := image_name, se_image_offset := image_offset\<rparr>"

text \<open>\<open>operator==\<close>, which dereferences the blobs of two extents of type \<open>DATA\<close>.\<close>

definition super_extent_eq :: "SuperImageExtent \<Rightarrow> SuperImageExtent \<Rightarrow> bool run" where
  "super_extent_eq a b =
     (if se_offset a \<noteq> se_offset b then Inr False
      else if se_size a \<noteq> se_size b then Inr False
      else if se_type a \<noteq> se_type b then Inr False
      else case se_type a of
             DATA \<Rightarrow> (case (se_blob a, se_blob b) of
                        (Some x, Some y) \<Rightarrow> Inr (x = y)
                      | _ \<Rightarrow> Inl NullPointer)
           | PARTITION \<Rightarrow> Inr (se_image_name a = se_image_name b \<and> se_image_offset a = se_image_offset b)
           | _ \<Rightarrow> Inr True)"

section \<open>The builder\<close>

text \<open>\<open>builder_\<close> is null until \<open>Open\<close> has succeeded.\<close>

record SuperLayoutBuilder =
  sl_builder :: "MetadataBuilder option"
  sl_image_map :: "string \<rightharpoonup> string"

definition new_layout_builder :: SuperLayoutBuilder where
  "new_layout_builder = \<lparr>sl_builder = None, sl_image_map = Map.empty\<rparr>"

definition supported_partition :: "LpMetadataPartition \<Rightarrow> bool" where
  "supported_partition p \<longleftrightarrow>
     \<not> and (p_attributes p) LP_PARTITION_ATTR_SLOT_SUFFIXED \<noteq> 0 \<and>
     \<not> and (p_attributes p) LP_PARTITION_ATTR_READONLY = 0"

definition Open :: "SuperLayoutBuilder \<Rightarrow> LpMetadata \<Rightarrow> (bool \<times> SuperLayoutBuilder) run" where
  "Open s metadata =
     (if \<not> list_all supported_partition (m_partitions metadata) then Inr (False, s)
      else if m_extents metadata \<noteq> [] then Inr (False, s)
      else if length (m_block_devices metadata) \<noteq> 1 then Inr (False, s)
      else bind_run (InitMetadata metadata) (\<lambda>b. Inr (b \<noteq> None, s\<lparr>sl_builder := b\<rparr>)))"

text \<open>The other two overloads, on an open file and on a buffer.\<close>

definition Open_read :: "SuperLayoutBuilder \<Rightarrow> LpMetadata option run \<Rightarrow> (bool \<times> SuperLayoutBuilder) run" where
  "Open_read s r = bind_run r (\<lambda>m. case m of None \<Rightarrow> Inr (False, s) | Some metadata \<Rightarrow> Open s metadata)"

definition Open_fd :: "(u8 list \<Rightarrow> u8 list) \<Rightarrow> SuperLayoutBuilder \<Rightarrow> u8 list \<Rightarrow> (bool \<times> SuperLayoutBuilder) run" where
  "Open_fd sha s bytes = Open_read s (ReadFromImageFile sha (Some bytes))"

definition Open_blob :: "(u8 list \<Rightarrow> u8 list) \<Rightarrow> SuperLayoutBuilder \<Rightarrow> u8 list \<Rightarrow> (bool \<times> SuperLayoutBuilder) run" where
  "Open_blob sha s data = Open_read s (ReadFromImageBlob sha data)"

text \<open>\<open>emplace\<close> keeps an entry that is already there.\<close>

definition emplace :: "'k \<Rightarrow> 'v \<Rightarrow> ('k \<rightharpoonup> 'v) \<Rightarrow> ('k \<rightharpoonup> 'v)" where
  "emplace k v m = (case m k of None \<Rightarrow> m(k \<mapsto> v) | Some _ \<Rightarrow> m)"

definition AddPartitionImageFile ::
  "props \<Rightarrow> SuperLayoutBuilder \<Rightarrow> string \<Rightarrow> string \<Rightarrow> u64 \<Rightarrow> (bool \<times> SuperLayoutBuilder) run" where
  "AddPartitionImageFile store s partition_name image_name partition_size =
     (case sl_builder s of None \<Rightarrow> Inl NullPointer | Some b \<Rightarrow>
      case FindPartitionB b partition_name of None \<Rightarrow> Inr (False, s) | Some i \<Rightarrow>
        bind_run (ResizePartition store b i partition_size []) (\<lambda>(ok, b').
          if \<not> ok then Inr (False, s\<lparr>sl_builder := Some b'\<rparr>)
          else Inr (True, s\<lparr>sl_builder := Some b',
                            sl_image_map := emplace partition_name image_name (sl_image_map s)\<rparr>)))"

section \<open>Gaps\<close>

text \<open>
  The loop over the sorted extents. \<open>std::sort\<close> orders by the offset alone; extents with the same offset
  (which the loop accepts only when all but the last are empty) stay in the order of the vector here.
\<close>

fun gap_loop :: "extent_type \<Rightarrow> u64 \<Rightarrow> SuperImageExtent list \<Rightarrow> SuperImageExtent list \<Rightarrow> SuperImageExtent list option" where
  "gap_loop gap_type current_offset [] out = Some out"
| "gap_loop gap_type current_offset (x # xs) out =
     (if current_offset > se_offset x then None
      else let (current_offset', out') =
             (if se_offset x \<noteq> current_offset
              then (se_offset x, out @ [plain_extent current_offset (se_offset x - current_offset) gap_type])
              else (current_offset, out))
           in gap_loop gap_type (current_offset' + se_size x) xs (out' @ [x]))"

definition AddGapExtents :: "SuperImageExtent list \<Rightarrow> extent_type \<Rightarrow> SuperImageExtent list option" where
  "AddGapExtents extents gap_type = gap_loop gap_type 0 (sort_key se_offset extents) []"

section \<open>The layout\<close>

definition kSparseAlignment :: u32 where "kSparseAlignment = 4096"

text \<open>The copies of the metadata: the primary and the backup one of each slot.\<close>

fun metadata_extents ::
  "LpMetadataGeometry \<Rightarrow> u8 list \<Rightarrow> nat list \<Rightarrow> SuperImageExtent list \<Rightarrow> SuperImageExtent list run" where
  "metadata_extents geometry blob [] extents = Inr extents"
| "metadata_extents geometry blob (i # is) extents =
     bind_run (GetPrimaryMetadataOffset geometry (of_nat i)) (\<lambda>metadata_primary.
     bind_run (GetBackupMetadataOffset geometry (of_nat i)) (\<lambda>metadata_backup.
       metadata_extents geometry blob is
         (extents @ [data_extent (of_nat metadata_primary) blob, data_extent (of_nat metadata_backup) blob])))"

text \<open>The extents of one partition; \<open>None\<close> is an extent that is not linear.\<close>

fun partition_extents ::
  "LpMetadataExtent list \<Rightarrow> string \<Rightarrow> u32 \<Rightarrow> nat \<Rightarrow> u64 \<Rightarrow> SuperImageExtent list \<Rightarrow> SuperImageExtent list option run" where
  "partition_extents table image_name idx 0 image_offset extents = Inr (Some extents)"
| "partition_extents table image_name idx (Suc n) image_offset extents =
     bind_run (vec_at table (unat idx)) (\<lambda>e.
       if e_target_type e \<noteq> LP_TARGET_TYPE_LINEAR then Inr None
       else let size0 = e_num_sectors e * LP_SECTOR_SIZE;
                super_offset = e_target_data e * LP_SECTOR_SIZE
            in partition_extents table image_name (idx + 1) n (image_offset + size0)
                 (extents @ [partition_extent super_offset size0 image_name image_offset]))"

fun all_partition_extents ::
  "LpMetadataExtent list \<Rightarrow> (string \<rightharpoonup> string) \<Rightarrow> LpMetadataPartition list \<Rightarrow> SuperImageExtent list
    \<Rightarrow> SuperImageExtent list option run" where
  "all_partition_extents table images [] extents = Inr (Some extents)"
| "all_partition_extents table images (p # ps) extents =
     (case images (GetPartitionName p) of
        None \<Rightarrow> if p_num_extents p \<noteq> 0 then Inr None else all_partition_extents table images ps extents
      | Some image_name \<Rightarrow>
          bind_null (partition_extents table image_name (p_first_extent_index p) (unat (p_num_extents p)) 0 extents)
            (all_partition_extents table images ps))"

definition layout_start :: "(u8 list \<Rightarrow> u8 list) \<Rightarrow> LpMetadataGeometry \<Rightarrow> SuperImageExtent list" where
  "layout_start sha geometry =
     (let blob = SerializeGeometry sha geometry
      in [plain_extent 0 (of_nat GetPrimaryGeometryOffset) ZERO,
          data_extent (of_nat GetPrimaryGeometryOffset) blob, data_extent (of_nat GetBackupGeometryOffset) blob])"

definition GetImageLayout :: "(u8 list \<Rightarrow> u8 list) \<Rightarrow> SuperLayoutBuilder \<Rightarrow> SuperImageExtent list run" where
  "GetImageLayout sha s =
     (case sl_builder s of None \<Rightarrow> Inl NullPointer | Some b \<Rightarrow>
      case Export b of None \<Rightarrow> Inr [] | Some metadata \<Rightarrow>
      bind_run (SerializeMetadata sha metadata) (\<lambda>bytes.
      case align_to (of_nat (length bytes) :: u64) kSparseAlignment of None \<Rightarrow> Inr [] | Some aligned \<Rightarrow>
        let blob = bytes @ replicate (unat aligned - length bytes) 0;
            geometry = m_geometry metadata
        in if length blob > unat (g_metadata_max_size geometry) then Inr []
           else bind_run (metadata_extents geometry blob [0..<unat (g_metadata_slot_count geometry)]
                            (layout_start sha geometry)) (\<lambda>extents1.
                bind_run (all_partition_extents (m_extents metadata) (sl_image_map s) (m_partitions metadata)
                            extents1) (\<lambda>r.
                  case r of None \<Rightarrow> Inr []
                  | Some extents \<Rightarrow>
                      (case AddGapExtents extents DONTCARE of None \<Rightarrow> Inr [] | Some out \<Rightarrow> Inr out)))))"

end
