(* ===== verification/LpTiles.thy ===== *)
theory LpTiles imports LpLayout LpDevice begin

text \<open>
  Lists of extents that tile an image: \<open>AddGapExtents\<close> on disjoint extents succeeds and fills the gaps,
  and writing the extents of such a list to a device leaves the bytes of each where it says.
\<close>

section \<open>Tiles\<close>

definition se_end :: "SuperImageExtent \<Rightarrow> nat" where
  "se_end x = unat (se_offset x) + unat (se_size x)"

text \<open>Every extent starts where the one before ends.\<close>

fun tiles :: "nat \<Rightarrow> SuperImageExtent list \<Rightarrow> bool" where
  "tiles pos [] = True"
| "tiles pos (x # xs) = (unat (se_offset x) = pos \<and> tiles (se_end x) xs)"

definition se_before :: "SuperImageExtent \<Rightarrow> SuperImageExtent \<Rightarrow> bool" where
  "se_before x y \<longleftrightarrow> se_end x \<le> unat (se_offset y)"

definition se_fits :: "nat \<Rightarrow> SuperImageExtent \<Rightarrow> bool" where
  "se_fits n x \<longleftrightarrow> 0 < unat (se_size x) \<and> se_end x \<le> n"

lemma tiles_append: "tiles pos (xs @ ys) \<longleftrightarrow> tiles pos xs \<and> tiles (if xs = [] then pos else se_end (last xs)) ys"
  by (induction xs arbitrary: pos) auto

lemma tiles_before:
  assumes "tiles pos xs"
  shows "sorted_wrt se_before xs \<and> (\<forall>x\<in>set xs. pos \<le> unat (se_offset x))"
  using assms
proof (induction xs arbitrary: pos)
  case (Cons x xs)
  then have "sorted_wrt se_before xs \<and> (\<forall>y\<in>set xs. se_end x \<le> unat (se_offset y))" by auto
  moreover have "pos \<le> se_end x" using Cons.prems by (auto simp: se_end_def)
  moreover have "\<forall>y\<in>set xs. se_before x y" using calculation by (simp add: se_before_def)
  ultimately show ?case using Cons.prems by (auto intro: order_trans)
qed simp

text \<open>What the loop adds to its output.\<close>

lemma plain_extent_simps [simp]:
  "se_offset (plain_extent off n ty) = off" "se_size (plain_extent off n ty) = n" "se_type (plain_extent off n ty) = ty"
  by (simp_all add: plain_extent_def)

lemma gap_loop_append:
  "gap_loop ty cur xs out = map_option ((@) out) (gap_loop ty cur xs [])"
proof (induction xs arbitrary: cur out)
  case (Cons x xs)
  show ?case
    unfolding gap_loop.simps(2)
    by (cases "cur > se_offset x"; cases "se_offset x = cur";
        simp add: Cons[of _ "out @ _"] Cons[of _ "[_]"] Cons[of _ "[_, _]"] Cons[of _ "out @ [_, _]"] option.map_comp comp_def)
qed simp

lemma gap_loop_ok:
  assumes "sorted_wrt se_before xs" "\<forall>x\<in>set xs. se_fits N x \<and> se_type x \<noteq> ty" "N < 2 ^ 64"
    and "\<forall>x\<in>set xs. unat cur \<le> unat (se_offset x)"
  shows "\<exists>new. gap_loop ty cur xs [] = Some new \<and> tiles (unat cur) new \<and> filter (\<lambda>x. se_type x \<noteq> ty) new = xs \<and>
    (\<forall>x\<in>set new. se_end x \<le> N)"
  using assms(1,2,4)
proof (induction xs arbitrary: cur)
  case Nil
  then show ?case by simp
next
  case (Cons x xs)
  have fx: "se_fits N x" "se_type x \<noteq> ty" using Cons.prems(2) by simp_all
  have e: "unat (se_offset x + se_size x) = se_end x"
    using fx(1) assms(3) by (simp add: se_end_def se_fits_def unat_add_small)
  have "\<forall>y\<in>set xs. unat (se_offset x + se_size x) \<le> unat (se_offset y)"
    using Cons.prems(1) by (simp add: e se_before_def)
  then obtain new where new: "gap_loop ty (se_offset x + se_size x) xs [] = Some new" "tiles (se_end x) new"
    "filter (\<lambda>x. se_type x \<noteq> ty) new = xs" "\<forall>x\<in>set new. se_end x \<le> N"
    using Cons.IH[of "se_offset x + se_size x"] Cons.prems(1,2) e by auto
  have le: "\<not> cur > se_offset x" using Cons.prems(3) by (simp add: word_less_nat_alt)
  show ?case
  proof (cases "se_offset x = cur")
    case True
    have "gap_loop ty cur (x # xs) [] = Some (x # new)"
      using le new(1) gap_loop_append[of ty _ xs "[x]"] True by simp
    with True new fx show ?thesis by (intro exI[of _ "x # new"]) (simp add: se_fits_def)
  next
    case False
    let ?gap = "plain_extent cur (se_offset x - cur) ty"
    have ge: "se_end ?gap = unat (se_offset x)" using Cons.prems(3) by (simp add: se_end_def unat_sub_small)
    have "gap_loop ty cur (x # xs) [] = Some (?gap # x # new)"
      using le new(1) gap_loop_append[of ty _ xs "[?gap, x]"] False by simp
    moreover have "unat (se_offset x) \<le> N" using fx(1) by (simp add: se_fits_def se_end_def)
    ultimately show ?thesis using new fx ge by (intro exI[of _ "?gap # x # new"]) (simp add: se_fits_def)
  qed
qed

text \<open>A list that is accepted tiles, whatever the extents are, as long as no offset wraps.\<close>

lemma gap_loop_tiles:
  assumes "gap_loop ty cur xs [] = Some out" "\<forall>x\<in>set xs. se_end x < 2 ^ 64"
  shows "tiles (unat cur) out \<and> (\<forall>x\<in>set out. x \<in> set xs \<or> se_type x = ty)"
  using assms
proof (induction xs arbitrary: cur out)
  case Nil
  then show ?case by simp
next
  case (Cons x xs)
  have e: "unat (se_offset x + se_size x) = se_end x"
    using Cons.prems(2) by (simp add: se_end_def unat_add_small)
  have le: "\<not> cur > se_offset x" using Cons.prems(1) by (auto split: if_splits)
  show ?case
  proof (cases "se_offset x = cur")
    case True
    then obtain new where "gap_loop ty (se_offset x + se_size x) xs [] = Some new" "out = x # new"
      using Cons.prems(1) le gap_loop_append[of ty _ xs "[x]"] by auto
    with Cons.IH[OF this(1)] Cons.prems(2) e True show ?thesis by auto
  next
    case False
    let ?gap = "plain_extent cur (se_offset x - cur) ty"
    have ge: "se_end ?gap = unat (se_offset x)" using le by (simp add: se_end_def unat_sub_small word_less_nat_alt)
    obtain new where "gap_loop ty (se_offset x + se_size x) xs [] = Some new" "out = ?gap # x # new"
      using Cons.prems(1) le False gap_loop_append[of ty _ xs "[?gap, x]"] by auto
    with Cons.IH[OF this(1)] Cons.prems(2) e ge show ?thesis by auto
  qed
qed

section \<open>Disjoint extents in any order\<close>

definition se_apart :: "SuperImageExtent \<Rightarrow> SuperImageExtent \<Rightarrow> bool" where
  "se_apart x y \<longleftrightarrow> se_before x y \<or> se_before y x"

definition all_apart :: "SuperImageExtent list \<Rightarrow> bool" where
  "all_apart xs \<longleftrightarrow> sorted_wrt se_apart xs"

lemma all_apart_sorted:
  assumes "all_apart xs" "\<forall>x\<in>set xs. se_fits N x"
  shows "sorted_wrt se_before (sort_key se_offset xs)"
proof -
  have sym: "se_apart y x" if "se_apart x y" for x y using that by (auto simp: se_apart_def)
  have ap: "se_apart (xs ! i) (xs ! j)" if "i \<noteq> j" "i < length xs" "j < length xs" for i j
    using assms(1) that sym unfolding all_apart_def sorted_wrt_iff_nth_less by (metis nat_neq_iff)
  have ne: "se_offset (xs ! i) \<noteq> se_offset (xs ! j)" if "i \<noteq> j" "i < length xs" "j < length xs" for i j
  proof -
    have "se_fits N (xs ! i)" "se_fits N (xs ! j)" using assms(2) that by auto
    with ap[OF that] show ?thesis by (auto simp: se_apart_def se_before_def se_end_def se_fits_def)
  qed
  have d: "distinct (map se_offset xs)" using ne by (auto simp: distinct_conv_nth)
  have "distinct (map se_offset (sort_key se_offset xs))"
    using d by (simp add: distinct_map inj_on_def)
  then have lt: "sorted_wrt (<) (map se_offset (sort_key se_offset xs))"
    by (simp add: strict_sorted_iff)
  have "se_before x y" if "x \<in> set xs" "y \<in> set xs" "se_offset x < se_offset y" for x y
  proof -
    have "se_apart x y" using that ap by (metis in_set_conv_nth less_irrefl)
    moreover have "se_fits N x" "se_fits N y" using assms(2) that by auto
    ultimately show ?thesis using that(3)
      by (auto simp: se_apart_def se_before_def se_end_def se_fits_def word_less_nat_alt)
  qed
  then show ?thesis using lt by (auto simp: sorted_wrt_map intro: sorted_wrt_mono_rel[rotated])
qed

lemma AddGapExtents_ok:
  assumes "all_apart xs" "\<forall>x\<in>set xs. se_fits N x \<and> se_type x \<noteq> ty" "N < 2 ^ 64"
  shows "\<exists>out. AddGapExtents xs ty = Some out \<and> tiles 0 out \<and> (\<forall>x\<in>set out. se_end x \<le> N) \<and>
    filter (\<lambda>x. se_type x \<noteq> ty) out = sort_key se_offset xs"
  using gap_loop_ok[OF all_apart_sorted[OF assms(1)], of N N ty 0] assms(2,3) by (auto simp: AddGapExtents_def)

section \<open>Writing a layout\<close>

text \<open>
  What a flashing tool does with a layout: blobs and zeros are written, the bytes of a partition come from
  its image, the rest of the device stays.
\<close>

definition extent_content :: "(string \<Rightarrow> u8 list) \<Rightarrow> SuperImageExtent \<Rightarrow> u8 list option" where
  "extent_content images x =
     (case se_type x of
        DATA \<Rightarrow> se_blob x
      | ZERO \<Rightarrow> Some (replicate (unat (se_size x)) 0)
      | PARTITION \<Rightarrow> Some (bytes_at (unat (se_image_offset x)) (unat (se_size x)) (images (se_image_name x)))
      | _ \<Rightarrow> None)"

definition flash_extent :: "(string \<Rightarrow> u8 list) \<Rightarrow> SuperImageExtent \<Rightarrow> u8 list \<Rightarrow> u8 list" where
  "flash_extent images x dev =
     (case extent_content images x of None \<Rightarrow> dev | Some c \<Rightarrow> overwrite (unat (se_offset x)) c dev)"

definition flash_layout :: "(string \<Rightarrow> u8 list) \<Rightarrow> SuperImageExtent list \<Rightarrow> u8 list \<Rightarrow> u8 list" where
  "flash_layout images xs dev = fold (flash_extent images) xs dev"

definition content_fits :: "(string \<Rightarrow> u8 list) \<Rightarrow> SuperImageExtent \<Rightarrow> bool" where
  "content_fits images x \<longleftrightarrow> (\<forall>c. extent_content images x = Some c \<longrightarrow> length c = unat (se_size x))"

lemma flash_extent_props:
  assumes "content_fits images x" "se_end x \<le> length dev"
  shows "length (flash_extent images x dev) = length dev"
    "extent_content images x = Some c \<Longrightarrow> bytes_at (unat (se_offset x)) (unat (se_size x)) (flash_extent images x dev) = c"
    "apart (unat (se_offset x)) (unat (se_size x)) off n \<Longrightarrow> bytes_at off n (flash_extent images x dev) = bytes_at off n dev"
  using assms bytes_at_overwrite[of "unat (se_offset x)" c dev] bytes_at_overwrite_apart[of "unat (se_offset x)" _ dev off n]
  by (auto simp: flash_extent_def content_fits_def se_end_def split: option.splits)

lemma flash_layout_ok:
  assumes "sorted_wrt se_before xs" "\<forall>x\<in>set xs. content_fits images x \<and> se_end x \<le> length dev"
  shows "length (flash_layout images xs dev) = length dev \<and>
    (\<forall>x\<in>set xs. \<forall>c. extent_content images x = Some c \<longrightarrow>
       bytes_at (unat (se_offset x)) (unat (se_size x)) (flash_layout images xs dev) = c) \<and>
    (\<forall>off n. (\<forall>x\<in>set xs. apart (unat (se_offset x)) (unat (se_size x)) off n) \<longrightarrow>
       bytes_at off n (flash_layout images xs dev) = bytes_at off n dev)"
  using assms
proof (induction xs arbitrary: dev)
  case Nil
  then show ?case by (simp add: flash_layout_def)
next
  case (Cons x xs)
  let ?d = "flash_extent images x dev"
  have fx: "content_fits images x" "se_end x \<le> length dev" using Cons.prems(2) by simp_all
  note p = flash_extent_props[OF fx]
  have IH: "length (flash_layout images xs ?d) = length ?d"
    "\<And>y c. y \<in> set xs \<Longrightarrow> extent_content images y = Some c \<Longrightarrow>
       bytes_at (unat (se_offset y)) (unat (se_size y)) (flash_layout images xs ?d) = c"
    "\<And>off n. (\<forall>y\<in>set xs. apart (unat (se_offset y)) (unat (se_size y)) off n) \<Longrightarrow>
       bytes_at off n (flash_layout images xs ?d) = bytes_at off n ?d"
    using Cons.IH[of ?d] Cons.prems p(1) by auto
  have "\<forall>y\<in>set xs. apart (unat (se_offset y)) (unat (se_size y)) (unat (se_offset x)) (unat (se_size x))"
    using Cons.prems(1) by (auto simp: apart_def se_before_def se_end_def)
  from IH(3)[OF this] have "extent_content images x = Some c \<Longrightarrow>
      bytes_at (unat (se_offset x)) (unat (se_size x)) (flash_layout images xs ?d) = c" for c
    using p(2) by simp
  then show ?case using IH p by (auto simp: flash_layout_def)
qed

end
