(* ===== verification/LpLayoutOk.thy ===== *)
theory LpLayoutOk imports LpTiles begin

text \<open>
  The layout that \<open>GetImageLayout\<close> computes for a builder in good order: its extents, that they are
  disjoint, and what a device holds once the layout has been written to it.
\<close>

section \<open>Reading a device that holds the copies\<close>

lemma ReadMetadata_of_copies:
  assumes sha: "\<And>x. length (sha x) = 32" and ok: "metadata_ok m" "geometry_fields_ok (m_geometry m)"
    and ser: "SerializeMetadata sha m = Inr blob" and g: "g = m_geometry m"
    and small: "total_metadata_size (unat (g_metadata_max_size g)) (unat (g_metadata_slot_count g)) < 4294967296"
    and geo: "bytes_at 4096 4096 dev = SerializeGeometry sha g" "8192 \<le> length dev"
    and copy: "bytes_at (area_offset g (unat slot)) (length blob) dev = blob" "area_offset g (unat slot) \<le> length dev"
    and slot: "unat slot < unat (g_metadata_slot_count g)"
  shows "ReadMetadata sha (Some dev) slot = AdjustMetadataForSlot (as_written sha m) slot"
proof -
  let ?s = "sealed_geometry sha g" and ?m = "m\<lparr>m_geometry := sealed_geometry sha g\<rparr>"
  have ok': "geometry_fields_ok g" and okm: "metadata_ok ?m" and ser': "SerializeMetadata sha ?m = Inr blob"
    using ok ser g by simp_all
  have rg: "ReadLogicalPartitionGeometry sha dev = Inr (Some ?s)"
    using read_geometry_bytes[of sha, OF sha ok' geo(1)] geo(2)
    by (simp add: ReadLogicalPartitionGeometry_def ReadPrimaryGeometry_def GetPrimaryGeometryOffset_def
        LP_PARTITION_RESERVED_BYTES_def)
  have "copy_offset ?s slot Primary = area_offset g (unat slot)" by (simp add: copy_offset_def area_offset_def)
  then have "ParseMetadataAt sha ?s dev (copy_offset ?s slot Primary) = Inr (Some (as_written sha m))"
    using parse_copy[of sha, OF sha okm ser' copy] by (simp add: as_written_def g)
  moreover have "exact_offsets ?s slot" using slot small by (simp add: exact_offsets_def)
  moreover have "\<not> slot \<ge> g_metadata_slot_count ?s" using slot by (simp add: word_le_nat_alt)
  ultimately show ?thesis using rg offsets_eq[of ?s slot] by (simp add: ReadMetadata_def)
qed

section \<open>The extents of the metadata\<close>

lemma data_extent_simps [simp]:
  "se_offset (data_extent off blob) = off" "se_size (data_extent off blob) = of_nat (length blob)"
  "se_type (data_extent off blob) = DATA" "se_blob (data_extent off blob) = Some blob"
  by (simp_all add: data_extent_def)

lemma partition_extent_simps [simp]:
  "se_offset (partition_extent off n nm io) = off" "se_size (partition_extent off n nm io) = n"
  "se_type (partition_extent off n nm io) = PARTITION"
  "se_image_name (partition_extent off n nm io) = nm" "se_image_offset (partition_extent off n nm io) = io"
  by (simp_all add: partition_extent_def)

abbreviation slot_indices :: "nat \<Rightarrow> nat list \<Rightarrow> nat list" where
  "slot_indices n is \<equiv> concat (map (\<lambda>i. [i, n + i]) is)"

lemma slots_offsets_indices:
  "slots_offsets g is = map (area_offset g) (slot_indices (unat (g_metadata_slot_count g)) is)"
  by (simp add: slots_offsets_def map_concat comp_def)

lemma slot_indices_props:
  "m \<le> n \<Longrightarrow> distinct (slot_indices n [0..<m])" "set (slot_indices n [0..<m]) = {0..<m} \<union> {n..<n + m}"
proof -
  show s: "set (slot_indices n [0..<m]) = {0..<m} \<union> {n..<n + m}" for m by (induction m) auto
  show "distinct (slot_indices n [0..<m])" if "m \<le> n"
    using that
  proof (induction m)
    case (Suc m)
    with s[of m] show ?case by auto
  qed simp
qed

lemma metadata_extents_eq:
  assumes "\<forall>i\<in>set is. i < unat (g_metadata_slot_count g)"
    and "total_metadata_size (unat (g_metadata_max_size g)) (unat (g_metadata_slot_count g)) < 4294967296"
  shows "metadata_extents g blob is extents =
    Inr (extents @ map (\<lambda>o'. data_extent (of_nat o') blob) (slots_offsets g is))"
  using assms(1)
proof (induction "is" arbitrary: extents)
  case Nil
  then show ?case by (simp add: slots_offsets_def)
next
  case (Cons i "is")
  have i: "i < unat (g_metadata_slot_count g)" using Cons.prems by simp
  have u: "unat (of_nat i :: u32) = i" by (rule unat_of_nat_slot[OF i])
  have "GetPrimaryMetadataOffset g (of_nat i) = Inr (area_offset g i)"
    "GetBackupMetadataOffset g (of_nat i) = Inr (area_offset g (unat (g_metadata_slot_count g) + i))"
    using GetPrimaryMetadataOffset_exact[of "of_nat i" g] GetBackupMetadataOffset_exact[of "of_nat i" g] i u assms(2)
    by (simp_all add: area_offset_def)
  then show ?case using Cons by (simp add: slots_offsets_def)
qed

section \<open>The extents of the partitions\<close>

definition image_piece :: "string \<Rightarrow> u64 \<Rightarrow> Extent \<Rightarrow> SuperImageExtent" where
  "image_piece nm off e = partition_extent (physical_sector e * LP_SECTOR_SIZE) (num_sectors e * LP_SECTOR_SIZE) nm off"

fun image_pieces :: "string \<Rightarrow> u64 \<Rightarrow> Extent list \<Rightarrow> SuperImageExtent list" where
  "image_pieces nm off [] = []"
| "image_pieces nm off (e # es) = image_piece nm off e # image_pieces nm (off + num_sectors e * LP_SECTOR_SIZE) es"

definition partition_pieces :: "(string \<rightharpoonup> string) \<Rightarrow> Partition \<Rightarrow> SuperImageExtent list" where
  "partition_pieces images p = (case images (pt_name p) of None \<Rightarrow> [] | Some nm \<Rightarrow> image_pieces nm 0 (pt_extents p))"

lemma partition_extents_eq:
  assumes "list_all is_linear es" "unat idx + length es \<le> length table" "length table < 4294967296"
    and "take (length es) (drop (unat idx) table) = map extent_entry es"
  shows "partition_extents table nm idx (length es) off out = Inr (Some (out @ image_pieces nm off es))"
  using assms(1,2,4)
proof (induction es arbitrary: idx off out)
  case Nil
  then show ?case by simp
next
  case (Cons e es)
  have lt: "unat idx < length table" using Cons.prems(2) by simp
  have u: "unat (idx + 1) = Suc (unat idx)" using lt assms(3) by (subst unat_add_small) simp_all
  have d: "drop (unat idx) table = table ! unat idx # drop (Suc (unat idx)) table" by (rule Cons_nth_drop_Suc[symmetric, OF lt])
  then have t: "table ! unat idx = extent_entry e" "take (length es) (drop (unat (idx + 1)) table) = map extent_entry es"
    using Cons.prems(3) u by simp_all
  obtain n dv p where e: "e = LinearExtent n dv p" using Cons.prems(1) by (cases e) auto
  have "partition_extents table nm (idx + 1) (length es) (off + n * LP_SECTOR_SIZE) (out @ [image_piece nm off e]) =
      Inr (Some ((out @ [image_piece nm off e]) @ image_pieces nm (off + n * LP_SECTOR_SIZE) es))"
    by (rule Cons.IH) (use Cons.prems t(2) u in simp_all)
  then show ?case using lt t(1) by (simp add: e image_piece_def Let_def)
qed

lemma all_partition_extents_eq:
  assumes ps: "list_all (\<lambda>p. storable_name (pt_name p) \<and> list_all is_linear (pt_extents p) \<and>
      (pt_extents p \<noteq> [] \<longrightarrow> images (pt_name p) \<noteq> None)) ps"
    and table: "drop first table = all_extents ps" "first \<le> length table" "length table < 4294967296"
  shows "all_partition_extents table images (partition_entries idx first ps) out =
    Inr (Some (out @ concat (map (partition_pieces images) ps)))"
  using ps table(1,2)
proof (induction ps arbitrary: first out)
  case Nil
  then show ?case by simp
next
  case (Cons p ps)
  let ?e = "partition_entry idx first p" and ?es = "pt_extents p"
  have pn: "GetPartitionName ?e = pt_name p"
    using Cons.prems(1) by (simp add: GetPartitionName_def partition_entry_def)
  have dl: "drop first table = map extent_entry ?es @ all_extents ps" using Cons.prems(2) by simp
  have len: "first + length ?es \<le> length table" using arg_cong[OF dl, of length] Cons.prems(3) by simp
  have u: "unat (p_num_extents ?e) = length ?es" "?es \<noteq> [] \<longrightarrow> unat (p_first_extent_index ?e) = first"
    using len table(3) by (auto simp: partition_entry_def unat_of_nat_small)
  have z: "?es = [] \<Longrightarrow> p_num_extents ?e = 0" by (simp add: partition_entry_def)
  have IH: "all_partition_extents table images (partition_entries idx (first + length ?es) ps) out' =
      Inr (Some (out' @ concat (map (partition_pieces images) ps)))" for out'
  proof (rule Cons.IH)
    show "drop (first + length ?es) table = all_extents ps"
      using arg_cong[OF dl, of "drop (length ?es)"] by (simp add: add.commute)
  qed (use Cons.prems(1) len in simp_all)
  show ?case
  proof (cases "images (pt_name p)")
    case None
    then have "?es = []" using Cons.prems(1) by auto
    moreover from this None have "partition_pieces images p = []" by (simp add: partition_pieces_def)
    ultimately show ?thesis using None z IH[of out] pn by simp
  next
    case (Some nm)
    have "partition_extents table nm (p_first_extent_index ?e) (unat (p_num_extents ?e)) 0 out =
        Inr (Some (out @ image_pieces nm 0 ?es))"
    proof (cases "?es = []")
      case False
      then show ?thesis
        unfolding u(1) using partition_extents_eq[of ?es "p_first_extent_index ?e" table nm 0 out] Cons.prems(1) u(2) len dl table(3)
        by simp
    qed (simp add: u(1))
    moreover have "partition_pieces images p = image_pieces nm 0 ?es" using Some by (simp add: partition_pieces_def)
    ultimately show ?thesis using Some pn IH[of "out @ image_pieces nm 0 ?es"] by simp
  qed
qed

section \<open>Disjointness\<close>

lemma sorted_wrt_distinct:
  "distinct xs \<Longrightarrow> \<forall>x\<in>set xs. \<forall>y\<in>set xs. x \<noteq> y \<longrightarrow> R x y \<Longrightarrow> sorted_wrt R xs"
  by (induction xs) auto

lemma all_apart_append:
  "all_apart (xs @ ys) \<longleftrightarrow> all_apart xs \<and> all_apart ys \<and> (\<forall>x\<in>set xs. \<forall>y\<in>set ys. se_apart x y)"
  by (auto simp: all_apart_def sorted_wrt_append)

text \<open>The range of bytes of an extent of a partition.\<close>

abbreviation e_start :: "Extent \<Rightarrow> nat" where "e_start e \<equiv> unat (physical_sector e) * 512"
abbreviation e_stop :: "Extent \<Rightarrow> nat" where "e_stop e \<equiv> (unat (physical_sector e) + unat (num_sectors e)) * 512"

definition byte_extent :: "nat \<Rightarrow> nat \<Rightarrow> Extent \<Rightarrow> bool" where
  "byte_extent lo n e \<longleftrightarrow> is_linear e \<and> device_index e = 0 \<and> 0 < unat (num_sectors e) \<and> lo \<le> e_start e \<and> e_stop e \<le> n"

definition e_apart :: "Extent \<Rightarrow> Extent \<Rightarrow> bool" where
  "e_apart d e \<longleftrightarrow> e_stop d \<le> e_start e \<or> e_stop e \<le> e_start d"

lemma phys_apart:
  assumes "distinct (phys es)" "list_all (byte_extent lo n) es"
  shows "sorted_wrt e_apart es"
  using assms
proof (induction es)
  case (Cons e es)
  obtain k p where e: "e = LinearExtent k 0 p" "0 < unat k" using Cons.prems(2) by (cases e) (auto simp: byte_extent_def)
  have "e_apart e d" if d: "d \<in> set es" for d
  proof -
    obtain k' p' where d': "d = LinearExtent k' 0 p'" "0 < unat k'"
      using Cons.prems(2) d by (cases d) (auto simp: byte_extent_def list_all_iff)
    have "{0} \<times> {unat p'..<unat p' + unat k'} \<subseteq> set (phys es)" using d d'(1) by (auto simp: set_phys intro!: bexI[of _ d])
    then have dis: "{unat p..<unat p + unat k} \<inter> {unat p'..<unat p' + unat k'} = {}"
      using Cons.prems(1) by (fastforce simp: e(1))
    have "unat p + unat k \<le> unat p' \<or> unat p' + unat k' \<le> unat p"
    proof (rule ccontr)
      assume "\<not> ?thesis"
      then have "max (unat p) (unat p') \<in> {unat p..<unat p + unat k} \<inter> {unat p'..<unat p' + unat k'}"
        using e(2) d'(2) by auto
      with dis show False by blast
    qed
    then show ?thesis by (auto simp: e_apart_def e(1) d'(1))
  qed
  with Cons show ?case by (auto simp: e(1))
qed simp

text \<open>A piece has the range of its extent.\<close>

lemma piece_range:
  assumes "byte_extent lo n e" "n < 2 ^ 64"
  shows "unat (se_offset (image_piece nm off e)) = e_start e" "unat (se_size (image_piece nm off e)) = unat (num_sectors e) * 512"
    "se_end (image_piece nm off e) = e_stop e" "se_fits n (image_piece nm off e)"
proof -
  have "e_stop e < 2 ^ 64" using assms by (simp add: byte_extent_def)
  then have lt: "e_start e < 2 ^ 64" "unat (num_sectors e) * 512 < 2 ^ 64" by (simp_all add: add_mult_distrib)
  show o': "unat (se_offset (image_piece nm off e)) = e_start e"
    "unat (se_size (image_piece nm off e)) = unat (num_sectors e) * 512"
    using lt by (simp_all add: image_piece_def LP_SECTOR_SIZE_def unat_mult_small)
  then show "se_end (image_piece nm off e) = e_stop e" by (simp add: se_end_def add_mult_distrib)
  then show "se_fits n (image_piece nm off e)" using assms(1) o' by (simp add: se_fits_def byte_extent_def)
qed

lemma image_pieces_range:
  assumes "list_all (byte_extent lo n) es" "n < 2 ^ 64"
  shows "map (\<lambda>x. (unat (se_offset x), se_end x)) (image_pieces nm off es) = map (\<lambda>e. (e_start e, e_stop e)) es"
    "x \<in> set (image_pieces nm off es) \<Longrightarrow> se_fits n x \<and> lo \<le> unat (se_offset x) \<and> se_type x = PARTITION"
  using assms(1)
proof (induction es arbitrary: off)
  case (Cons e es)
  {
    case 1
    then have "byte_extent lo n e" by simp
    from piece_range(1,3)[OF this assms(2)] 1 Cons.IH(1) show ?case by simp
  next
    case 2
    have e: "byte_extent lo n e" using 2 by simp
    from 2 consider "x = image_piece nm off e" | "x \<in> set (image_pieces nm (off + num_sectors e * LP_SECTOR_SIZE) es)" by auto
    then show ?case
    proof cases
      case 1
      then show ?thesis using piece_range[OF e assms(2)] e by (simp add: byte_extent_def image_piece_def)
    qed (use Cons.IH(2) 2 in auto)
  }
qed simp_all

lemma partition_pieces_range:
  assumes ps: "list_all (\<lambda>p. list_all (byte_extent lo n) (pt_extents p) \<and> (pt_extents p \<noteq> [] \<longrightarrow> images (pt_name p) \<noteq> None)) ps"
    and n: "n < 2 ^ 64"
  shows "map (\<lambda>x. (unat (se_offset x), se_end x)) (concat (map (partition_pieces images) ps)) =
      map (\<lambda>e. (e_start e, e_stop e)) (concat (map pt_extents ps))"
    "\<forall>x\<in>set (concat (map (partition_pieces images) ps)). se_fits n x \<and> lo \<le> unat (se_offset x) \<and> se_type x = PARTITION"
proof -
  have one: "map (\<lambda>x. (unat (se_offset x), se_end x)) (partition_pieces images p) = map (\<lambda>e. (e_start e, e_stop e)) (pt_extents p) \<and>
      (\<forall>x\<in>set (partition_pieces images p). se_fits n x \<and> lo \<le> unat (se_offset x) \<and> se_type x = PARTITION)"
    if p: "p \<in> set ps" for p
  proof (cases "images (pt_name p)")
    case None
    then have "pt_extents p = []" using p ps by (auto simp: list_all_iff)
    then show ?thesis using None by (simp add: partition_pieces_def)
  next
    case (Some nm)
    have "list_all (byte_extent lo n) (pt_extents p)" using p ps by (simp add: list_all_iff)
    from image_pieces_range[OF this n] Some show ?thesis by (auto simp: partition_pieces_def)
  qed
  have c: "map f (concat (map (partition_pieces images) ps)) = map g (concat (map pt_extents ps))"
    if "\<forall>p\<in>set ps. map f (partition_pieces images p) = map g (pt_extents p)"
    for f :: "SuperImageExtent \<Rightarrow> nat \<times> nat" and g :: "Extent \<Rightarrow> nat \<times> nat" and ps
    using that by (induction ps) simp_all
  show "map (\<lambda>x. (unat (se_offset x), se_end x)) (concat (map (partition_pieces images) ps)) =
      map (\<lambda>e. (e_start e, e_stop e)) (concat (map pt_extents ps))"
    by (rule c) (use one in blast)
  show "\<forall>x\<in>set (concat (map (partition_pieces images) ps)). se_fits n x \<and> lo \<le> unat (se_offset x) \<and> se_type x = PARTITION"
    using one by auto
qed

lemma pieces_apart:
  assumes "map (\<lambda>x. (unat (se_offset x), se_end x)) xs = map (\<lambda>e. (e_start e, e_stop e)) es" "sorted_wrt e_apart es"
  shows "all_apart xs"
proof -
  let ?R = "\<lambda>(a, b) (c, d). b \<le> c \<or> d \<le> (a :: nat)"
  have "sorted_wrt ?R (map (\<lambda>e. (e_start e, e_stop e)) es)"
    using assms(2) by (simp add: sorted_wrt_map e_apart_def[abs_def])
  then have "sorted_wrt ?R (map (\<lambda>x. (unat (se_offset x), se_end x)) xs)" using assms(1) by simp
  then show ?thesis by (simp add: sorted_wrt_map all_apart_def se_apart_def[abs_def] se_before_def[abs_def])
qed

lemma copies_all_apart:
  assumes len: "0 < length blob" "length blob \<le> unat (g_metadata_max_size g)"
    and small: "total_metadata_size (unat (g_metadata_max_size g)) (unat (g_metadata_slot_count g)) < 4294967296"
  defines "xs \<equiv> map (\<lambda>o'. data_extent (of_nat o') blob) (slots_offsets g [0..<unat (g_metadata_slot_count g)])"
  shows "all_apart xs"
    "\<forall>x\<in>set xs. 12288 \<le> unat (se_offset x) \<and> se_type x = DATA \<and> se_blob x = Some blob \<and>
      se_fits (total_metadata_size (unat (g_metadata_max_size g)) (unat (g_metadata_slot_count g))) x"
    "k < 2 * unat (g_metadata_slot_count g) \<Longrightarrow> \<exists>x\<in>set xs. unat (se_offset x) = area_offset g k \<and> se_blob x = Some blob"
proof -
  let ?n = "unat (g_metadata_slot_count g)" and ?u = "unat (g_metadata_max_size g)"
  let ?x = "\<lambda>k. data_extent (of_nat (area_offset g k)) blob"
  have xs: "xs = map ?x (slot_indices ?n [0..<?n])" by (simp add: xs_def slots_offsets_indices comp_def)
  have set: "set (slot_indices ?n [0..<?n]) = {..<2 * ?n}" by (auto simp: slot_indices_props(2) simp del: set_concat)
  have lb: "unat (of_nat (length blob) :: u64) = length blob"
  proof -
    have "length blob < 4294967296" using len(2) unat_u32_lt[of "g_metadata_max_size g"] by linarith
    then show ?thesis by (intro unat_of_nat_small) simp
  qed
  have bound: "area_offset g k + length blob \<le> total_metadata_size ?u ?n" if "k < 2 * ?n" for k
  proof -
    have "?u * k + ?u \<le> ?u * (2 * ?n)" using that mult_le_mono2[of "Suc k" "2 * ?n" ?u] by simp
    then show ?thesis using len(2) unfolding area_offset_def total_metadata_size_alt by linarith
  qed
  have off: "unat (se_offset (?x k)) = area_offset g k" "se_end (?x k) = area_offset g k + length blob" if "k < 2 * ?n" for k
  proof -
    have "area_offset g k < 4294967296" using bound[OF that] small by linarith
    then show "unat (se_offset (?x k)) = area_offset g k" by (simp add: unat_of_nat_small)
    then show "se_end (?x k) = area_offset g k + length blob" by (simp add: se_end_def lb del: of_nat_unat)
  qed
  have "sorted_wrt (\<lambda>k k'. se_apart (?x k) (?x k')) (slot_indices ?n [0..<?n])"
  proof (rule sorted_wrt_distinct)
    show "distinct (slot_indices ?n [0..<?n])" by (rule slot_indices_props(1)) simp
    show "\<forall>k\<in>set (slot_indices ?n [0..<?n]). \<forall>k'\<in>set (slot_indices ?n [0..<?n]). k \<noteq> k' \<longrightarrow> se_apart (?x k) (?x k')"
      unfolding set using area_offset_apart[OF len(2)] off by (auto simp: se_apart_def se_before_def apart_def)
  qed
  then show "all_apart xs" by (simp add: all_apart_def xs sorted_wrt_map)
  show "\<forall>x\<in>set xs. 12288 \<le> unat (se_offset x) \<and> se_type x = DATA \<and> se_blob x = Some blob \<and> se_fits (total_metadata_size ?u ?n) x"
    unfolding xs set_map set using off bound len(1) lb by (auto simp: se_fits_def area_offset_def simp del: of_nat_unat)
  show "k < 2 * ?n \<Longrightarrow> \<exists>x\<in>set xs. unat (se_offset x) = area_offset g k \<and> se_blob x = Some blob"
    unfolding xs set_map set using off(1) by auto
qed

section \<open>What the layout writes\<close>

definition read_partition :: "Extent list \<Rightarrow> u8 list \<Rightarrow> u8 list" where
  "read_partition es dev = concat (map (\<lambda>e. bytes_at (e_start e) (unat (num_sectors e) * 512) dev) es)"

lemma bytes_at_add: "bytes_at off (a + b) xs = bytes_at off a xs @ bytes_at (off + a) b xs"
  by (simp add: bytes_at_def take_add add.commute)

lemma length_bytes_at_le: "off + n \<le> length xs \<Longrightarrow> length (bytes_at off n xs) = n"
  by (simp add: bytes_at_def)

lemma image_pieces_content:
  assumes "list_all (byte_extent lo n) es" "n < 2 ^ 64"
    and "unat off + total_sectors es * 512 \<le> length (images nm)" "unat off + total_sectors es * 512 < 2 ^ 64"
  shows "(\<forall>x\<in>set (image_pieces nm off es). content_fits images x \<and> extent_content images x \<noteq> None) \<and>
    concat (map (\<lambda>x. the (extent_content images x)) (image_pieces nm off es)) =
      bytes_at (unat off) (total_sectors es * 512) (images nm)"
  using assms(1,3,4)
proof (induction es arbitrary: off)
  case Nil
  then show ?case by (simp add: bytes_at_def)
next
  case (Cons e es)
  let ?k = "unat (num_sectors e) * 512"
  have e: "byte_extent lo n e" using Cons.prems(1) by simp
  note r = piece_range[OF e assms(2)]
  have le: "unat off + ?k \<le> length (images nm)" "unat off + ?k < 2 ^ 64" using Cons.prems(2,3) by (simp_all add: add_mult_distrib)
  have u: "unat (num_sectors e * LP_SECTOR_SIZE) = ?k" using le(2) by (simp add: LP_SECTOR_SIZE_def unat_mult_small)
  then have o': "unat (off + num_sectors e * LP_SECTOR_SIZE) = unat off + ?k" using le(2) by (subst unat_add_small) simp_all
  have c: "extent_content images (image_piece nm off e) = Some (bytes_at (unat off) ?k (images nm))"
    using u by (simp add: extent_content_def image_piece_def)
  then have "content_fits images (image_piece nm off e)"
    using r(2) le(1) by (simp add: content_fits_def length_bytes_at_le)
  with Cons.IH[of "off + num_sectors e * LP_SECTOR_SIZE"] Cons.prems o' c show ?case
    by (simp add: add_mult_distrib bytes_at_add[of "unat off"] add.assoc)
qed

lemma read_partition_pieces:
  assumes "list_all (byte_extent lo n) es" "n < 2 ^ 64"
  shows "read_partition es dev =
    concat (map (\<lambda>x. bytes_at (unat (se_offset x)) (unat (se_size x)) dev) (image_pieces nm off es))"
  using assms(1)
proof (induction es arbitrary: off)
  case (Cons e es)
  have "byte_extent lo n e" using Cons.prems by simp
  from piece_range[OF this assms(2)] Cons show ?case by (simp add: read_partition_def)
qed (simp add: read_partition_def)

section \<open>A super partition in good order\<close>

text \<open>A single device, every extent linear and inside the device, no sector used twice, room for the metadata.\<close>

definition super_ready :: "MetadataBuilder \<Rightarrow> bool" where
  "super_ready b \<longleftrightarrow> writable b \<and> alloc_ok b \<and> length (b_block_devices b) = 1 \<and>
     list_all (\<lambda>p. list_all is_linear (pt_extents p)) (b_partitions b)"

definition metadata_area :: "LpMetadataGeometry \<Rightarrow> nat" where
  "metadata_area g = total_metadata_size (unat (g_metadata_max_size g)) (unat (g_metadata_slot_count g))"

lemma phys_concat: "concat (map (\<lambda>p. phys (f p)) ps) = phys (concat (map f ps))"
  by (induction ps) simp_all

lemma layout_device:
  assumes r: "super_ready b"
  defines "n \<equiv> unat (bd_size (hd (b_block_devices b)))"
  shows "metadata_area (b_geometry b) \<le> n" "metadata_area (b_geometry b) < 4294967296"
    "list_all (\<lambda>p. list_all (byte_extent (metadata_area (b_geometry b)) n) (pt_extents p)) (b_partitions b)"
    "sorted_wrt e_apart (concat (map pt_extents (b_partitions b)))"
proof -
  obtain d where d: "b_block_devices b = [d]" using r by (auto simp: super_ready_def length_Suc_conv)
  let ?g = "b_geometry b"
  have w: "writable b" and a: "alloc_ok b" using r by (simp_all add: super_ready_def)
  show small: "metadata_area ?g < 4294967296" using w by (simp add: writable_def metadata_area_def)
  have first: "unat (bd_first_logical_sector d) \<le> unat (bd_size d) div 512"
    using a d by (simp add: alloc_ok_def devices_ok_def device_last_sector_def)
  then have fs: "unat (bd_first_logical_sector d) * 512 \<le> unat (bd_size d)" by linarith
  have "unat (bd_first_logical_sector d) * 512 < 18446744073709551616" by (rule le_less_trans[OF fs unat_u64_lt])
  then have u: "unat (bd_first_logical_sector d * LP_SECTOR_SIZE) = unat (bd_first_logical_sector d) * 512"
    by (subst unat_mult_small) (simp_all add: LP_SECTOR_SIZE_def)
  have "\<not> GetTotalMetadataSize (g_metadata_max_size ?g) (g_metadata_slot_count ?g) > bd_first_logical_sector d * LP_SECTOR_SIZE"
    using w d by (simp add: writable_def)
  then have lo: "metadata_area ?g \<le> unat (bd_first_logical_sector d) * 512"
    using GetTotalMetadataSize_exact[of "g_metadata_max_size ?g" "g_metadata_slot_count ?g"] small u
    by (simp add: word_less_nat_alt metadata_area_def not_less)
  have n: "n = unat (bd_size d)" by (simp add: n_def d)
  show "metadata_area ?g \<le> n" using lo fs n by linarith
  have b: "byte_extent (metadata_area ?g) n e" if p: "p \<in> set (b_partitions b)" and e: "e \<in> set (pt_extents p)" for p e
  proof -
    have lin: "is_linear e" and dev: "extent_in_device [d] e"
      using r a d p e by (auto simp: super_ready_def alloc_ok_def list_all_iff)
    have "unat (device_index e) = 0" using dev lin by (simp add: extent_in_device_def)
    moreover from this have "unat (physical_sector e) + unat (num_sectors e) \<le> unat (bd_size d) div 512"
      using dev lin by (simp add: extent_in_device_def device_last_sector_def)
    then have "(unat (physical_sector e) + unat (num_sectors e)) * 512 \<le> unat (bd_size d)"
      by (simp only: less_eq_div_iff_mult_less_eq zero_less_numeral)
    ultimately show ?thesis using dev lin lo n
      by (auto simp: extent_in_device_def byte_extent_def unat_eq_zero)
  qed
  then show "list_all (\<lambda>p. list_all (byte_extent (metadata_area ?g) n) (pt_extents p)) (b_partitions b)"
    by (simp add: list_all_iff)
  have "disk b = phys (concat (map pt_extents (b_partitions b)))"
    using phys_concat[of pt_extents "b_partitions b"] by (simp add: disk_def)
  then have "distinct (phys (concat (map pt_extents (b_partitions b))))" using a by (simp add: alloc_ok_def)
  then show "sorted_wrt e_apart (concat (map pt_extents (b_partitions b)))"
    by (rule phys_apart) (use b in \<open>auto simp: list_all_iff\<close>)
qed


end
