(* ===== verification/LpImagesProps.thy ===== *)
theory LpImagesProps imports LpImages LpStorage SpFileWrite begin

text \<open>
  Properties of the metadata files of \<open>images.cpp\<close>: what is written is read back, and the file at the
  path is replaced as a whole or not at all.
\<close>

lemma ParseGeometry_append:
  assumes "sizeof_geometry \<le> length x"
  shows "ParseGeometry sha (x @ y) = ParseGeometry sha x"
  using assms by (simp add: ParseGeometry_def memcpy_from_def bytes_at_def)

lemma ParseGeometry_magic:
  assumes "ParseGeometry sha x = Inr (Some g)"
  shows "g_magic (dec_geometry (take sizeof_geometry x)) = LP_METADATA_GEOMETRY_MAGIC"
  using assms by (auto simp: ParseGeometry_def memcpy_from_def bytes_at_def Let_def split: if_splits)

lemma file_write_loop_success:
  assumes "fs_pos s = length (fs_bytes s)" "file_write_loop rs data s = (0, s')"
  shows "fs_bytes s' = fs_bytes s @ data"
  using assms
proof (induction rs data s rule: file_write_loop.induct)
  case (1 data s)
  with file_put_exact[of s data] show ?case by auto
next
  case (2 r rs data s)
  show ?case
  proof (cases "data = []")
    case False
    then show ?thesis
    proof (cases r)
      case (Wrote n)
      then show ?thesis using 2 False file_put_exact[OF 2(3), of "take n data"] by simp
    qed (use 2 False in auto)
  qed (use 2 in auto)
qed

lemma image_bytes:
  assumes sha: "\<And>x. length (sha x) = 32" and m: "metadata_ok m" "geometry_fields_ok (m_geometry m)"
    and ser: "SerializeMetadata sha m = Inr blob"
  defines "bytes \<equiv> SerializeGeometry sha (m_geometry m) @ blob"
  shows "ReadFromImageFile sha (Some bytes) = Inr (Some (as_written sha m))"
    "ReadFromImageBlob sha bytes = Inr (Some (as_written sha m))" "IsEmptySuperImage (Some bytes)"
proof -
  let ?g = "m_geometry m" and ?m = "m\<lparr>m_geometry := sealed_geometry sha (m_geometry m)\<rparr>"
  have gl: "length (SerializeGeometry sha ?g) = 4096" by (rule length_SerializeGeometry[of sha, OF sha])
  have pg: "ParseGeometry sha (SerializeGeometry sha ?g) = Inr (Some (sealed_geometry sha ?g))"
    by (rule geometry_roundtrip_lemma[of sha, OF sha m(2)])
  have "metadata_ok ?m" using m(1) by simp
  from metadata_roundtrip_lemma[of sha ?m, OF sha this] ser
  have pm: "ParseMetadata sha (sealed_geometry sha ?g) blob = Inr (Some (as_written sha m))"
    by (auto simp: as_written_def dest: spec[of _ "[]"])
  have pb: "ParseGeometry sha bytes = Inr (Some (sealed_geometry sha ?g))"
    using ParseGeometry_append[of "SerializeGeometry sha ?g" sha blob] gl pg by (simp add: bytes_def sizeof_geometry_def)
  show "ReadFromImageFile sha (Some bytes) = Inr (Some (as_written sha m))"
    "ReadFromImageBlob sha bytes = Inr (Some (as_written sha m))"
    using pg pm pb gl by (simp_all add: ReadFromImageFile_def ReadFromImageBlob_def SeekFile64_def ReadFully_def
        bytes_def LP_METADATA_GEOMETRY_SIZE_def)
  show "IsEmptySuperImage (Some bytes)"
    using ParseGeometry_magic[OF pb] gl
    by (simp add: IsEmptySuperImage_def ReadFully_def bytes_def LP_METADATA_GEOMETRY_SIZE_def sizeof_geometry_def)
qed

text \<open>
  C31: \<open>WriteToImageFile\<close> replaces the file at the path as a whole or leaves it alone, whatever writes are
  split or fail: when it reports success the file is read back as the metadata, from the file and from a
  buffer, and is recognised as an empty super image; when it reports failure no file has changed. It
  succeeds when the temporary file takes the bytes and can be renamed.
\<close>

theorem WriteToImageFile_atomic:
  assumes "\<forall>x. length (sha x) = 32" "metadata_ok m" "geometry_fields_ok (m_geometry m)"
    and "\<forall>fd. tmpfile = Some fd \<longrightarrow> fs_bytes fd = [] \<and> fs_pos fd = 0"
  shows "\<exists>ok fs'. WriteToImageFile sha tmpfile renamed file m fs = Inr (ok, fs') \<and>
    (\<not> ok \<longrightarrow> fs' = fs) \<and>
    (ok \<longrightarrow> (\<exists>bytes. fs' = fs(file \<mapsto> bytes) \<and> ReadFromImageFile sha (fs' file) = Inr (Some (as_written sha m)) \<and>
       ReadFromImageBlob sha bytes = Inr (Some (as_written sha m)) \<and> IsEmptySuperImage (fs' file))) \<and>
    (renamed \<and> (\<exists>fd. tmpfile = Some fd \<and> fresh_fd fd) \<longrightarrow> ok)"
proof -
  have sha: "length (sha x) = 32" for x using assms(1) by simp
  from metadata_roundtrip_lemma[of sha m, OF sha assms(2)] obtain blob where ser: "SerializeMetadata sha m = Inr blob" by blast
  let ?bytes = "SerializeGeometry sha (m_geometry m) @ blob"
  note img = image_bytes[of sha, OF sha assms(2,3) ser]
  show ?thesis
  proof (cases tmpfile)
    case None
    then show ?thesis using ser by (intro exI[of _ False]) (simp add: WriteToImageFile_def)
  next
    case (Some fd)
    obtain ret fd' where w: "file_write_loop (fs_script fd) ?bytes fd = (ret, fd')" by fastforce
    have e: "fs_pos fd = length (fs_bytes fd)" "fs_bytes fd = []" using assms(4) Some by simp_all
    have run: "WriteToImageFile sha tmpfile renamed file m fs =
        Inr (if ret = 0 \<and> renamed then (True, fs(file \<mapsto> fs_bytes fd')) else (False, fs))"
      using Some ser w by (simp add: WriteToImageFile_def WriteToImageFd_def WriteFully_def)
    have ok: "fs_bytes fd' = ?bytes" if "ret = 0"
      using file_write_loop_success[OF e(1)] w that e(2) by simp
    have good: "ret = 0" if "fresh_fd fd"
      using file_write_loop_exact[OF e(1), of "fs_script fd" ?bytes] that w by (auto simp: fresh_fd_def)
    show ?thesis
    proof (cases "ret = 0 \<and> renamed")
      case True
      then show ?thesis using run ok img by auto
    next
      case False
      then show ?thesis using run good Some by auto
    qed
  qed
qed

theorem WriteToImageFile_atomic_witness:
  "\<exists>fs' bytes. WriteToImageFile demo_sha (Some \<lparr>fs_bytes = [], fs_pos = 0, fs_script = [Interrupted, Wrote 1]\<rparr>) True
      ''super_empty.img'' demo_metadata (Map.empty(''super_empty.img'' \<mapsto> [1])) = Inr (True, fs') \<and>
    fs' ''super_empty.img'' = Some bytes \<and> ReadFromImageFile demo_sha (Some bytes) = Inr (Some (as_written demo_sha demo_metadata))"
proof -
  let ?tmp = "Some \<lparr>fs_bytes = [], fs_pos = 0, fs_script = [Interrupted, Wrote 1]\<rparr>"
  have sha: "\<forall>x. length (demo_sha x) = 32" by (simp add: demo_sha_def)
  have geo: "geometry_fields_ok (m_geometry demo_metadata)" by (simp add: demo_geometry demo_geometry_fields)
  have tmp: "\<forall>fd. ?tmp = Some fd \<longrightarrow> fs_bytes fd = [] \<and> fs_pos fd = 0" by simp
  have fresh: "\<exists>fd. ?tmp = Some fd \<and> fresh_fd fd" by (simp add: fresh_fd_def)
  from WriteToImageFile_atomic[OF sha demo_metadata_ok geo tmp, of True "''super_empty.img''" "Map.empty(''super_empty.img'' \<mapsto> [1])"] fresh
  show ?thesis by auto
qed

end
