(* ===== verification/LpLayoutProps.thy ===== *)
theory LpLayoutProps imports LpLayoutOk LpImagesProps LpResize begin

text \<open>
  Properties of the files and layouts of \<open>images.cpp\<close> and \<open>super_layout_builder.cpp\<close>, each with an
  instance on the small super partition.
\<close>

section \<open>The layout of a super image\<close>

text \<open>
  A layout builder in good order: opened on a single device, every extent linear and inside the device,
  no sector used twice, an image for every partition that has extents, and metadata that fits its area
  after padding to 4 KiB.
\<close>

definition layout_ready :: "SuperLayoutBuilder \<Rightarrow> MetadataBuilder \<Rightarrow> bool" where
  "layout_ready s b \<longleftrightarrow> sl_builder s = Some b \<and> super_ready b \<and>
     unat (g_metadata_max_size (b_geometry b)) mod 4096 = 0 \<and>
     list_all (\<lambda>p. pt_extents p \<noteq> [] \<longrightarrow> sl_image_map s (pt_name p) \<noteq> None) (b_partitions b)"

lemma layout_readyD: "layout_ready s b \<Longrightarrow> super_ready b"
  by (simp add: layout_ready_def)

definition padded_images :: "SuperLayoutBuilder \<Rightarrow> MetadataBuilder \<Rightarrow> (string \<Rightarrow> u8 list) \<Rightarrow> bool" where
  "padded_images s b images \<longleftrightarrow> (\<forall>p\<in>set (b_partitions b). \<forall>nm. sl_image_map s (pt_name p) = Some nm \<longrightarrow>
     unat (pt_size p) \<le> length (images nm))"

text \<open>The extents before the gaps are filled.\<close>

definition layout_extents :: "(u8 list \<Rightarrow> u8 list) \<Rightarrow> SuperLayoutBuilder \<Rightarrow> MetadataBuilder \<Rightarrow> u8 list \<Rightarrow> SuperImageExtent list" where
  "layout_extents sha s b blob = layout_start sha (b_geometry b) @
     map (\<lambda>o'. data_extent (of_nat o') blob) (slots_offsets (b_geometry b) [0..<unat (g_metadata_slot_count (b_geometry b))]) @
     concat (map (partition_pieces (sl_image_map s)) (b_partitions b))"

lemma layout_extents_apart:
  assumes r: "layout_ready s b" and sha: "\<And>x. length (sha x) = 32"
    and blob: "0 < length blob" "length blob \<le> unat (g_metadata_max_size (b_geometry b))"
  shows "all_apart (layout_extents sha s b blob)"
    "\<forall>x\<in>set (layout_extents sha s b blob). se_fits (unat (bd_size (hd (b_block_devices b)))) x \<and> se_type x \<noteq> DONTCARE"
proof -
  let ?g = "b_geometry b" and ?n = "unat (bd_size (hd (b_block_devices b)))"
  let ?parts = "concat (map (partition_pieces (sl_image_map s)) (b_partitions b))"
  let ?copies = "map (\<lambda>o'. data_extent (of_nat o') blob) (slots_offsets ?g [0..<unat (g_metadata_slot_count ?g)])"
  note d = layout_device[OF layout_readyD[OF r]]
  note c = copies_all_apart[OF blob d(2)[unfolded metadata_area_def]]
  have n: "?n < 2 ^ 64" using unat_u64_lt[of "bd_size (hd (b_block_devices b))"] by simp
  have ps: "list_all (\<lambda>p. list_all (byte_extent (metadata_area ?g) ?n) (pt_extents p) \<and>
      (pt_extents p \<noteq> [] \<longrightarrow> sl_image_map s (pt_name p) \<noteq> None)) (b_partitions b)"
    using d(3) r by (auto simp: layout_ready_def super_ready_def list_all_iff)
  note p = partition_pieces_range[OF ps n]
  have gl: "length (SerializeGeometry sha ?g) = 4096" by (rule length_SerializeGeometry[of sha, OF sha])
  have big: "12288 \<le> metadata_area ?g" by (simp add: metadata_area_def total_metadata_size_def)
  have start: "all_apart (layout_start sha ?g)" "\<forall>x\<in>set (layout_start sha ?g). se_fits 12288 x \<and> se_type x \<noteq> DONTCARE"
    by (simp_all add: layout_start_def all_apart_def se_apart_def se_before_def se_end_def se_fits_def gl Let_def
        GetPrimaryGeometryOffset_def GetBackupGeometryOffset_def LP_PARTITION_RESERVED_BYTES_def LP_METADATA_GEOMETRY_SIZE_def)
  have parts: "all_apart ?parts" by (rule pieces_apart[OF p(1) d(4)])
  have lt: "se_apart x y" if "se_end x \<le> k" "k \<le> unat (se_offset y)" for x y k
    using that by (simp add: se_apart_def se_before_def)
  show "all_apart (layout_extents sha s b blob)"
    unfolding layout_extents_def all_apart_append
    using start parts c p(2) big lt[where k = 12288] lt[where k = "metadata_area ?g"]
    by (fastforce simp: se_fits_def metadata_area_def)
  show "\<forall>x\<in>set (layout_extents sha s b blob). se_fits ?n x \<and> se_type x \<noteq> DONTCARE"
    using start(2) c(2) p(2) d(1) big by (fastforce simp: layout_extents_def se_fits_def metadata_area_def)
qed

lemma GetImageLayout_ok:
  assumes r: "layout_ready s b" and sha: "\<And>x. length (sha x) = 32"
  defines "n \<equiv> unat (bd_size (hd (b_block_devices b)))"
  shows "\<exists>m bytes blob out. Export b = Some m \<and> SerializeMetadata sha m = Inr bytes \<and> metadata_ok m \<and>
    take (length bytes) blob = bytes \<and> length bytes \<le> length blob \<and>
    0 < length blob \<and> length blob \<le> unat (g_metadata_max_size (b_geometry b)) \<and>
    GetImageLayout sha s = Inr out \<and> tiles 0 out \<and> (\<forall>x\<in>set out. se_end x \<le> n) \<and>
    filter (\<lambda>x. se_type x \<noteq> DONTCARE) out = sort_key se_offset (layout_extents sha s b blob)"
proof -
  let ?g = "b_geometry b"
  have sl: "sl_builder s = Some b" and w: "writable b" and max: "unat (g_metadata_max_size ?g) mod 4096 = 0"
    using r by (simp_all add: layout_ready_def super_ready_def)
  have ex: "exportable b" using w by (simp add: writable_def)
  from Export_eq[OF ex] obtain idx where e: "Export b = Some (set_num_entries
      \<lparr>m_geometry = ?g, m_header = bump_minor (list_ex needs_v1 (b_partitions b)) (b_header b),
       m_partitions = partition_entries idx 0 (b_partitions b), m_extents = all_extents (b_partitions b),
       m_groups = map group_entry (b_groups b), m_block_devices = b_block_devices b\<rparr>)" by blast
  then obtain m where m: "Export b = Some m" "m_geometry m = ?g"
    "m_partitions m = partition_entries idx 0 (b_partitions b)" "m_extents m = all_extents (b_partitions b)"
    by (simp add: set_num_entries_def)
  note ok = Export_metadata_ok[OF w m(1)]
  from metadata_roundtrip_lemma[of sha m, OF sha conjunct1[OF ok]] obtain bytes where
    b: "SerializeMetadata sha m = Inr bytes" "length bytes = unat (h_header_size (m_header m)) + length (table_bytes m)" by blast
  have "unat (h_header_size (m_header m)) \<le> 256" "0 < unat (h_header_size (m_header m))"
    using ok by (auto simp: word_le_nat_alt metadata_ok_def header_fields_ok_def sizeof_defs)
  then have len: "0 < length bytes" "length bytes < unat (g_metadata_max_size ?g)"
    using b(2) ok w by (auto simp: writable_def sizeof_header_def)
  define k where "k = round_up (length bytes) 4096"
  have k: "length bytes \<le> k" "k \<le> unat (g_metadata_max_size ?g)"
    using round_up_ge[of "length bytes" 4096] round_up_least[of 4096 _ "length bytes"] max len(2)
    by (auto simp: k_def mod_eq_0_iff_dvd)
  have small: "k < 4294967296" using k(2) unat_u32_lt[of "g_metadata_max_size ?g"] by linarith
  then have lb: "unat (of_nat (length bytes) :: u64) = length bytes" using k(1) by (intro unat_of_nat_small) simp
  have al: "align_to (of_nat (length bytes) :: u64) kSparseAlignment = Some (of_nat k)"
    using small by (simp add: align_to_u64 lb kSparseAlignment_def Let_def flip: k_def del: of_nat_unat)
  have uk: "unat (of_nat k :: u64) = k" using small by (intro unat_of_nat_small) simp
  define blob where "blob = bytes @ replicate (k - length bytes) 0"
  have bk: "length blob = k" using k(1) by (simp add: blob_def)
  have blob: "length blob = k" "take (length bytes) blob = bytes" "0 < length blob" "length blob \<le> unat (g_metadata_max_size ?g)"
    unfolding bk using k(2) less_le_trans[OF len(1) k(1)] by (simp_all add: blob_def)
  have area: "total_metadata_size (unat (g_metadata_max_size ?g)) (unat (g_metadata_slot_count ?g)) < 4294967296"
    using layout_device(2)[OF layout_readyD[OF r]] by (simp add: metadata_area_def)
  have copies: "metadata_extents ?g blob [0..<unat (g_metadata_slot_count ?g)] (layout_start sha ?g) =
      Inr (layout_start sha ?g @ map (\<lambda>o'. data_extent (of_nat o') blob) (slots_offsets ?g [0..<unat (g_metadata_slot_count ?g)]))"
    by (rule metadata_extents_eq[OF _ area]) simp
  have parts: "all_partition_extents (m_extents m) (sl_image_map s) (m_partitions m) out =
      Inr (Some (out @ concat (map (partition_pieces (sl_image_map s)) (b_partitions b))))" for out
    unfolding m(3,4)
  proof (rule all_partition_extents_eq)
    show "list_all (\<lambda>p. storable_name (pt_name p) \<and> list_all is_linear (pt_extents p) \<and>
      (pt_extents p \<noteq> [] \<longrightarrow> sl_image_map s (pt_name p) \<noteq> None)) (b_partitions b)"
      using r ex by (auto simp: layout_ready_def super_ready_def exportable_def importable_def list_all_iff)
    show "length (all_extents (b_partitions b)) < 4294967296" using ex by (simp add: exportable_def)
  qed simp_all
  have n: "n < 2 ^ 64" by (simp add: n_def)
  from AddGapExtents_ok[OF layout_extents_apart(1)[of s b sha, OF r sha blob(3,4)]
      layout_extents_apart(2)[of s b sha, OF r sha blob(3,4)] n[unfolded n_def]]
  obtain out where out: "AddGapExtents (layout_extents sha s b blob) DONTCARE = Some out" "tiles 0 out"
    "\<forall>x\<in>set out. se_end x \<le> n" "filter (\<lambda>x. se_type x \<noteq> DONTCARE) out = sort_key se_offset (layout_extents sha s b blob)"
    unfolding n_def by blast
  have "GetImageLayout sha s = Inr out"
    using sl m(1,2) b(1) al blob(4) copies parts out(1) uk
    by (simp add: GetImageLayout_def Let_def layout_extents_def flip: blob_def)
  with m(1) b(1) ok blob k(1) out show ?thesis by (intro exI[of _ m] exI[of _ bytes] exI[of _ blob] exI[of _ out]) simp
qed

text \<open>
  C29: the layout of a super image is computed and complete: its extents tile the image from its first byte
  to at most the size of the device, and a device to which it has been written reads back as the exported
  metadata in every slot, with the bytes of its image in the extents of each partition.
\<close>

theorem GetImageLayout_flashes:
  assumes sha: "\<forall>x. length (sha x) = 32" and r: "layout_ready s b" and images: "padded_images s b images"
    and dev: "length dev = unat (bd_size (hd (b_block_devices b)))"
    and slot: "unat slot < unat (g_metadata_slot_count (b_geometry b))" "slot = 0 \<or> slot = 1"
  shows "\<exists>out m. GetImageLayout sha s = Inr out \<and> tiles 0 out \<and> (\<forall>x\<in>set out. se_end x \<le> length dev) \<and>
    Export b = Some m \<and> ReadMetadata sha (Some (flash_layout images out dev)) slot = Inr (Some (as_written sha m)) \<and>
    (\<forall>p\<in>set (b_partitions b). \<forall>nm. sl_image_map s (pt_name p) = Some nm \<longrightarrow>
       read_partition (pt_extents p) (flash_layout images out dev) = take (unat (pt_size p)) (images nm))"
proof -
  let ?g = "b_geometry b"
  have sha': "length (sha x) = 32" for x using sha by simp
  obtain m bytes blob out where o': "Export b = Some m" "SerializeMetadata sha m = Inr bytes" "metadata_ok m"
    "take (length bytes) blob = bytes" "length bytes \<le> length blob" "0 < length blob" "length blob \<le> unat (g_metadata_max_size ?g)"
    "GetImageLayout sha s = Inr out" "tiles 0 out" "\<forall>x\<in>set out. se_end x \<le> length dev"
    "filter (\<lambda>x. se_type x \<noteq> DONTCARE) out = sort_key se_offset (layout_extents sha s b blob)"
    using GetImageLayout_ok[of s b sha, OF r sha'] unfolding dev by blast
  define dev' where "dev' = flash_layout images out dev"
  note d = layout_device[OF layout_readyD[OF r]]
  have n: "length dev < 2 ^ 64" unfolding dev by simp
  have w: "writable b" and a: "alloc_ok b" using r by (simp_all add: layout_ready_def super_ready_def)
  have pb: "list_all (byte_extent (metadata_area ?g) (length dev)) (pt_extents p)" if "p \<in> set (b_partitions b)" for p
    using d(3) that dev by (simp add: list_all_iff)
  have sz: "unat (pt_size p) = total_sectors (pt_extents p) * 512" "total_sectors (pt_extents p) < 2 ^ 55"
    if "p \<in> set (b_partitions b)" for p using a that by (auto simp: alloc_ok_def partition_ok_def list_all_iff)
  have pieces: "(\<forall>x\<in>set (image_pieces nm 0 (pt_extents p)). content_fits images x \<and> extent_content images x \<noteq> None) \<and>
      concat (map (\<lambda>x. the (extent_content images x)) (image_pieces nm 0 (pt_extents p))) = take (unat (pt_size p)) (images nm)"
    if "p \<in> set (b_partitions b)" "sl_image_map s (pt_name p) = Some nm" for p nm
    using image_pieces_content[OF pb[OF that(1)] n, of 0 images nm] sz[OF that(1)] images that
    by (auto simp: padded_images_def bytes_at_def)
  have gl: "length (SerializeGeometry sha ?g) = 4096" by (rule length_SerializeGeometry[of sha, OF sha'])
  have lb: "unat (of_nat (length blob) :: u64) = length blob"
  proof -
    have "length blob < 4294967296" using o'(7) unat_u32_lt[of "g_metadata_max_size ?g"] by linarith
    then show ?thesis by (intro unat_of_nat_small) simp
  qed
  have mem: "x \<in> set out" if "x \<in> set (layout_extents sha s b blob)" for x
  proof -
    have "x \<in> set (sort_key se_offset (layout_extents sha s b blob))" using that by simp
    then show ?thesis unfolding o'(11)[symmetric] by simp
  qed
  have fits: "content_fits images x" if x: "x \<in> set out" for x
  proof (cases "se_type x = DONTCARE")
    case True
    then show ?thesis by (simp add: content_fits_def extent_content_def)
  next
    case False
    then have "x \<in> set (filter (\<lambda>x. se_type x \<noteq> DONTCARE) out)" using x by simp
    then have "x \<in> set (layout_extents sha s b blob)" unfolding o'(11) by simp
    then consider "x \<in> set (layout_start sha ?g)" | k where "x = data_extent (of_nat k) blob"
      | p nm where "p \<in> set (b_partitions b)" "sl_image_map s (pt_name p) = Some nm" "x \<in> set (image_pieces nm 0 (pt_extents p))"
      by (auto simp: layout_extents_def partition_pieces_def split: option.splits dest: sym[of "Some _"])
    then show ?thesis
    proof cases
      case 1
      then show ?thesis by (auto simp: layout_start_def Let_def content_fits_def extent_content_def gl plain_extent_def data_extent_def)
    next
      case 2
      then show ?thesis using lb by (simp add: content_fits_def extent_content_def del: of_nat_unat)
    next
      case 3
      then show ?thesis using pieces by blast
    qed
  qed
  have fl: "length dev' = length dev"
    "\<And>x c. x \<in> set out \<Longrightarrow> extent_content images x = Some c \<Longrightarrow> bytes_at (unat (se_offset x)) (unat (se_size x)) dev' = c"
    using flash_layout_ok[OF conjunct1[OF tiles_before[OF o'(9)]], of images dev] fits o'(10) by (auto simp: dev'_def)
  have "read_partition (pt_extents p) dev' = take (unat (pt_size p)) (images nm)"
    if p: "p \<in> set (b_partitions b)" "sl_image_map s (pt_name p) = Some nm" for p nm
  proof -
    let ?xs = "image_pieces nm 0 (pt_extents p)"
    have "bytes_at (unat (se_offset x)) (unat (se_size x)) dev' = the (extent_content images x)" if x: "x \<in> set ?xs" for x
    proof (rule fl(2)[OF mem])
      show "x \<in> set (layout_extents sha s b blob)"
        using x p by (auto simp: layout_extents_def partition_pieces_def intro!: bexI[of _ p])
      show "extent_content images x = Some (the (extent_content images x))" using pieces[OF p] x by auto
    qed
    then have "map (\<lambda>x. bytes_at (unat (se_offset x)) (unat (se_size x)) dev') ?xs = map (\<lambda>x. the (extent_content images x)) ?xs" by simp
    then show ?thesis using read_partition_pieces[OF pb[OF p(1)] n, of dev' nm 0] pieces[OF p] by metis
  qed
  moreover have "ReadMetadata sha (Some dev') slot = Inr (Some (as_written sha m))"
  proof -
    have ex: "exportable b" and geo: "geometry_fields_ok ?g" using w by (simp_all add: writable_def)
    note g = Export_tables(1)[OF ex o'(1)]
    note area = d(2)[unfolded metadata_area_def]
    let ?x = "data_extent (of_nat GetPrimaryGeometryOffset) (SerializeGeometry sha ?g)"
    have "?x \<in> set out" by (rule mem) (simp add: layout_extents_def layout_start_def Let_def)
    from fl(2)[OF this] have b1: "bytes_at 4096 4096 dev' = SerializeGeometry sha ?g"
      by (simp add: extent_content_def gl GetPrimaryGeometryOffset_def LP_PARTITION_RESERVED_BYTES_def)
    note c = copies_all_apart[OF o'(6,7) area]
    have "unat slot < 2 * unat (g_metadata_slot_count ?g)" using slot(1) by simp
    from c(3)[OF this] obtain x where xc:
      "x \<in> set (map (\<lambda>o'. data_extent (of_nat o') blob) (slots_offsets ?g [0..<unat (g_metadata_slot_count ?g)]))"
      "unat (se_offset x) = area_offset ?g (unat slot)" by blast
    have "x \<in> set out" by (rule mem) (use xc(1) in \<open>simp add: layout_extents_def\<close>)
    moreover have "se_type x = DATA" "se_blob x = Some blob" "se_fits (metadata_area ?g) x"
      using c(2) xc(1) by (simp_all only: metadata_area_def)
    moreover note xc(2)
    ultimately have x: "x \<in> set out" "unat (se_offset x) = area_offset ?g (unat slot)" "se_type x = DATA"
      "se_blob x = Some blob" "se_fits (metadata_area ?g) x" by simp_all
    then have xb: "bytes_at (area_offset ?g (unat slot)) (unat (se_size x)) dev' = blob"
      using fl(2)[OF x(1)] by (simp add: extent_content_def)
    have sx: "unat (se_size x) = length blob" using fits[OF x(1)] x(3,4) by (simp add: content_fits_def extent_content_def)
    have b2: "bytes_at (area_offset ?g (unat slot)) (length bytes) dev' = bytes"
      using arg_cong[OF xb, of "take (length bytes)"] o'(4,5) sx by (simp add: bytes_at_def min_def)
    have in_dev: "area_offset ?g (unat slot) \<le> length dev'" "8192 \<le> length dev'"
      using x(2,5) d(1) dev fl(1) by (auto simp: se_fits_def se_end_def metadata_area_def total_metadata_size_def)
    have "no_suffixes (as_written sha m)"
      using Export_no_suffixes[OF w o'(1)] by (simp add: no_suffixes_def as_written_def)
    then show ?thesis
      using ReadMetadata_of_copies[of sha, OF sha' o'(3) _ o'(2) g[symmetric] area b1 in_dev(2) b2 in_dev(1) slot(1)] g geo slot(2)
      by (simp add: AdjustMetadataForSlot_id)
  qed
  ultimately show ?thesis using o'(1,8,9,10) unfolding dev'_def by blast
qed

definition demo_layout_builder :: SuperLayoutBuilder where
  "demo_layout_builder = \<lparr>sl_builder = Some demo_builder,
     sl_image_map = [''system_a'' \<mapsto> ''system.img'', ''vendor_a'' \<mapsto> ''vendor.img'']\<rparr>"

theorem GetImageLayout_flashes_witness:
  "\<exists>out. GetImageLayout demo_sha demo_layout_builder = Inr out \<and> tiles 0 out \<and>
    ReadMetadata demo_sha (Some (flash_layout (\<lambda>_. replicate 8192 7) out (replicate 262144 9))) 1 =
      Inr (Some (as_written demo_sha demo_metadata)) \<and>
    read_partition [LinearExtent 8 0 96] (flash_layout (\<lambda>_. replicate 8192 7) out (replicate 262144 9)) = replicate 4096 7"
proof -
  let ?s = demo_layout_builder and ?images = "\<lambda>_. replicate 8192 7 :: u8 list"
  have sha: "\<forall>x. length (demo_sha x) = 32" by (simp add: demo_sha_def)
  have ready: "layout_ready ?s demo_builder"
    using demo_writable demo_alloc_ok
    by (simp add: layout_ready_def super_ready_def demo_layout_builder_def demo_geometry_fields)
      (simp add: demo_builder_def demo_partition_def new_partition_def)
  have pad: "padded_images ?s demo_builder ?images"
    by (simp add: padded_images_def demo_builder_def demo_partition_def new_partition_def)
  have dev: "length (replicate 262144 9 :: u8 list) = unat (bd_size (hd (b_block_devices demo_builder)))"
    by (simp add: demo_builder_def)
  have slot: "unat (1 :: u32) < unat (g_metadata_slot_count (b_geometry demo_builder))" by (simp add: demo_geometry_fields)
  obtain out m where o': "GetImageLayout demo_sha ?s = Inr out" "tiles 0 out" "Export demo_builder = Some m"
    "ReadMetadata demo_sha (Some (flash_layout ?images out (replicate 262144 9))) 1 = Inr (Some (as_written demo_sha m))"
    "\<forall>p\<in>set (b_partitions demo_builder). \<forall>nm. sl_image_map ?s (pt_name p) = Some nm \<longrightarrow>
       read_partition (pt_extents p) (flash_layout ?images out (replicate 262144 9)) = take (unat (pt_size p)) (?images nm)"
    using GetImageLayout_flashes[OF sha ready pad dev slot] by blast
  have p: "demo_partition \<in> set (b_partitions demo_builder)" "sl_image_map ?s (pt_name demo_partition) = Some ''system.img''"
    "pt_extents demo_partition = [LinearExtent 8 0 96]" "unat (pt_size demo_partition) = 4096"
    by (simp_all add: demo_builder_def demo_partition_def demo_layout_builder_def new_partition_def)
  have "m = demo_metadata" using o'(3) demo_Export by simp
  moreover have "read_partition [LinearExtent 8 0 96] (flash_layout ?images out (replicate 262144 9)) = replicate 4096 7"
    using o'(5) p by fastforce
  ultimately show ?thesis using o'(1,2,4) by blast
qed

section \<open>Opening and filling\<close>

text \<open>A super image without contents, as \<open>Open\<close> accepts it.\<close>

definition empty_super :: "MetadataBuilder \<Rightarrow> bool" where
  "empty_super b \<longleftrightarrow> writable b \<and> length (b_block_devices b) = 1 \<and>
     list_all (\<lambda>p. pt_extents p = [] \<and> and (pt_attributes p) LP_PARTITION_ATTR_READONLY \<noteq> 0) (b_partitions b)"

lemma all_extents_empty: "list_all (\<lambda>p. pt_extents p = []) ps \<Longrightarrow> all_extents ps = []"
  by (induction ps) simp_all

text \<open>
  C30: opening the image file that was written for an empty super partition, from a descriptor or from a
  buffer, succeeds and restores the builder that was exported; adding the image of a partition then
  resizes exactly that partition, keeps the allocation disjoint and remembers the image, and a refusal
  changes nothing.
\<close>

theorem layout_open_add:
  assumes "\<forall>x. length (sha x) = 32" "empty_super b" "alloc_ok b" "geometry_ok (b_geometry b)"
    and "list_all device_end_aligned (b_block_devices b)" "Export b = Some m" "SerializeMetadata sha m = Inr blob"
  shows "\<exists>s b'. b' = b\<lparr>b_geometry := sealed_geometry sha (b_geometry b)\<rparr> \<and>
    s = \<lparr>sl_builder = Some b', sl_image_map = Map.empty\<rparr> \<and>
    Open_fd sha new_layout_builder (SerializeGeometry sha (m_geometry m) @ blob) = Inr (True, s) \<and>
    Open_blob sha new_layout_builder (SerializeGeometry sha (m_geometry m) @ blob) = Inr (True, s) \<and>
    (\<forall>store name image sz ok s'. AddPartitionImageFile store s name image sz = Inr (ok, s') \<longrightarrow>
      (if ok then \<exists>i b''. FindPartitionB b' name = Some i \<and> alloc_ok b'' \<and>
           resized b' i (round_up (unat sz) (unat (g_logical_block_size (b_geometry b)))) b'' \<and>
           s' = \<lparr>sl_builder = Some b'', sl_image_map = [name \<mapsto> image]\<rparr>
       else s' = s))"
proof -
  have sha: "length (sha x) = 32" for x using assms(1) by simp
  have w: "writable b" and ex: "exportable b" and one: "length (b_block_devices b) = 1"
    using assms(2) by (simp_all add: empty_super_def writable_def)
  let ?b = "b\<lparr>b_geometry := sealed_geometry sha (b_geometry b)\<rparr>" and ?m = "as_written sha m"
  let ?s = "\<lparr>sl_builder = Some ?b, sl_image_map = Map.empty\<rparr> :: SuperLayoutBuilder"
  note t = Export_tables[OF ex assms(6)]
  have geo: "geometry_fields_ok (m_geometry m)" using w t(1) by (simp add: writable_def)
  note img = image_bytes[of sha, OF sha conjunct1[OF Export_metadata_ok[OF w assms(6)]] geo assms(7)]
  have ext: "m_extents ?m = []" using assms(2) t(2) all_extents_empty[of "b_partitions b"]
    by (simp add: as_written_def empty_super_def list_all_iff)
  have devs: "length (m_block_devices ?m) = 1" using one t(4) by (simp add: as_written_def)
  have parts: "list_all supported_partition (m_partitions ?m)"
  proof -
    have "supported_partition q" if q: "q \<in> set (m_partitions m)" for q
    proof -
      from t(5) q obtain idx where "q \<in> set (partition_entries idx 0 (b_partitions b))" by auto
      from partition_entries_range[OF this] obtain p f where "p \<in> set (b_partitions b)" "q = partition_entry idx f p" by blast
      then show ?thesis using assms(2) w
        by (auto simp: supported_partition_def partition_entry_def empty_super_def writable_def list_all_iff)
    qed
    then show ?thesis by (simp add: as_written_def list_all_iff)
  qed
  have "InitMetadata ?m = Inr (Some ?b)"
    using InitMetadata_exported[OF ex assms(6) same_tables_as_written] t(1) by (simp add: as_written_def)
  then have op: "Open new_layout_builder ?m = Inr (True, ?s)"
    using parts ext devs by (simp add: Open_def new_layout_builder_def)
  have a: "alloc_ok ?b" "geometry_ok (b_geometry ?b)" "list_all device_end_aligned (b_block_devices ?b)"
    using assms(3-5) by (simp_all add: alloc_ok_def disk_def geometry_ok_def)
  have hint: "disjoint_intervals []" by (simp add: disjoint_intervals_def)
  have add: "if ok then \<exists>i b''. FindPartitionB ?b name = Some i \<and> alloc_ok b'' \<and>
         resized ?b i (round_up (unat sz) (unat (g_logical_block_size (b_geometry b)))) b'' \<and>
         s' = \<lparr>sl_builder = Some b'', sl_image_map = [name \<mapsto> image]\<rparr>
       else s' = ?s" if run: "AddPartitionImageFile store ?s name image sz = Inr (ok, s')" for store name image sz ok s'
  proof (cases "FindPartitionB ?b name")
    case None
    with run show ?thesis by (auto simp: AddPartitionImageFile_def)
  next
    case (Some i)
    with run obtain c b'' where r: "ResizePartition store ?b i sz [] = Inr (c, b'')" "ok = c"
      "s' = (if c then \<lparr>sl_builder = Some b'', sl_image_map = [name \<mapsto> image]\<rparr> else \<lparr>sl_builder = Some b'', sl_image_map = Map.empty\<rparr>)"
      by (auto simp: AddPartitionImageFile_def bind_run_eq_Inr_iff emplace_def split: if_splits)
    show ?thesis
    proof (cases c)
      case True
      have "ResizePartition store ?b i sz [] = Inr (True, b'')" using r(1) True by simp
      from ResizePartition_spec[OF a(1,2) hint a(3) this] Some r True show ?thesis by auto
    next
      case False
      have "ResizePartition store ?b i sz [] = Inr (False, b'')" using r(1) False by simp
      from ResizePartition_refused[OF a(1) hint this] r False show ?thesis by simp
    qed
  qed
  have "Open_fd sha new_layout_builder (SerializeGeometry sha (m_geometry m) @ blob) = Inr (True, ?s)"
    "Open_blob sha new_layout_builder (SerializeGeometry sha (m_geometry m) @ blob) = Inr (True, ?s)"
    using img op by (simp_all add: Open_fd_def Open_blob_def Open_read_def)
  then show ?thesis by (intro exI[of _ ?s] exI[of _ ?b] conjI refl allI impI add)
qed

definition demo_empty_super :: MetadataBuilder where
  "demo_empty_super = demo_builder\<lparr>b_partitions := [new_partition ''system_a'' ''default'' 1, new_partition ''vendor_a'' ''default'' 1]\<rparr>"

theorem layout_open_add_witness:
  "\<exists>m blob s. Export demo_empty_super = Some m \<and> SerializeMetadata demo_sha m = Inr blob \<and>
    Open_fd demo_sha new_layout_builder (SerializeGeometry demo_sha (m_geometry m) @ blob) = Inr (True, s) \<and>
    sl_builder s = Some demo_empty_super"
proof -
  have sha: "\<forall>x. length (demo_sha x) = 32" by (simp add: demo_sha_def)
  have e: "empty_super demo_empty_super" "alloc_ok demo_empty_super" "geometry_ok (b_geometry demo_empty_super)"
    "list_all device_end_aligned (b_block_devices demo_empty_super)"
    by code_simp+
  then have w: "writable demo_empty_super" "exportable demo_empty_super" by (simp_all add: empty_super_def writable_def)
  obtain m where m: "Export demo_empty_super = Some m" using Export_eq[OF w(2)] by auto
  obtain blob where b: "SerializeMetadata demo_sha m = Inr blob"
    using metadata_roundtrip_lemma[of demo_sha m, OF demo_sha_length conjunct1[OF Export_metadata_ok[OF w(1) m]]] by blast
  have "demo_empty_super\<lparr>b_geometry := sealed_geometry demo_sha (b_geometry demo_empty_super)\<rparr> = demo_empty_super"
    using demo_geometry_fields(4) by (simp add: demo_empty_super_def demo_builder_def)
  with layout_open_add[OF sha e m b] m b show ?thesis by auto
qed

end
