(* ===== verification/Spec2Isabelle.thy ===== *)
theory Spec2Isabelle imports LpStorage SpProperties LpLayoutProps begin

text \<open>
  The repository repacks Android firmware images. A shell script drives a collection of tools whose
  sources are vendored under \<open>src/tools\<close>; the ones that decide what ends up in an image are
  \<open>liblp\<close> (\<open>src/tools/aosp-system-core-lp/fs_mgr/liblp\<close>), which lays out dynamic partitions in a
  super partition and keeps their metadata, and \<open>libsparse\<close>
  (\<open>src/tools/aosp-system-core-lp/libsparse\<close>), which converts images to and from the sparse format.
  This development models both as functions and states what makes them correct.

  \<^bold>\<open>How the model is read.\<close>
  A struct or class is a record, a fixed-width integer a word of that width (\<open>u8\<close> to \<open>u64\<close>), a vector
  or a C++ list a list, a \<open>std::string\<close> or a byte buffer a list. A function that changes an object
  returns the new object. A function that can end abnormally returns a \<open>run\<close>: \<open>Inl\<close> a \<open>fault\<close>
  (\<open>CheckFailed\<close> for a failed \<open>CHECK\<close> or \<open>assert\<close>, \<open>OutOfRange\<close> for an access outside an object,
  \<open>NullPointer\<close>, \<open>DivisionByZero\<close>, \<open>UninitialisedRead\<close>, \<open>SignedOverflow\<close>) or \<open>Inr\<close> the value. Error returns are
  values: a \<open>bool\<close>, an \<open>int\<close> that is negative, an \<open>option\<close> for a null pointer. Loops are recursive
  functions; the three loops that need not end (\<open>split_all\<close>, \<open>resparse_loop\<close>, \<open>read_hole_loop\<close>) are
  partial functions into \<open>option\<close>, so that \<open>None\<close> is "does not return" and a theorem that says \<open>Some\<close>
  says that the loop ends. No fuel is used.

  \<^bold>\<open>liblp.\<close>
  \<open>LpPrelude\<close> holds the common types, the result type and lemmas on words; \<open>LpFormat\<close> the structures of
  \<open>metadata_format.h\<close> and \<open>liblp.h\<close>; \<open>LpUtility\<close> and \<open>LpSnapshot\<close> the functions of \<open>utility.cpp\<close>,
  \<open>parsebool.cpp\<close> and \<open>properties.cpp\<close>. \<open>LpExtent\<close>, \<open>LpPartition\<close>, \<open>LpBuilder\<close>, \<open>LpAlloc\<close> and \<open>LpExport\<close>
  are \<open>builder.cpp\<close>: extents, partitions and groups, the builder with \<open>Init\<close>, groups and partitions, the
  allocator with \<open>GetFreeRegions\<close>, \<open>GrowPartition\<close> and \<open>ResizePartition\<close>, and the export of a builder into
  metadata tables. \<open>LpCodec\<close> gives the byte images of the structures, \<open>LpReader\<close> and \<open>LpWriter\<close> are
  \<open>reader.cpp\<close> and \<open>writer.cpp\<close> over a device that is the list of its bytes; a writer that fails or tears
  a write is an argument.
  The other theories prove: the free list is sorted, disjoint and free (\<open>LpFreeList\<close>); allocation keeps
  the extents of all partitions disjoint and inside their devices (\<open>LpAllocSafe\<close>); the contract of a
  resize (\<open>LpResize\<close>) and that it returns on block-aligned builders (\<open>LpBlocks\<close>); the invariant of every
  reachable builder, by rule induction over the operations (\<open>LpBuilderInv\<close>); that the reader stays inside
  its buffer and accepts only consistent metadata (\<open>LpReaderSafe\<close>); that what is written is read back
  (\<open>LpTables\<close>), that flashing and updating touch only the copies they should (\<open>LpFlash\<close>) and that an update
  is crash safe (\<open>LpCrash\<close>); the path from a builder to a device and back (\<open>LpDevice\<close>). \<open>LpDemo\<close> is a
  small super partition, on which \<open>LpStorage\<close> and the others instantiate the properties.
  \<open>LpImages\<close> is the first half of \<open>images.cpp\<close>: a metadata in a regular file, written through a temporary
  file, over a file system that maps paths to contents; \<open>LpImagesProps\<close> shows that such a file is
  replaced as a whole. \<open>LpLayout\<close> is \<open>super_layout_builder.cpp\<close>: a super image as a list of extents, each
  with its bytes, a part of a partition image, zeros or a gap. \<open>LpTiles\<close> shows that the gaps make the
  extents adjacent and what writing such a list leaves on a device, \<open>LpLayoutOk\<close> that the extents of a
  layout lie apart, and \<open>LpLayoutProps\<close> that flashing a layout gives a device whose slots hold the
  metadata and whose partitions hold their images.

  \<^bold>\<open>libsparse.\<close>
  \<open>SpCrc\<close> is \<open>sparse_crc32.cpp\<close>, proved equal to the division by the CRC polynomial. \<open>SpBlocks\<close> is
  \<open>backed_block.cpp\<close>, the sorted list of blocks behind a sparse file; \<open>SpBlocksInv\<close> gives its invariant and
  its meaning \<open>bbl_image\<close>, a partial map from positions to bytes, which queueing updates and splitting
  keeps. \<open>SpFormat\<close> is \<open>sparse_format.h\<close>, \<open>SpOutput\<close> and \<open>SpSink\<close> are \<open>output_file.cpp\<close>: the writers of chunks,
  sparse and expanded, over a table of functions that reach a descriptor or a callback. \<open>SpSparse\<close> is
  \<open>sparse.cpp\<close>, \<open>SpRead\<close> is \<open>sparse_read.cpp\<close>, \<open>SpTools\<close> holds the bodies of \<open>img2simg\<close> and \<open>simg2img\<close>.
  A descriptor carries the outcomes of its next system calls (short, interrupted, failed), mapped files
  and opened names come from a record \<open>env\<close>, and \<open>env_ok\<close> says that it delivers the bytes of the
  files, which is what POSIX promises of \<open>mmap\<close> and \<open>open\<close>.
  The proofs go through an abstract chunk list: \<open>SpChunks\<close> shows that each writer adds exactly the bytes
  of a chunk to any sink that keeps the interface \<open>byte_sink\<close> (and \<open>output_sink\<close> for expanded output),
  interpreted for the descriptor, for a collecting callback and for the counter of \<open>sparse_file_len\<close>;
  \<open>SpSparseInv\<close> and \<open>SpWrite\<close> do the traversal of the block list; \<open>SpImage\<close> relates chunk lists to images;
  \<open>SpSplit\<close> treats the 64 MiB splitting and \<open>SpFileWrite\<close> whole writes. \<open>SpReadInv\<close> states the reader against
  the interface \<open>sparse_source\<close>, interpreted for a buffer and a descriptor; \<open>SpRoundtrip\<close> joins both;
  \<open>SpPlain\<close> and \<open>SpOverrun\<close> treat plain files of whole and of partial blocks; \<open>SpCut\<close> and \<open>SpResparse\<close> cutting
  a file into pieces; \<open>SpSafe\<close> images of arbitrary bytes. \<open>SpTheorems\<close> and \<open>SpProperties\<close> state the
  properties and their instances.

  \<^bold>\<open>Bounds.\<close>
  Lengths are bounded by what the code's own integers can hold: block counts below \<open>2 ^ 31\<close> where a count
  passes through an \<open>int\<close>, lengths below \<open>2 ^ 63\<close>; resparsing asks for a file below \<open>2 ^ 62\<close> bytes and a
  \<open>max_len\<close> of at least 68 bytes and eight blocks, below which the loop of the code does not end or
  ignores the limit. A block size of at most 64 MiB is what the splitting loop needs.

  \<^bold>\<open>Not modelled.\<close>
  Log output, memory allocation (it succeeds) and reference counting; the gzip sink of libsparse
  (zlib); \<open>partition_opener.cpp\<close> and the opening of files (their result is an argument); the SHA-256
  function, an argument of the functions that use it; of \<open>builder.cpp\<close> and \<open>super_layout_builder.cpp\<close> the
  output operators; of \<open>libbase\<close> all but the two property functions, \<open>ParseBool\<close>, mapping a file,
  \<open>WriteFully\<close> and \<open>ReadFully\<close>. The remaining tools of the
  repository (file system, verified boot, device tree and boot image tools, the other parts of
  \<open>system/core\<close>) are third-party programs that the script runs, or not built at all.
\<close>

end
